(* ===== verification/Prelude.thy ===== *)
theory Prelude
  imports Complex_Main "HOL-Library.Char_ord" "HOL-Library.List_Lexorder"
begin

text \<open>
  Shared vocabulary of the development: C++ exceptions as values (\<open>exn\<close>), the result type of a
  function that may throw and its sequencing operators, short-circuit conditions whose operands may
  throw, byte-level character classes, and \<^verbatim>\<open>std::map\<close> as a strictly sorted association list with
  its interface stated as a locale.
\<close>

section \<open>Collections of rewrite rules\<close>

named_theorems result_simps \<open>unfolding of the result monad\<close>
named_theorems byte_simps \<open>character classes as inequalities on byte values\<close>

section \<open>Exceptions and results\<close>

text \<open>
  \<open>InvalidArgument\<close> and \<open>RuntimeError\<close> carry the text given to the C++ exception;
  \<open>OutOfRange\<close> is thrown by \<^verbatim>\<open>std::map::at\<close>, \<open>BadVariantAccess\<close> by \<^verbatim>\<open>std::get\<close> on the wrong
  alternative. \<open>OutOfFuel\<close> is no exception of the program: it marks an exhausted recursion bound of
  the model, and theorems show that it never escapes.
\<close>

datatype exn =
    InvalidArgument string
  | RuntimeError string
  | OutOfRange
  | BadVariantAccess
  | OutOfFuel

type_synonym 'a result = "exn + 'a"

definition ebind :: "'a result \<Rightarrow> ('a \<Rightarrow> 'b result) \<Rightarrow> 'b result" where
  "ebind m f = (case m of Inl e \<Rightarrow> Inl e | Inr x \<Rightarrow> f x)"

definition ewhen :: "bool \<Rightarrow> exn \<Rightarrow> unit result" where
  "ewhen b e = (if b then Inl e else Inr ())"

lemma ebind_Inl [simp]: "ebind (Inl e) f = Inl e"
  by (simp add: ebind_def)

lemma ebind_Inr [simp]: "ebind (Inr x) f = f x"
  by (simp add: ebind_def)

lemma ewhen_True [simp]: "ewhen True e = Inl e"
  by (simp add: ewhen_def)

lemma ewhen_False [simp]: "ewhen False e = Inr ()"
  by (simp add: ewhen_def)

lemma not_isl_Inr: "\<not> isl r \<Longrightarrow> \<exists>x. r = Inr x"
  by (cases r) auto

lemma ebind_cong [fundef_cong]:
  "m = m' \<Longrightarrow> (\<And>x. m' = Inr x \<Longrightarrow> f x = f' x) \<Longrightarrow> ebind m f = ebind m' f'"
  by (cases m') auto

lemma ebind_eq_Inr [result_simps]:
  "ebind m f = Inr y \<longleftrightarrow> (\<exists>x. m = Inr x \<and> f x = Inr y)"
  by (cases m) auto

lemma ebind_eq_Inl [result_simps]:
  "ebind m f = Inl e \<longleftrightarrow> m = Inl e \<or> (\<exists>x. m = Inr x \<and> f x = Inl e)"
  by (cases m) auto

lemma ewhen_eq_Inr [result_simps]: "ewhen b e = Inr u \<longleftrightarrow> \<not> b"
  by (cases b) auto

lemma ewhen_eq_Inl [result_simps]: "ewhen b e = Inl e' \<longleftrightarrow> b \<and> e' = e"
  by (cases b) auto

text \<open>
  Conditions joined by \<open>||\<close> and \<open>&&\<close>: evaluated from the left, stopping at the first operand that
  decides the condition or throws.
\<close>

fun eany :: "bool result list \<Rightarrow> bool result" where
  "eany [] = Inr False"
| "eany (b # bs) = ebind b (\<lambda>x. if x then Inr True else eany bs)"

fun eall :: "bool result list \<Rightarrow> bool result" where
  "eall [] = Inr True"
| "eall (b # bs) = ebind b (\<lambda>x. if x then eall bs else Inr False)"

lemma eany_False [result_simps]: "eany bs = Inr False \<longleftrightarrow> list_all (\<lambda>b. b = Inr False) bs"
  by (induction bs) (auto simp: result_simps split: if_splits)

lemma eall_True [result_simps]: "eall bs = Inr True \<longleftrightarrow> list_all (\<lambda>b. b = Inr True) bs"
  by (induction bs) (auto simp: result_simps split: if_splits)

text \<open>\<open>if (c) throw e;\<close> where evaluating \<open>c\<close> may itself throw.\<close>

definition ethrow_if :: "bool result \<Rightarrow> exn \<Rightarrow> unit result" where
  "ethrow_if c e = ebind c (\<lambda>b. ewhen b e)"

lemma ethrow_if_Inr [result_simps]: "ethrow_if c e = Inr u \<longleftrightarrow> c = Inr False"
  by (auto simp: ethrow_if_def result_simps)

lemma ethrow_if_simps [simp]:
  "ethrow_if (Inr True) e = Inl e" "ethrow_if (Inr False) e = Inr ()" "ethrow_if (Inl e') e = Inl e'"
  by (simp_all add: ethrow_if_def)

definition emap :: "('a \<Rightarrow> 'b) \<Rightarrow> 'a result \<Rightarrow> 'b result" where
  "emap f m = ebind m (\<lambda>x. Inr (f x))"

lemma emap_simps [simp]: "emap f (Inl e) = Inl e" "emap f (Inr x) = Inr (f x)"
  by (simp_all add: emap_def)

lemma emap_eq_Inr [result_simps]: "emap f m = Inr y \<longleftrightarrow> (\<exists>x. m = Inr x \<and> y = f x)"
  by (auto simp: emap_def result_simps)

text \<open>A loop that maps a throwing function over a container, in order.\<close>

fun emapM :: "('a \<Rightarrow> 'b result) \<Rightarrow> 'a list \<Rightarrow> 'b list result" where
  "emapM f [] = Inr []"
| "emapM f (x # xs) = ebind (f x) (\<lambda>y. ebind (emapM f xs) (\<lambda>ys. Inr (y # ys)))"

lemma emapM_Inr: "emapM f xs = Inr ys \<longleftrightarrow> list_all2 (\<lambda>x y. f x = Inr y) xs ys"
  by (induction xs arbitrary: ys) (auto simp: result_simps list_all2_Cons1)

section \<open>Bytes\<close>

text \<open>A C++ \<^verbatim>\<open>std::string\<close> is a list of bytes; \<open>byte c\<close> is the value of \<open>c\<close> as an unsigned char.\<close>

definition byte :: "char \<Rightarrow> nat" where
  "byte c = of_char c"

definition chr :: "nat \<Rightarrow> char" where
  "chr n = char_of n"

lemma byte_less [simp]: "byte c < 256"
proof -
  have "of_char c mod (256 :: nat) = of_char c"
    by (simp only: of_char_mod_256)
  then show ?thesis
    unfolding byte_def by (metis mod_less_divisor zero_less_numeral)
qed

lemma byte_chr: "byte (chr n) = n mod 256"
  by (simp add: byte_def chr_def)

lemma byte_chr_less [simp]: "n < 256 \<Longrightarrow> byte (chr n) = n"
  by (simp add: byte_chr)

lemma chr_byte [simp]: "chr (byte c) = c"
  by (simp add: byte_def chr_def)

lemma byte_inj [simp]: "byte c = byte d \<longleftrightarrow> c = d"
  by (metis chr_byte)

definition is_digit :: "char \<Rightarrow> bool" where
  "is_digit c = (48 \<le> byte c \<and> byte c \<le> 57)"

definition is_lower :: "char \<Rightarrow> bool" where
  "is_lower c = (97 \<le> byte c \<and> byte c \<le> 122)"

definition is_upper :: "char \<Rightarrow> bool" where
  "is_upper c = (65 \<le> byte c \<and> byte c \<le> 90)"

definition is_lower_hex :: "char \<Rightarrow> bool" where
  "is_lower_hex c = (is_digit c \<or> 97 \<le> byte c \<and> byte c \<le> 102)"

definition is_alnum :: "char \<Rightarrow> bool" where
  "is_alnum c = (is_upper c \<or> is_lower c \<or> is_digit c)"

lemmas class_defs [byte_simps] =
  is_digit_def is_lower_def is_upper_def is_lower_hex_def is_alnum_def byte_def

text \<open>The table \<^verbatim>\<open>"0123456789abcdef"\<close> every hexadecimal writer of the program indexes.\<close>

definition hex_digit :: "nat \<Rightarrow> char" where
  "hex_digit n = (if n < 10 then chr (48 + n) else chr (87 + n))"

lemma hex_digit_table:
  "map hex_digit [0..<16] = ''0123456789abcdef''"
  by code_simp

lemma hex_digit_lower_hex [simp]: "n < 16 \<Longrightarrow> is_lower_hex (hex_digit n)"
  by (auto simp: hex_digit_def is_lower_hex_def is_digit_def)

lemma byte_hex_digit: "n < 16 \<Longrightarrow> byte (hex_digit n) = (if n < 10 then 48 + n else 87 + n)"
  by (auto simp: hex_digit_def)

text \<open>Prefix test and removal, the model of \<^verbatim>\<open>substr(pos, n) == "..."\<close> followed by an advance.\<close>

fun strip :: "string \<Rightarrow> string \<Rightarrow> string option" where
  "strip [] s = Some s"
| "strip (p # ps) [] = None"
| "strip (p # ps) (c # cs) = (if c = p then strip ps cs else None)"

lemma strip_append [simp]: "strip p (p @ s) = Some s"
  by (induction p) auto

lemma strip_Some: "strip p s = Some r \<longleftrightarrow> s = p @ r"
  by (induction p s rule: strip.induct) auto

section \<open>Ordered maps\<close>

text \<open>
  \<^verbatim>\<open>std::map<std::string, T>\<close> keeps its keys unique and sorted by unsigned byte order, which is the
  order \<^theory_text>\<open>List_Lexorder\<close> and \<^theory_text>\<open>Char_ord\<close> give to \<open>string\<close>. It is modelled as the association
  list its iteration yields. \<open>dict_set\<close> is \<^verbatim>\<open>m[k] = v\<close>, \<open>dict_emplace\<close> keeps an existing entry,
  \<open>dict_erase\<close> is \<^verbatim>\<open>erase\<close>, \<open>dict_get\<close> is the lookup behind \<^verbatim>\<open>find\<close>, \<^verbatim>\<open>at\<close> and \<^verbatim>\<open>count\<close>.
\<close>

type_synonym ('k, 'v) dict = "('k \<times> 'v) list"

fun dict_get :: "('k, 'v) dict \<Rightarrow> 'k \<Rightarrow> 'v option" where
  "dict_get [] k = None"
| "dict_get (e # m) k = (if fst e = k then Some (snd e) else dict_get m k)"

fun dict_set :: "'k :: linorder \<Rightarrow> 'v \<Rightarrow> ('k, 'v) dict \<Rightarrow> ('k, 'v) dict" where
  "dict_set k v [] = [(k, v)]"
| "dict_set k v (e # m) =
     (if fst e = k then (k, v) # m
      else if fst e < k then e # dict_set k v m
      else (k, v) # e # m)"

fun dict_erase :: "'k \<Rightarrow> ('k, 'v) dict \<Rightarrow> ('k, 'v) dict" where
  "dict_erase k [] = []"
| "dict_erase k (e # m) = (if fst e = k then m else e # dict_erase k m)"

definition dict_has :: "('k, 'v) dict \<Rightarrow> 'k \<Rightarrow> bool" where
  "dict_has m k = (dict_get m k \<noteq> None)"

definition dict_emplace :: "'k :: linorder \<Rightarrow> 'v \<Rightarrow> ('k, 'v) dict \<Rightarrow> ('k, 'v) dict" where
  "dict_emplace k v m = (if dict_has m k then m else dict_set k v m)"

text \<open>A braced initializer list inserts its pairs from left to right; the first of equal keys stays.\<close>

fun dict_init :: "('k :: linorder \<times> 'v) list \<Rightarrow> ('k, 'v) dict \<Rightarrow> ('k, 'v) dict" where
  "dict_init [] m = m"
| "dict_init ((k, v) # es) m = dict_init es (dict_emplace k v m)"

definition dict_ok :: "('k :: linorder, 'v) dict \<Rightarrow> bool" where
  "dict_ok m = sorted_wrt (<) (map fst m)"

lemma dict_ok_Nil [simp]: "dict_ok []"
  by (simp add: dict_ok_def)

lemma dict_ok_Cons [simp]: "dict_ok (e # m) \<longleftrightarrow> (\<forall>x\<in>set m. fst e < fst x) \<and> dict_ok m"
  by (auto simp: dict_ok_def)

lemma dict_get_in_set: "dict_get m k = Some v \<Longrightarrow> (k, v) \<in> set m"
  by (induction m) (auto split: if_splits)

lemma dict_get_None: "dict_get m k = None \<longleftrightarrow> k \<notin> fst ` set m"
  by (induction m) auto

lemma dict_get_set [simp]: "dict_get (dict_set k v m) k' = (if k' = k then Some v else dict_get m k')"
  by (induction m) auto

lemma set_dict_set: "set (dict_set k v m) \<subseteq> insert (k, v) (set m)"
  by (induction m) auto

lemma set_dict_erase: "set (dict_erase k m) \<subseteq> set m"
  by (induction m) auto

lemma dict_ok_set [simp]: "dict_ok m \<Longrightarrow> dict_ok (dict_set k v m)"
proof (induction m)
  case (Cons e m)
  with set_dict_set [of k v m] show ?case by auto
qed simp

lemma dict_ok_erase [simp]: "dict_ok m \<Longrightarrow> dict_ok (dict_erase k m)"
proof (induction m)
  case (Cons e m)
  with set_dict_erase [of k m] show ?case by auto
qed simp

lemma dict_get_fresh: "\<forall>x\<in>set m. k < fst x \<Longrightarrow> dict_get m k = None" for k :: "'k :: linorder"
  by (auto simp: dict_get_None)

lemma dict_get_erase [simp]:
  "dict_ok m \<Longrightarrow> dict_get (dict_erase k m) k' = (if k' = k then None else dict_get m k')"
  by (induction m) (auto simp: dict_get_fresh)

lemma dict_ext:
  assumes "dict_ok m" "dict_ok n" "\<And>k. dict_get m k = dict_get n k"
  shows "m = n"
  using assms
proof (induction m arbitrary: n)
  case Nil
  then show ?case
    by (cases n) (auto split: if_splits, metis option.distinct(1))
next
  case (Cons e m)
  obtain f n' where n: "n = f # n'"
    using Cons.prems(3) [of "fst e"] by (cases n) auto
  have e: "fst e = fst f"
  proof (rule antisym)
    show "fst e \<le> fst f"
      using Cons.prems(1) Cons.prems(3) [of "fst f"] n
      by (auto split: if_splits dest!: dict_get_in_set sym [of "Some _"] intro: less_imp_le)
    show "fst f \<le> fst e"
      using Cons.prems(2) Cons.prems(3) [of "fst e"] n
      by (auto split: if_splits dest!: dict_get_in_set sym [of "Some _"] intro: less_imp_le)
  qed
  with Cons.prems(3) [of "fst e"] n have "e = f"
    by (auto intro: prod_eqI)
  moreover have "dict_get m k = dict_get n' k" for k
    using Cons.prems(1,2) Cons.prems(3) [of k] n \<open>e = f\<close>
    by (cases "k = fst e") (auto simp: dict_get_fresh)
  ultimately show ?case
    using Cons.prems(1,2) Cons.IH [of n'] n by auto
qed

text \<open>
  The interface the clients of \<^verbatim>\<open>std::map\<close> rely on: what a lookup returns after a store or an erase,
  that both keep the invariant, and that the representation is unique. The last law is what makes a
  serialized object independent of the order in which its members were assigned.
\<close>

locale ordered_map =
  fixes get :: "'m \<Rightarrow> 'k \<Rightarrow> 'v option"
    and put :: "'k \<Rightarrow> 'v \<Rightarrow> 'm \<Rightarrow> 'm"
    and del :: "'k \<Rightarrow> 'm \<Rightarrow> 'm"
    and inv :: "'m \<Rightarrow> bool"
  assumes get_put: "inv m \<Longrightarrow> get (put k v m) k' = (if k' = k then Some v else get m k')"
    and get_del: "inv m \<Longrightarrow> get (del k m) k' = (if k' = k then None else get m k')"
    and inv_put: "inv m \<Longrightarrow> inv (put k v m)"
    and inv_del: "inv m \<Longrightarrow> inv (del k m)"
    and unique: "inv m \<Longrightarrow> inv n \<Longrightarrow> (\<And>k. get m k = get n k) \<Longrightarrow> m = n"
begin

lemma put_commute: "inv m \<Longrightarrow> j \<noteq> k \<Longrightarrow> put j v (put k w m) = put k w (put j v m)"
  by (rule unique) (auto simp: inv_put get_put)

lemma put_overwrite: "inv m \<Longrightarrow> put k v (put k w m) = put k v m"
  by (rule unique) (auto simp: inv_put get_put)

lemma put_get_same: "inv m \<Longrightarrow> get m k = Some v \<Longrightarrow> put k v m = m"
  by (rule unique) (auto simp: inv_put get_put)

lemma del_put: "inv m \<Longrightarrow> get m k = None \<Longrightarrow> del k (put k v m) = m"
  by (rule unique) (auto simp: inv_put inv_del get_put get_del)

lemma del_absent: "inv m \<Longrightarrow> get m k = None \<Longrightarrow> del k m = m"
  by (rule unique) (auto simp: inv_del get_del)

end

interpretation dict: ordered_map dict_get dict_set dict_erase "dict_ok :: ('k :: linorder, 'v) dict \<Rightarrow> bool"
proof unfold_locales
  fix m n :: "('k, 'v) dict"
  assume "dict_ok m" "dict_ok n" "\<And>k. dict_get m k = dict_get n k"
  then show "m = n" by (rule dict_ext)
qed auto

lemma dict_ok_emplace [simp]: "dict_ok m \<Longrightarrow> dict_ok (dict_emplace k v m)"
  by (simp add: dict_emplace_def)

lemma dict_ok_init [simp]: "dict_ok m \<Longrightarrow> dict_ok (dict_init es m)"
  by (induction es m rule: dict_init.induct) auto

lemma dict_has_set [simp]: "dict_has (dict_set k v m) k' \<longleftrightarrow> k' = k \<or> dict_has m k'"
  by (auto simp: dict_has_def)

lemma length_dict_set:
  "dict_ok m \<Longrightarrow> length (dict_set k v m) = (if dict_has m k then length m else Suc (length m))"
  by (induction m) (auto simp: dict_has_def dict_get_None not_less dest: order.strict_trans2)

lemma length_dict_erase:
  "dict_ok m \<Longrightarrow> length (dict_erase k m) = (if dict_has m k then length m - 1 else length m)"
proof (induction m)
  case (Cons e m)
  then show ?case
    by (cases m) (auto simp: dict_has_def)
qed (simp add: dict_has_def)

end
