(* ===== verification/Binary64.thy ===== *)
theory Binary64
  imports Prelude "HOL-Library.Log_Nat"
begin

text \<open>
  The C++ type \<^verbatim>\<open>double\<close> (IEEE 754 binary64) as far as the program uses it: finite values as exact
  rationals, the infinities and NaN, round-to-nearest-even after every arithmetic operation, and the
  comparisons, \<^verbatim>\<open>std::min\<close>, \<^verbatim>\<open>std::max\<close>, \<^verbatim>\<open>std::abs\<close>, \<^verbatim>\<open>std::floor\<close>, \<^verbatim>\<open>std::ceil\<close> and the
  conversion to \<^verbatim>\<open>int\<close>. The sign of zero is not modelled: the program never divides by a value that
  may be zero and never prints a double, so the two zeros cannot be told apart. The lemmas bound a
  rounded result by any representable bound of the exact one.
\<close>

section \<open>Rounding\<close>

datatype double = Fin rat | PInf | NInf | NaN

definition flog2 :: "rat \<Rightarrow> int" where
  "flog2 q = (let (p, d) = quotient_of q; e = bitlen p - bitlen d
              in if 2 powi e \<le> q then e else e - 1)"

definition round_half_even :: "rat \<Rightarrow> int" where
  "round_half_even x =
     (let f = \<lfloor>x\<rfloor>; r = x - of_int f
      in if r < 1 / 2 then f
         else if 1 / 2 < r then f + 1
         else if even f then f else f + 1)"

definition ulp_exp :: "rat \<Rightarrow> int" where
  "ulp_exp q = max (flog2 \<bar>q\<bar> - 52) (-1074)"

definition rnd :: "rat \<Rightarrow> double" where
  "rnd q =
     (if q = 0 then Fin 0
      else let u = 2 powi ulp_exp q; v = of_int (round_half_even (q / u)) * u
           in if v \<ge> 2 ^ 1024 then PInf else if v \<le> - (2 ^ 1024) then NInf else Fin v)"

definition representable :: "rat \<Rightarrow> bool" where
  "representable b \<longleftrightarrow>
     (\<exists>n e. b = of_int n * 2 powi e \<and> \<bar>n\<bar> < 2 ^ 53 \<and> -1074 \<le> e) \<and> \<bar>b\<bar> < 2 ^ 1024"

lemma bitlen_bounds_rat:
  assumes "0 < (x :: int)"
  shows "(2 :: rat) powi (bitlen x - 1) \<le> of_int x" "of_int x < (2 :: rat) powi bitlen x"
proof -
  define k where "k = nat (bitlen x - 1)"
  have b: "1 \<le> bitlen x"
    using assms by (simp add: bitlen_def floorlog_def)
  have "2 ^ k \<le> x" "x < 2 ^ Suc k"
    using bitlen_bounds [OF assms] b
    by (simp_all add: k_def Suc_nat_eq_nat_zadd1 nat_add_distrib flip: power_Suc)
  then have "of_int (2 ^ k) \<le> (of_int x :: rat)" "(of_int x :: rat) < of_int (2 ^ Suc k)"
    by (simp_all only: of_int_le_iff of_int_less_iff)
  moreover have "bitlen x - 1 = int k" "bitlen x = int (Suc k)"
    using b by (simp_all add: k_def)
  ultimately show "(2 :: rat) powi (bitlen x - 1) \<le> of_int x" "of_int x < (2 :: rat) powi bitlen x"
    by (simp_all only: power_int_of_nat of_int_power of_int_numeral)
qed

lemma flog2_bounds:
  assumes "0 < q"
  shows "2 powi flog2 q \<le> q" "q < 2 powi (flog2 q + 1)"
proof -
  obtain p d where pd: "quotient_of q = (p, d)" by (cases "quotient_of q")
  have d: "0 < d" and q: "q = of_int p / of_int d"
    using pd quotient_of_denom_pos quotient_of_div by auto
  with assms have p: "0 < p" by (simp add: zero_less_divide_iff)
  let ?e = "bitlen p - bitlen d"
  note bp = bitlen_bounds_rat [OF p] and bd = bitlen_bounds_rat [OF d]
  have "q < 2 powi bitlen p / 2 powi (bitlen d - 1)"
    unfolding q using bp(2) bd(1) d by (intro frac_less) (auto simp: p less_imp_le)
  also have "\<dots> = 2 powi (?e + 1)"
    by (simp flip: power_int_diff add: algebra_simps)
  finally have hi: "q < 2 powi (?e + 1)" .
  have "2 powi (bitlen p - 1) / 2 powi bitlen d \<le> q"
    unfolding q using bp(1) bd(2) d by (intro frac_le) (auto simp: p less_imp_le)
  also have "2 powi (bitlen p - 1) / 2 powi bitlen d = (2 :: rat) powi (?e - 1)"
    by (simp flip: power_int_diff add: algebra_simps)
  finally have lo: "2 powi (?e - 1) \<le> q" .
  show "2 powi flog2 q \<le> q" "q < 2 powi (flog2 q + 1)"
    using hi lo by (auto simp: flog2_def pd Let_def not_le)
qed

lemma round_half_even_le: "x \<le> of_int k \<Longrightarrow> round_half_even x \<le> k"
proof -
  assume le: "x \<le> of_int k"
  then have f: "\<lfloor>x\<rfloor> \<le> k" by (simp add: floor_le_iff)
  show ?thesis
  proof (cases "\<lfloor>x\<rfloor> = k")
    case True
    with le have "x - of_int \<lfloor>x\<rfloor> < 1 / 2" by simp
    with True show ?thesis by (simp add: round_half_even_def Let_def)
  next
    case False
    with f show ?thesis by (auto simp: round_half_even_def Let_def)
  qed
qed

lemma round_half_even_ge: "of_int k \<le> x \<Longrightarrow> k \<le> round_half_even x"
proof -
  assume "of_int k \<le> x"
  then have "k \<le> \<lfloor>x\<rfloor>" by (simp add: le_floor_iff)
  then show ?thesis by (auto simp: round_half_even_def Let_def)
qed

lemma round_half_even_of_int [simp]: "round_half_even (of_int k) = k"
  by (simp add: round_half_even_def)

text \<open>A representable bound lies on the rounding grid of every smaller value.\<close>

lemma representable_on_grid:
  assumes b: "representable b" and q: "q \<noteq> 0" "\<bar>q\<bar> \<le> \<bar>b\<bar>"
  obtains k where "b = of_int k * 2 powi ulp_exp q"
proof -
  obtain n e where b_eq: "b = of_int n * 2 powi e" and n: "\<bar>n\<bar> < 2 ^ 53" and e: "-1074 \<le> e"
    using b by (auto simp: representable_def)
  have "ulp_exp q \<le> e"
  proof (rule ccontr)
    assume "\<not> ulp_exp q \<le> e"
    with e have gt: "e + 53 \<le> flog2 \<bar>q\<bar>" by (auto simp: ulp_exp_def split: if_splits)
    have "2 powi (e + 53) \<le> (2 :: rat) powi flog2 \<bar>q\<bar>"
      using gt by (intro power_int_increasing) auto
    also have "\<dots> \<le> \<bar>b\<bar>"
      using flog2_bounds(1) [of "\<bar>q\<bar>"] q by linarith
    also have "\<dots> = of_int \<bar>n\<bar> * 2 powi e"
      by (simp add: b_eq abs_mult)
    finally have "(2 :: rat) ^ 53 * 2 powi e \<le> of_int \<bar>n\<bar> * 2 powi e"
      by (simp add: power_int_add mult.commute)
    then have "(2 :: rat) ^ 53 \<le> of_int \<bar>n\<bar>"
      by (simp add: mult_le_cancel_right)
    then have "of_int (2 ^ 53) \<le> (of_int \<bar>n\<bar> :: rat)" by simp
    then have "2 ^ 53 \<le> \<bar>n\<bar>" by (simp only: of_int_le_iff)
    with n show False by simp
  qed
  then have "(2 :: rat) powi e = 2 ^ nat (e - ulp_exp q) * 2 powi ulp_exp q"
    using power_int_add [of "2 :: rat" "e - ulp_exp q" "ulp_exp q"] by (simp add: power_int_def)
  then have "b = of_int (n * 2 ^ nat (e - ulp_exp q)) * 2 powi ulp_exp q"
    by (simp add: b_eq)
  with that show thesis by blast
qed

text \<open>
  Rounding never crosses a representable bound: the value before the overflow test lies on the same
  side of the bound as the exact result.
\<close>

lemma round_grid_le:
  assumes b: "representable b" and q: "0 < q" "q \<le> b"
  shows "of_int (round_half_even (q / 2 powi ulp_exp q)) * 2 powi ulp_exp q \<le> b"
proof -
  obtain k where k: "b = of_int k * 2 powi ulp_exp q"
    using representable_on_grid [OF b] q by (metis abs_of_pos less_le_trans order_less_irrefl)
  then have "q / 2 powi ulp_exp q \<le> of_int k"
    using q by (simp add: divide_le_eq)
  then have "round_half_even (q / 2 powi ulp_exp q) \<le> k"
    by (rule round_half_even_le)
  then show ?thesis unfolding k by (intro mult_right_mono) auto
qed

lemma round_grid_nonneg:
  "0 \<le> q \<Longrightarrow> 0 \<le> of_int (round_half_even (q / 2 powi ulp_exp q)) * (2 :: rat) powi ulp_exp q"
  using round_half_even_ge [of 0 "q / 2 powi ulp_exp q"] by simp

lemma rnd_upper:
  assumes "representable b" "0 \<le> q" "q \<le> b"
  shows "\<exists>v. rnd q = Fin v \<and> 0 \<le> v \<and> v \<le> b"
proof (cases "q = 0")
  case True
  with assms show ?thesis by (simp add: rnd_def)
next
  case False
  let ?v = "of_int (round_half_even (q / 2 powi ulp_exp q)) * 2 powi ulp_exp q :: rat"
  have v: "0 \<le> ?v" "?v \<le> b"
    using round_grid_nonneg [OF assms(2)] round_grid_le [OF assms(1)] False assms(2,3) by auto
  moreover have "b < 2 ^ 1024" using assms by (auto simp: representable_def)
  ultimately have "rnd q = Fin ?v"
    using False by (simp add: rnd_def Let_def not_le)
  with v show ?thesis by blast
qed

lemma rnd_nonneg: "0 \<le> q \<Longrightarrow> rnd q = PInf \<or> (\<exists>v. rnd q = Fin v \<and> 0 \<le> v)"
  using round_grid_nonneg [of q] by (auto simp: rnd_def Let_def)

lemma powi_less_imp_less: "(2 :: rat) powi a < 2 powi b \<Longrightarrow> a < b"
  by (rule ccontr) (simp add: not_less power_int_increasing leD)

lemma rnd_pos:
  assumes "representable b" "2 powi -1074 \<le> q" "q \<le> b"
  shows "\<exists>v. rnd q = Fin v \<and> 0 < v"
proof -
  have q: "0 < q" using assms(2) less_le_trans [of 0 "2 powi -1074" q] by simp
  have "2 powi -1074 < (2 :: rat) powi (flog2 q + 1)"
    using assms(2) flog2_bounds(2) [OF q] by (rule le_less_trans)
  then have "-1074 < flog2 q + 1" by (rule powi_less_imp_less)
  then have "ulp_exp q \<le> flog2 q" using q by (simp add: ulp_exp_def)
  then have "(2 :: rat) powi ulp_exp q \<le> 2 powi flog2 q" by (rule power_int_increasing) simp
  then have "of_int 1 \<le> q / 2 powi ulp_exp q"
    using flog2_bounds(1) [OF q] by (simp add: le_divide_eq)
  then have r: "1 \<le> round_half_even (q / 2 powi ulp_exp q)" by (rule round_half_even_ge)
  obtain v where v: "rnd q = Fin v" using rnd_upper [OF assms(1) less_imp_le [OF q] assms(3)] by auto
  then have "v = of_int (round_half_even (q / 2 powi ulp_exp q)) * 2 powi ulp_exp q"
    using q by (auto simp: rnd_def Let_def split: if_splits)
  with r v show ?thesis by simp
qed

lemma rnd_exact: "representable q \<Longrightarrow> rnd q = Fin q"
proof (cases "q = 0")
  case False
  assume q: "representable q"
  obtain k where k: "q = of_int k * 2 powi ulp_exp q"
    using representable_on_grid [OF q False] by auto
  then have "q / 2 powi ulp_exp q = of_int k"
    by (metis nonzero_mult_div_cancel_right power_int_not_zero zero_neq_numeral)
  then have "of_int (round_half_even (q / 2 powi ulp_exp q)) * 2 powi ulp_exp q = q"
    using k by simp
  with q False show ?thesis
    by (simp add: rnd_def Let_def representable_def abs_less_iff not_le)
qed (simp add: rnd_def)

lemma representable_scaled:
  "\<bar>n\<bar> < 2 ^ 53 \<Longrightarrow> representable (of_int n / 2 ^ k)" if "k \<le> 1074" for n k
proof -
  assume n: "\<bar>n\<bar> < 2 ^ 53"
  have "\<bar>of_int n / 2 ^ k\<bar> \<le> (\<bar>of_int n\<bar> :: rat)"
    by (simp add: divide_le_eq mult_le_cancel_left1)
  also have "\<dots> = of_int \<bar>n\<bar>" by simp
  also have "\<dots> < of_int (2 ^ 53)" using n by (simp only: of_int_less_iff)
  also have "\<dots> \<le> 2 ^ 1024" by simp
  finally have "\<bar>of_int n / 2 ^ k\<bar> < (2 ^ 1024 :: rat)" .
  moreover have "(of_int n / 2 ^ k :: rat) = of_int n * 2 powi (- int k)"
    by (simp add: power_int_minus divide_inverse)
  ultimately show ?thesis
    using n that unfolding representable_def by (metis neg_le_iff_le of_nat_le_iff of_nat_numeral)
qed

section \<open>Operations\<close>

fun isfinite :: "double \<Rightarrow> bool" where
  "isfinite (Fin q) = True"
| "isfinite _ = False"

fun dless :: "double \<Rightarrow> double \<Rightarrow> bool" where
  "dless (Fin a) (Fin b) = (a < b)"
| "dless NInf (Fin b) = True"
| "dless NInf PInf = True"
| "dless (Fin a) PInf = True"
| "dless _ _ = False"

definition dle :: "double \<Rightarrow> double \<Rightarrow> bool" where
  "dle a b = (a \<noteq> NaN \<and> b \<noteq> NaN \<and> \<not> dless b a)"

text \<open>\<^verbatim>\<open>std::max(a, b)\<close> is \<open>a < b ? b : a\<close> and \<^verbatim>\<open>std::min(a, b)\<close> is \<open>b < a ? b : a\<close>.\<close>

definition dmax :: "double \<Rightarrow> double \<Rightarrow> double" where
  "dmax a b = (if dless a b then b else a)"

definition dmin :: "double \<Rightarrow> double \<Rightarrow> double" where
  "dmin a b = (if dless b a then b else a)"

fun dabs :: "double \<Rightarrow> double" where
  "dabs (Fin a) = Fin \<bar>a\<bar>"
| "dabs NInf = PInf"
| "dabs x = x"

fun dneg :: "double \<Rightarrow> double" where
  "dneg (Fin a) = Fin (- a)"
| "dneg PInf = NInf"
| "dneg NInf = PInf"
| "dneg NaN = NaN"

fun dadd :: "double \<Rightarrow> double \<Rightarrow> double" where
  "dadd (Fin a) (Fin b) = rnd (a + b)"
| "dadd NaN _ = NaN"
| "dadd _ NaN = NaN"
| "dadd PInf NInf = NaN"
| "dadd NInf PInf = NaN"
| "dadd PInf _ = PInf"
| "dadd NInf _ = NInf"
| "dadd (Fin _) b = b"

definition dsub :: "double \<Rightarrow> double \<Rightarrow> double" where
  "dsub a b = dadd a (dneg b)"

text \<open>
  Products and quotients of infinities follow the signs. A quotient by zero is left as NaN: the
  divisors in the program are the constants 0.20, 8.0 and 0.15 and \<open>max(x, 5.0)\<close>.
\<close>

fun dsign :: "double \<Rightarrow> int" where
  "dsign (Fin a) = (if 0 < a then 1 else if a < 0 then -1 else 0)"
| "dsign PInf = 1"
| "dsign NInf = -1"
| "dsign NaN = 0"

definition dinf :: "int \<Rightarrow> double" where
  "dinf s = (if 0 < s then PInf else if s < 0 then NInf else NaN)"

definition dmul :: "double \<Rightarrow> double \<Rightarrow> double" where
  "dmul x y = (case (x, y) of (Fin a, Fin b) \<Rightarrow> rnd (a * b) | _ \<Rightarrow> dinf (dsign x * dsign y))"

definition ddiv :: "double \<Rightarrow> double \<Rightarrow> double" where
  "ddiv x y =
     (case (x, y) of
        (Fin a, Fin b) \<Rightarrow> (if b = 0 then NaN else rnd (a / b))
      | (Fin a, NaN) \<Rightarrow> NaN
      | (Fin a, _) \<Rightarrow> Fin 0
      | (_, Fin b) \<Rightarrow> dinf (dsign x * dsign y)
      | _ \<Rightarrow> NaN)"

fun dfloor :: "double \<Rightarrow> double" where
  "dfloor (Fin a) = Fin (of_int \<lfloor>a\<rfloor>)"
| "dfloor x = x"

fun dceil :: "double \<Rightarrow> double" where
  "dceil (Fin a) = Fin (of_int \<lceil>a\<rceil>)"
| "dceil x = x"

text \<open>
  \<^verbatim>\<open>static_cast<int>(x)\<close> truncates; it is defined only when the truncated value fits \<^verbatim>\<open>int\<close>, so the
  conversion is \<open>None\<close> (undefined behaviour) elsewhere.
\<close>

fun cast_int :: "double \<Rightarrow> int option" where
  "cast_int (Fin a) =
     (let t = (if 0 \<le> a then \<lfloor>a\<rfloor> else \<lceil>a\<rceil>)
      in if - (2 ^ 31) \<le> t \<and> t < 2 ^ 31 then Some t else None)"
| "cast_int _ = None"

lemma isfinite_iff: "isfinite x \<longleftrightarrow> (\<exists>a. x = Fin a)"
  by (cases x) auto

end
