(* ===== verification/Json.thy ===== *)
theory Json
  imports Binary64
begin

unbundle bit_operations_syntax

text \<open>
  \<^verbatim>\<open>src/runtime/json.cpp\<close> and its header: the JSON value type, its throwing accessors, UTF-8
  validation and encoding, the recursive-descent parser, string quoting, and the syntactic tests for
  UUIDs and SHA-256 digests. The parser's position into the text is modelled by the remaining text.
  The recursion of \<open>item\<close> is bounded by fuel; \<open>parse_json_error\<close> shows that the bound chosen by
  \<open>parse_json\<close> is never reached.
\<close>

section \<open>Masks\<close>

lemma and_low_bits:
  "(n :: nat) AND 15 = n mod 16" "n AND 63 = n mod 64"
proof -
  have "(15 :: nat) = mask 4" "(63 :: nat) = mask 6"
    by (simp_all add: mask_eq_exp_minus_1)
  then show "n AND 15 = n mod 16" "n AND 63 = n mod 64"
    by (simp_all only: take_bit_eq_mask [symmetric] take_bit_eq_mod) simp_all
qed

section \<open>Values and accessors\<close>

datatype json =
    JNull
  | JBool bool
  | JInt int
  | JDouble double
  | JString string
  | JObject "(string, json) dict"
  | JArray "json list"

definition invalid :: "'a result" where
  "invalid = Inl (InvalidArgument ''INVALID_JSON'')"

fun json_object :: "json \<Rightarrow> (string, json) dict result" where
  "json_object (JObject m) = Inr m"
| "json_object _ = Inl BadVariantAccess"

fun json_array :: "json \<Rightarrow> json list result" where
  "json_array (JArray xs) = Inr xs"
| "json_array _ = Inl BadVariantAccess"

fun json_string :: "json \<Rightarrow> string result" where
  "json_string (JString s) = Inr s"
| "json_string _ = Inl BadVariantAccess"

fun json_integer :: "json \<Rightarrow> int result" where
  "json_integer (JInt n) = Inr n"
| "json_integer _ = Inl BadVariantAccess"

fun json_boolean :: "json \<Rightarrow> bool result" where
  "json_boolean (JBool b) = Inr b"
| "json_boolean _ = Inl BadVariantAccess"

definition dict_at :: "(string, json) dict \<Rightarrow> string \<Rightarrow> json result" where
  "dict_at m k = (case dict_get m k of None \<Rightarrow> Inl OutOfRange | Some v \<Rightarrow> Inr v)"

definition json_at :: "json \<Rightarrow> string \<Rightarrow> json result" where
  "json_at j k = ebind (json_object j) (\<lambda>m. dict_at m k)"

text \<open>The combinations \<^verbatim>\<open>j.at(k).string()\<close>, \<^verbatim>\<open>j.at(k).integer()\<close> and \<^verbatim>\<open>j.at(k).boolean()\<close>.\<close>

definition at_string :: "json \<Rightarrow> string \<Rightarrow> string result" where
  "at_string j k = ebind (json_at j k) json_string"

definition at_integer :: "json \<Rightarrow> string \<Rightarrow> int result" where
  "at_integer j k = ebind (json_at j k) json_integer"

definition at_boolean :: "json \<Rightarrow> string \<Rightarrow> bool result" where
  "at_boolean j k = ebind (json_at j k) json_boolean"

definition is_null :: "json \<Rightarrow> bool" where
  "is_null j = (j = JNull)"

section \<open>UTF-8\<close>

definition utf8 :: "nat \<Rightarrow> string" where
  "utf8 code =
     (if code < 0x80 then [chr code]
      else if code < 0x800 then
        [chr (0xc0 OR drop_bit 6 code), chr (0x80 OR (code AND 63))]
      else if code < 0x10000 then
        [chr (0xe0 OR drop_bit 12 code), chr (0x80 OR (drop_bit 6 code AND 63)),
         chr (0x80 OR (code AND 63))]
      else
        [chr (0xf0 OR drop_bit 18 code), chr (0x80 OR (drop_bit 12 code AND 63)),
         chr (0x80 OR (drop_bit 6 code AND 63)), chr (0x80 OR (code AND 63))])"

definition utf8_width :: "nat \<Rightarrow> nat" where
  "utf8_width c =
     (if 0xc2 \<le> c \<and> c \<le> 0xdf then 1 else if 0xe0 \<le> c \<and> c \<le> 0xef then 2
      else if 0xf0 \<le> c \<and> c \<le> 0xf4 then 3 else 9)"

fun utf8_tail :: "nat \<Rightarrow> string \<Rightarrow> nat result" where
  "utf8_tail cp [] = Inr cp"
| "utf8_tail cp (p # ps) =
     (if byte p AND 0xc0 \<noteq> 0x80 then invalid
      else utf8_tail (push_bit 6 cp OR (byte p AND 63)) ps)"

definition utf8_scalar :: "nat \<Rightarrow> nat \<Rightarrow> bool" where
  "utf8_scalar n cp =
     (\<not> (cp < (if n = 1 then 128 else if n = 2 then 2048 else 65536) \<or> cp > 0x10ffff \<or>
         (cp \<ge> 0xd800 \<and> cp \<le> 0xdfff)))"

function validate_utf8 :: "string \<Rightarrow> unit result" where
  "validate_utf8 [] = Inr ()"
| "validate_utf8 (b # r) =
     (let c = byte b; n = utf8_width c in
      if c < 128 then validate_utf8 r
      else if n = 9 \<or> n > length r then invalid
      else ebind (utf8_tail (c AND (push_bit (6 - n) 1 - 1)) (take n r)) (\<lambda>cp.
           if utf8_scalar n cp then validate_utf8 (drop n r) else invalid))"
  by pat_completeness auto
termination
  by (relation "measure length") auto

section \<open>The parser\<close>

definition is_space :: "char \<Rightarrow> bool" where
  "is_space c = (byte c = 32 \<or> byte c = 10 \<or> byte c = 9 \<or> byte c = 13)"

definition space :: "string \<Rightarrow> string" where
  "space s = dropWhile is_space s"

text \<open>\<^verbatim>\<open>take(c)\<close> skips white space even when it then finds another character.\<close>

definition take_char :: "char \<Rightarrow> string \<Rightarrow> bool \<times> string" where
  "take_char c s =
     (case space s of [] \<Rightarrow> (False, []) | d # r \<Rightarrow> if d = c then (True, r) else (False, d # r))"

definition require :: "char \<Rightarrow> string \<Rightarrow> string result" where
  "require c s = (case take_char c s of (True, r) \<Rightarrow> Inr r | (False, _) \<Rightarrow> invalid)"

definition hex_nibble :: "char \<Rightarrow> nat" where
  "hex_nibble c =
     (if is_digit c then byte c - 48
      else if 97 \<le> byte c \<and> byte c \<le> 102 then byte c - 97 + 10
      else if 65 \<le> byte c \<and> byte c \<le> 70 then byte c - 65 + 10
      else 16)"

fun hex_loop :: "nat \<Rightarrow> nat \<Rightarrow> string \<Rightarrow> (nat \<times> string) result" where
  "hex_loop 0 out s = Inr (out, s)"
| "hex_loop (Suc i) out [] = invalid"
| "hex_loop (Suc i) out (c # s) =
     (if hex_nibble c = 16 then invalid else hex_loop i (out * 16 + hex_nibble c) s)"

definition hex4 :: "string \<Rightarrow> (nat \<times> string) result" where
  "hex4 s = hex_loop 4 0 s"

text \<open>The escape after \<^verbatim>\<open>\u\<close>: one code unit, or a surrogate pair written as two escapes.\<close>

definition unicode_escape :: "string \<Rightarrow> (nat \<times> string) result" where
  "unicode_escape s =
     ebind (hex4 s) (\<lambda>(code, r).
       if 0xd800 \<le> code \<and> code \<le> 0xdbff then
         (case strip (CHR 0x5C # ''u'') r of
            None \<Rightarrow> invalid
          | Some r' \<Rightarrow> ebind (hex4 r') (\<lambda>(low, r'').
              if low < 0xdc00 \<or> low > 0xdfff then invalid
              else Inr (0x10000 + push_bit 10 (code - 0xd800) + low - 0xdc00, r'')))
       else if 0xdc00 \<le> code \<and> code \<le> 0xdfff then invalid
       else Inr (code, r))"

lemma hex_loop_length: "hex_loop i out s = Inr (n, r) \<Longrightarrow> length r \<le> length s"
  by (induction i out s rule: hex_loop.induct) (auto simp: invalid_def split: if_splits)

lemma unicode_escape_length [termination_simp]:
  "unicode_escape s = Inr (n, r) \<Longrightarrow> length r \<le> length s"
  by (auto simp: unicode_escape_def hex4_def invalid_def strip_Some result_simps
      split: if_splits option.splits dest!: hex_loop_length)

definition simple_escape :: "char \<Rightarrow> char option" where
  "simple_escape c =
     (if byte c = 34 then Some (chr 34) else if byte c = 92 then Some (chr 92)
      else if byte c = 47 then Some (chr 47) else if byte c = 98 then Some (chr 8)
      else if byte c = 102 then Some (chr 12) else if byte c = 110 then Some (chr 10)
      else if byte c = 114 then Some (chr 13) else if byte c = 116 then Some (chr 9)
      else None)"

function string_loop :: "string \<Rightarrow> string \<Rightarrow> (string \<times> string) result" where
  "string_loop out [] = invalid"
| "string_loop out (c # r) =
     (if byte c = 34 then ebind (validate_utf8 out) (\<lambda>_. Inr (out, r))
      else if byte c < 32 then invalid
      else if byte c \<noteq> 92 then string_loop (out @ [c]) r
      else case r of [] \<Rightarrow> invalid
           | e # r' \<Rightarrow>
               if byte e = 117 then
                 ebind (unicode_escape r') (\<lambda>(code, r''). string_loop (out @ utf8 code) r'')
               else case simple_escape e of
                      None \<Rightarrow> invalid
                    | Some d \<Rightarrow> string_loop (out @ [d]) r')"
  by pat_completeness auto
termination
  by (relation "measure (\<lambda>(out, s). length s)") (auto dest!: unicode_escape_length)

definition parse_string :: "string \<Rightarrow> (string \<times> string) result" where
  "parse_string s = ebind (require (CHR 0x22) s) (\<lambda>r. string_loop [] r)"

text \<open>Numbers: the text scanned between \<open>start\<close> and \<open>pos\<close>, split into its parts.\<close>

definition digits_value :: "string \<Rightarrow> nat" where
  "digits_value ds = foldl (\<lambda>n c. 10 * n + (byte c - 48)) 0 ds"

definition integer_part :: "string \<Rightarrow> (string \<times> string) result" where
  "integer_part s =
     (case s of [] \<Rightarrow> invalid
      | c # r \<Rightarrow> if byte c = 48 then Inr ([c], r)
                 else if byte c < 49 \<or> byte c > 57 then invalid
                 else Inr (takeWhile is_digit s, dropWhile is_digit s))"

definition fraction_part :: "string \<Rightarrow> (string option \<times> string) result" where
  "fraction_part s =
     (case s of [] \<Rightarrow> Inr (None, s)
      | c # r \<Rightarrow> if byte c \<noteq> 46 then Inr (None, s)
                 else if takeWhile is_digit r = [] then invalid
                 else Inr (Some (takeWhile is_digit r), dropWhile is_digit r))"

definition exponent_part :: "string \<Rightarrow> (int option \<times> string) result" where
  "exponent_part s =
     (case s of [] \<Rightarrow> Inr (None, s)
      | c # r \<Rightarrow> if byte c \<noteq> 101 \<and> byte c \<noteq> 69 then Inr (None, s)
                 else let (neg, r') = (case r of [] \<Rightarrow> (False, r)
                             | d # r' \<Rightarrow> if byte d = 43 then (False, r')
                                          else if byte d = 45 then (True, r') else (False, r));
                          ds = takeWhile is_digit r'; v = int (digits_value ds)
                      in if ds = [] then invalid
                         else Inr (Some (if neg then - v else v), dropWhile is_digit r'))"

text \<open>
  \<^verbatim>\<open>std::from_chars\<close>. For \<^verbatim>\<open>std::int64_t\<close> a value outside the type is an error. For \<^verbatim>\<open>double\<close> the
  decimal value is rounded once; overflow and underflow to zero are out of range.
\<close>

definition from_chars_int64 :: "bool \<Rightarrow> string \<Rightarrow> int result" where
  "from_chars_int64 neg ds =
     (let v = (if neg then - int (digits_value ds) else int (digits_value ds))
      in if - (2 ^ 63) \<le> v \<and> v < 2 ^ 63 then Inr v else invalid)"

definition from_chars_double :: "bool \<Rightarrow> string \<Rightarrow> string \<Rightarrow> int \<Rightarrow> double result" where
  "from_chars_double neg ip fp ex =
     (let m = of_nat (digits_value (ip @ fp)) * 10 powi (ex - int (length fp));
          q = (if neg then - m else m) :: rat
      in if isfinite (rnd q) \<and> \<not> (q \<noteq> 0 \<and> rnd q = Fin 0) then Inr (rnd q) else invalid)"

definition parse_number :: "string \<Rightarrow> (json \<times> string) result" where
  "parse_number s =
     (let (neg, s0) = (case s of [] \<Rightarrow> (False, s) | c # r \<Rightarrow> if byte c = 45 then (True, r) else (False, s))
      in ebind (integer_part s0) (\<lambda>(ip, s1).
         ebind (fraction_part s1) (\<lambda>(fp, s2).
         ebind (exponent_part s2) (\<lambda>(ex, s3).
           if fp = None \<and> ex = None
           then ebind (from_chars_int64 neg ip) (\<lambda>v. Inr (JInt v, s3))
           else ebind (from_chars_double neg ip (case fp of None \<Rightarrow> [] | Some f \<Rightarrow> f)
                                                  (case ex of None \<Rightarrow> 0 | Some e \<Rightarrow> e))
                  (\<lambda>v. Inr (JDouble v, s3))))))"

text \<open>Everything that is neither a string, an object nor an array.\<close>

definition parse_scalar :: "string \<Rightarrow> (json \<times> string) result" where
  "parse_scalar s =
     (case strip ''true'' s of Some r \<Rightarrow> Inr (JBool True, r)
      | None \<Rightarrow> (case strip ''false'' s of Some r \<Rightarrow> Inr (JBool False, r)
      | None \<Rightarrow> (case strip ''null'' s of Some r \<Rightarrow> Inr (JNull, r)
      | None \<Rightarrow> parse_number s)))"

text \<open>
  \<open>item\<close> is one call of \<^verbatim>\<open>Parser::item\<close>; \<open>members\<close> and \<open>elements\<close> are the bodies of its two
  do-while loops, with the object or array built so far. Each call spends one unit of fuel.
\<close>

fun item :: "nat \<Rightarrow> nat \<Rightarrow> string \<Rightarrow> (json \<times> string) result"
and members :: "nat \<Rightarrow> nat \<Rightarrow> (string, json) dict \<Rightarrow> string \<Rightarrow> (json \<times> string) result"
and elements :: "nat \<Rightarrow> nat \<Rightarrow> json list \<Rightarrow> string \<Rightarrow> (json \<times> string) result" where
  "item 0 depth s = Inl OutOfFuel"
| "item (Suc fuel) depth s =
     (if depth > 24 then invalid
      else case space s of [] \<Rightarrow> invalid
      | c # r \<Rightarrow>
          if byte c = 34 then ebind (parse_string (c # r)) (\<lambda>(str, r'). Inr (JString str, r'))
          else if byte c = 123 then
            (case take_char (CHR ''}'') r of (True, r') \<Rightarrow> Inr (JObject [], r')
             | (False, r') \<Rightarrow> members fuel depth [] r')
          else if byte c = 91 then
            (case take_char (CHR '']'') r of (True, r') \<Rightarrow> Inr (JArray [], r')
             | (False, r') \<Rightarrow> elements fuel depth [] r')
          else parse_scalar (c # r))"
| "members 0 depth obj s = Inl OutOfFuel"
| "members (Suc fuel) depth obj s =
     ebind (parse_string s) (\<lambda>(key, s1).
     ebind (require (CHR '':'') s1) (\<lambda>s2.
     ebind (item fuel (depth + 1) s2) (\<lambda>(v, s3).
       if dict_has obj key then invalid
       else case take_char (CHR '','') s3 of
              (True, s4) \<Rightarrow> members fuel depth (dict_set key v obj) s4
            | (False, s4) \<Rightarrow> ebind (require (CHR ''}'') s4) (\<lambda>s5.
                Inr (JObject (dict_set key v obj), s5)))))"
| "elements 0 depth arr s = Inl OutOfFuel"
| "elements (Suc fuel) depth arr s =
     ebind (item fuel (depth + 1) s) (\<lambda>(v, s1).
       case take_char (CHR '','') s1 of
         (True, s2) \<Rightarrow> elements fuel depth (arr @ [v]) s2
       | (False, s2) \<Rightarrow> ebind (require (CHR '']'') s2) (\<lambda>s3. Inr (JArray (arr @ [v]), s3)))"

definition json_fuel :: "string \<Rightarrow> nat" where
  "json_fuel s = 2 * length s + 2"

definition parse_json :: "string \<Rightarrow> nat \<Rightarrow> json result" where
  "parse_json text limit =
     (if length text > limit then invalid
      else ebind (item (json_fuel text) 0 text) (\<lambda>(v, r). if space r \<noteq> [] then invalid else Inr v))"

section \<open>Quoting and syntactic tests\<close>

definition quote_char :: "char \<Rightarrow> string" where
  "quote_char c =
     (if byte c = 34 \<or> byte c = 92 then [chr 92, c]
      else if byte c = 8 then [chr 92, CHR ''b'']
      else if byte c = 9 then [chr 92, CHR ''t'']
      else if byte c = 10 then [chr 92, CHR ''n'']
      else if byte c = 12 then [chr 92, CHR ''f'']
      else if byte c = 13 then [chr 92, CHR ''r'']
      else if byte c < 32 then
        chr 92 # ''u00'' @ [hex_digit (drop_bit 4 (byte c)), hex_digit (byte c AND 15)]
      else [c])"

definition quote_json :: "string \<Rightarrow> string result" where
  "quote_json s =
     ebind (validate_utf8 s) (\<lambda>_. Inr (chr 34 # concat (map quote_char s) @ [chr 34]))"

definition is_sha256 :: "string \<Rightarrow> bool" where
  "is_sha256 s = (length s = 64 \<and> list_all is_lower_hex s)"

definition uuid_char :: "nat \<Rightarrow> char \<Rightarrow> bool" where
  "uuid_char i c =
     (if i = 8 \<or> i = 13 \<or> i = 18 \<or> i = 23 then byte c = 45
      else is_digit c \<or> 97 \<le> byte c \<and> byte c \<le> 102 \<or> 65 \<le> byte c \<and> byte c \<le> 70)"

definition is_uuid :: "string \<Rightarrow> bool" where
  "is_uuid s = (length s = 36 \<and> (\<forall>i<36. uuid_char i (s ! i)))"

section \<open>Progress of the parser\<close>

named_theorems consume \<open>length of the remaining text\<close>

lemma space_length: "length (space s) \<le> length s"
  by (simp add: space_def length_dropWhile_le)

lemma space_stop [simp]: "s = [] \<or> \<not> is_space (hd s) \<Longrightarrow> space s = s"
  by (cases s) (auto simp: space_def)

lemma take_char_length: "take_char c s = (b, r) \<Longrightarrow> length r \<le> length s \<and> (b \<longrightarrow> length r < length s)"
  using space_length [of s] by (auto simp: take_char_def less_Suc_eq_le split: list.splits if_splits dest: sym)

lemma require_length [consume]: "require c s = Inr r \<Longrightarrow> length r < length s"
  by (auto simp: require_def invalid_def split: prod.splits bool.splits dest: take_char_length)

lemma string_loop_length [consume]: "string_loop out s = Inr (x, r) \<Longrightarrow> length r < length s"
proof (induction s arbitrary: out rule: length_induct)
  case (1 s)
  have IH: "length r < length s" if "string_loop o' t = Inr (x, r)" "length t < length s" for t o'
    using 1(1) that by (meson less_trans)
  show ?case
  proof (cases s)
    case (Cons a' t)
    note a = Cons
    show ?thesis
    proof (cases t)
      case Nil
      with 1(2) a show ?thesis
        by (auto simp: invalid_def result_simps split: if_splits)
    next
      case (Cons b u)
      from 1(2) [unfolded a Cons string_loop.simps(2) [of out a' "b # u"]] show ?thesis unfolding a Cons
        by (auto simp: invalid_def result_simps simp del: string_loop.simps split: if_splits option.splits
            dest!: unicode_escape_length intro: IH [unfolded a Cons, simplified])
    qed
  qed (use 1(2) in \<open>simp add: invalid_def\<close>)
qed

lemma parse_string_length [consume]: "parse_string s = Inr (x, r) \<Longrightarrow> length r < length s"
  by (auto simp: parse_string_def result_simps dest!: require_length string_loop_length)

lemma dropWhile_digit_length: "is_digit c \<Longrightarrow> length (dropWhile is_digit (c # r)) < length (c # r)"
  by (simp add: le_imp_less_Suc length_dropWhile_le)

lemma parse_number_length [consume]: "parse_number s = Inr (x, r) \<Longrightarrow> length r < length s"
proof -
  assume a: "parse_number s = Inr (x, r)"
  have ip: "integer_part t = Inr (d, u) \<Longrightarrow> length u < length t" for t d u
    by (auto simp: integer_part_def invalid_def is_digit_def le_imp_less_Suc length_dropWhile_le
        split: list.splits if_splits)
  have fp: "fraction_part t = Inr (d, u) \<Longrightarrow> length u \<le> length t" for t d u
    by (auto simp: fraction_part_def invalid_def le_SucI length_dropWhile_le
        split: list.splits if_splits)
  have ep: "exponent_part t = Inr (d, u) \<Longrightarrow> length u \<le> length t" for t d u
    by (auto simp: exponent_part_def invalid_def Let_def le_SucI length_dropWhile_le
        split: list.splits if_splits prod.splits)
  from a show ?thesis
    by (auto simp: parse_number_def Let_def result_simps split: list.splits if_splits prod.splits
        dest!: ip fp ep)
qed

lemma parse_scalar_length [consume]: "parse_scalar s = Inr (x, r) \<Longrightarrow> length r < length s"
  by (auto simp: parse_scalar_def strip_Some split: option.splits dest: parse_number_length)

lemma item_length_all:
  "(\<forall>d s v r. item f d s = Inr (v, r) \<longrightarrow> length r < length s) \<and>
   (\<forall>d obj s v r. members f d obj s = Inr (v, r) \<longrightarrow> length r < length s) \<and>
   (\<forall>d arr s v r. elements f d arr s = Inr (v, r) \<longrightarrow> length r < length s)"
proof (induction f)
  case (Suc f)
  then have I: "\<And>d s v r. item f d s = Inr (v, r) \<Longrightarrow> length r < length s"
    and M: "\<And>d obj s v r. members f d obj s = Inr (v, r) \<Longrightarrow> length r < length s"
    and E: "\<And>d arr s v r. elements f d arr s = Inr (v, r) \<Longrightarrow> length r < length s"
    by blast+
  have "length r < length s" if a: "item (Suc f) d s = Inr (v, r)" for d s v r
  proof -
    obtain c t where ct: "space s = c # t" and len: "Suc (length t) \<le> length s"
      using a space_length [of s] by (cases "space s") (auto simp: invalid_def split: if_splits)
    from a ct have "length r < length (c # t)"
      by (auto simp: invalid_def result_simps less_Suc_eq_le split: if_splits prod.splits bool.splits
          dest!: parse_string_length parse_scalar_length take_char_length M E)
    with len show ?thesis by simp
  qed
  moreover have "length r < length s" if "members (Suc f) d obj s = Inr (v, r)" for d obj s v r
    using that by (auto simp: invalid_def result_simps split: if_splits prod.splits bool.splits
        dest!: parse_string_length require_length take_char_length I M)
  moreover have "length r < length s" if e: "elements (Suc f) d arr s = Inr (v, r)" for d arr s v r
  proof -
    obtain x s1 where i: "item f (Suc d) s = Inr (x, s1)"
      using e by (cases "item f (Suc d) s") auto
    obtain b s2 where t: "take_char (CHR '','') s1 = (b, s2)" by fastforce
    show ?thesis
      using e i t I [OF i] take_char_length [OF t]
      by (cases b) (auto simp: result_simps dest!: E require_length)
  qed
  ultimately show ?case by blast
qed simp

lemma item_length: "item f d s = Inr (v, r) \<Longrightarrow> length r < length s"
  using item_length_all by blast

section \<open>The only exception of the parser\<close>

abbreviation INVALID_JSON :: exn where
  "INVALID_JSON \<equiv> InvalidArgument ''INVALID_JSON''"

lemma utf8_tail_error: "utf8_tail cp s = Inl e \<Longrightarrow> e = INVALID_JSON"
  by (induction cp s rule: utf8_tail.induct) (auto simp: invalid_def split: if_splits)

lemma validate_utf8_error: "validate_utf8 s = Inl e \<Longrightarrow> e = INVALID_JSON"
  by (induction s rule: validate_utf8.induct)
     (auto simp: invalid_def Let_def result_simps split: if_splits dest: utf8_tail_error)

lemma hex_loop_error: "hex_loop i out s = Inl e \<Longrightarrow> e = INVALID_JSON"
  by (induction i out s rule: hex_loop.induct) (auto simp: invalid_def split: if_splits)

lemma unicode_escape_error: "unicode_escape s = Inl e \<Longrightarrow> e = INVALID_JSON"
  by (auto simp: unicode_escape_def hex4_def invalid_def result_simps
      split: if_splits option.splits prod.splits dest: hex_loop_error)

lemma string_loop_error: "string_loop out s = Inl e \<Longrightarrow> e = INVALID_JSON"
proof (induction out s rule: string_loop.induct)
  case (2 out c r)
  from 2(4) show ?case
    by (auto simp: invalid_def result_simps split: if_splits list.splits option.splits
        dest: validate_utf8_error unicode_escape_error intro: 2(1-3))
qed (simp add: invalid_def)

lemma require_error: "require c s = Inl e \<Longrightarrow> e = INVALID_JSON"
  by (auto simp: require_def invalid_def split: prod.splits bool.splits)

lemma parse_string_error: "parse_string s = Inl e \<Longrightarrow> e = INVALID_JSON"
  by (auto simp: parse_string_def result_simps dest: require_error string_loop_error)

lemma number_part_errors:
  "integer_part s = Inl e \<Longrightarrow> e = INVALID_JSON"
  "fraction_part s = Inl e \<Longrightarrow> e = INVALID_JSON"
  "exponent_part s = Inl e \<Longrightarrow> e = INVALID_JSON"
  "from_chars_int64 neg ip = Inl e \<Longrightarrow> e = INVALID_JSON"
  "from_chars_double neg ip fp ex = Inl e \<Longrightarrow> e = INVALID_JSON"
  by (simp_all add: integer_part_def fraction_part_def exponent_part_def from_chars_int64_def
      from_chars_double_def invalid_def Let_def split: if_splits list.splits prod.splits)

lemma parse_number_error: "parse_number s = Inl e \<Longrightarrow> e = INVALID_JSON"
  by (auto simp: parse_number_def Let_def result_simps split: if_splits prod.splits
      dest: number_part_errors)

lemma parse_scalar_error: "parse_scalar s = Inl e \<Longrightarrow> e = INVALID_JSON"
  by (auto simp: parse_scalar_def split: option.splits dest: parse_number_error)

lemmas parse_errors = parse_string_error require_error parse_scalar_error

text \<open>
  With fuel above twice the remaining length, a call of the parser ends with a value or with the
  parser's exception; the three lemmas treat one call of each function, given the bound for smaller
  fuel.
\<close>

definition fuel_suffices :: "nat \<Rightarrow> bool" where
  "fuel_suffices f \<longleftrightarrow>
     (\<forall>d s e. item f d s = Inl e \<longrightarrow> 2 * length s + 1 \<le> f \<longrightarrow> e = INVALID_JSON) \<and>
     (\<forall>d obj s e. members f d obj s = Inl e \<longrightarrow> 2 * length s + 1 \<le> f \<longrightarrow> e = INVALID_JSON) \<and>
     (\<forall>d arr s e. elements f d arr s = Inl e \<longrightarrow> 2 * length s + 2 \<le> f \<longrightarrow> e = INVALID_JSON)"

lemma fuel_sufficesD:
  assumes "fuel_suffices f"
  shows "item f d s = Inl e \<Longrightarrow> 2 * length s + 1 \<le> f \<Longrightarrow> e = INVALID_JSON"
    and "members f d obj s = Inl e \<Longrightarrow> 2 * length s + 1 \<le> f \<Longrightarrow> e = INVALID_JSON"
    and "elements f d arr s = Inl e \<Longrightarrow> 2 * length s + 2 \<le> f \<Longrightarrow> e = INVALID_JSON"
  using assms by (auto simp: fuel_suffices_def)

lemma item_step_error:
  assumes f: "fuel_suffices f" and i: "item (Suc f) d s = Inl e" and len: "2 * length s + 1 \<le> Suc f"
  shows "e = INVALID_JSON"
proof (cases "space s")
  case Nil
  with i show ?thesis by (auto simp: invalid_def split: if_splits)
next
  case (Cons c t)
  have t: "Suc (length t) \<le> length s" using space_length [of s] Cons by simp
  obtain b1 r1 b2 r2 where tc: "take_char (CHR ''}'') t = (b1, r1)" "take_char (CHR '']'') t = (b2, r2)"
    by fastforce
  then have "length r1 \<le> length t" "length r2 \<le> length t" by (auto dest: take_char_length)
  with i Cons tc t len show ?thesis
    by (auto simp: invalid_def result_simps split: if_splits bool.splits
        dest: parse_errors intro: fuel_sufficesD [OF f])
qed

lemma members_step_error:
  assumes f: "fuel_suffices f" and m: "members (Suc f) d obj s = Inl e" and len: "2 * length s + 1 \<le> Suc f"
  shows "e = INVALID_JSON"
proof (cases "parse_string s")
  case (Inr p)
  obtain k s1 where p: "p = (k, s1)" by fastforce
  note s1 = parse_string_length [OF Inr [unfolded p]]
  show ?thesis
  proof (cases "require (CHR '':'') s1")
    case req: (Inr s2)
    note s2 = require_length [OF req]
    show ?thesis
    proof (cases "item f (d + 1) s2")
      case it: (Inr q)
      obtain v s3 where q: "q = (v, s3)" by fastforce
      note s3 = item_length [OF it [unfolded q]]
      obtain b s4 where b: "take_char (CHR '','') s3 = (b, s4)" by fastforce
      show ?thesis
        using m Inr p req it q b s1 s2 s3 len take_char_length [OF b]
        by (auto simp: invalid_def result_simps split: if_splits bool.splits
            dest: parse_errors intro: fuel_sufficesD [OF f])
    qed (use m Inr p req s1 s2 len in \<open>auto intro: fuel_sufficesD [OF f]\<close>)
  qed (use m Inr p in \<open>auto dest: parse_errors\<close>)
qed (use m in \<open>auto dest: parse_errors\<close>)

lemma elements_step_error:
  assumes f: "fuel_suffices f" and m: "elements (Suc f) d arr s = Inl e" and len: "2 * length s + 2 \<le> Suc f"
  shows "e = INVALID_JSON"
proof (cases "item f (d + 1) s")
  case it: (Inr q)
  obtain v s1 where q: "q = (v, s1)" by fastforce
  note s1 = item_length [OF it [unfolded q]]
  obtain b s2 where b: "take_char (CHR '','') s1 = (b, s2)" by fastforce
  show ?thesis
    using m it q b s1 len take_char_length [OF b]
    by (auto simp: result_simps split: bool.splits dest: parse_errors intro: fuel_sufficesD [OF f])
qed (use m len in \<open>auto intro: fuel_sufficesD [OF f]\<close>)

lemma fuel_suffices_all: "fuel_suffices f"
proof (induction f)
  case (Suc f)
  then show ?case
    unfolding fuel_suffices_def [of "Suc f"]
    by (blast intro: item_step_error members_step_error elements_step_error)
qed (simp add: fuel_suffices_def)

lemma parse_json_error: "parse_json text limit = Inl e \<Longrightarrow> e = INVALID_JSON"
proof -
  assume p: "parse_json text limit = Inl e"
  have "2 * length text + 1 \<le> json_fuel text" by (simp add: json_fuel_def)
  then have "item (json_fuel text) 0 text = Inl e' \<Longrightarrow> e' = INVALID_JSON" for e'
    using fuel_sufficesD(1) [OF fuel_suffices_all] by blast
  with p show ?thesis
    by (auto simp: parse_json_def invalid_def result_simps split: if_splits)
qed

end
