(* ===== verification/Canonical.thy ===== *)
theory Canonical
  imports Json
begin

unbundle bit_operations_syntax

text \<open>
  The canonical serialization \<^verbatim>\<open>canonical\<close> of \<^verbatim>\<open>src/runtime/protocol.cpp\<close> and its relation to the
  parser: whatever it writes, the parser reads back unchanged. The pair is packaged as a codec
  interface, whose consequences (injectivity, equality of values from equality of texts) are what
  the persistent store and the message envelopes rely on.
\<close>

section \<open>Serialization\<close>

text \<open>\<^verbatim>\<open>std::to_string\<close> of an integer.\<close>

fun show_nat :: "nat \<Rightarrow> string" where
  "show_nat n = (if n < 10 then [chr (48 + n)] else show_nat (n div 10) @ [chr (48 + n mod 10)])"

declare show_nat.simps [simp del]

definition show_int :: "int \<Rightarrow> string" where
  "show_int n = (if n < 0 then CHR ''-'' # show_nat (nat (- n)) else show_nat (nat n))"

definition ascii_key :: "string \<Rightarrow> bool" where
  "ascii_key k = list_all (\<lambda>c. byte c < 128) k"

fun canonical :: "json \<Rightarrow> string result"
and canonical_items :: "string \<Rightarrow> json list \<Rightarrow> string result"
and canonical_fields :: "string \<Rightarrow> (string, json) dict \<Rightarrow> string result" where
  "canonical JNull = Inr ''null''"
| "canonical (JBool b) = Inr (if b then ''true'' else ''false'')"
| "canonical (JInt n) =
     (if n > 9007199254740991 \<or> n < -9007199254740991 then Inl (InvalidArgument ''INTEGER_RANGE'')
      else Inr (show_int n))"
| "canonical (JString s) = quote_json s"
| "canonical (JArray xs) = canonical_items ''['' xs"
| "canonical (JObject m) = canonical_fields ''{'' m"
| "canonical (JDouble d) = Inl (InvalidArgument ''NON_SCHEMA_NUMBER'')"
| "canonical_items acc [] = Inr (acc @ '']'')"
| "canonical_items acc (x # xs) =
     ebind (canonical x) (\<lambda>t. canonical_items ((if length acc > 1 then acc @ '','' else acc) @ t) xs)"
| "canonical_fields acc [] = Inr (acc @ ''}'')"
| "canonical_fields acc ((k, v) # m) =
     (if \<not> ascii_key k then Inl (InvalidArgument ''NON_SCHEMA_KEY'')
      else ebind (quote_json k) (\<lambda>q. ebind (canonical v) (\<lambda>t.
             canonical_fields ((if length acc > 1 then acc @ '','' else acc) @ q @ '':'' @ t) m)))"

section \<open>Shape of the text\<close>

text \<open>
  The loops that add a comma whenever the text so far is longer than its opening bracket produce a
  comma-separated list.
\<close>

fun join :: "string list \<Rightarrow> string" where
  "join [] = []"
| "join (t # ts) = t @ concat (map (\<lambda>u. CHR '','' # u) ts)"

definition field_text :: "string \<times> json \<Rightarrow> string result" where
  "field_text = (\<lambda>(k, v).
     if \<not> ascii_key k then Inl (InvalidArgument ''NON_SCHEMA_KEY'')
     else ebind (quote_json k) (\<lambda>q. emap (\<lambda>t. q @ '':'' @ t) (canonical v)))"

lemma show_nat_nonempty [simp]: "show_nat n \<noteq> []"
  by (subst show_nat.simps) simp

lemma canonical_items_length: "canonical_items acc xs = Inr t \<Longrightarrow> length acc < length t"
proof (induction xs arbitrary: acc)
  case (Cons x xs)
  then show ?case
    by (fastforce simp: result_simps split: if_splits)
qed auto

lemma canonical_fields_length: "canonical_fields acc m = Inr t \<Longrightarrow> length acc < length t"
proof (induction m arbitrary: acc)
  case (Cons e m)
  then show ?case
    by (cases e) (fastforce simp: result_simps split: if_splits)
qed auto

lemma quote_json_nonempty: "quote_json s = Inr t \<Longrightarrow> t \<noteq> []"
  by (auto simp: quote_json_def result_simps)

lemma canonical_nonempty: "canonical j = Inr t \<Longrightarrow> t \<noteq> []"
  by (cases j) (auto simp: show_int_def quote_json_nonempty split: if_splits
      dest: canonical_items_length canonical_fields_length quote_json_nonempty)

lemma canonical_items_tail:
  assumes "length acc > 1"
  shows "canonical_items acc xs =
    emap (\<lambda>ts. acc @ concat (map (\<lambda>u. CHR '','' # u) ts) @ '']'') (emapM canonical xs)"
  using assms
proof (induction xs arbitrary: acc)
  case (Cons x xs)
  have "canonical_items (acc @ CHR '','' # b) xs =
      emap (\<lambda>ts. (acc @ CHR '','' # b) @ concat (map (\<lambda>u. CHR '','' # u) ts) @ '']'') (emapM canonical xs)" for b
    using Cons.prems by (intro Cons.IH) auto
  with Cons.prems show ?case
    by (cases "canonical x") (auto simp: emap_def ebind_def split: sum.splits)
qed simp

lemma canonical_fields_tail:
  assumes "length acc > 1"
  shows "canonical_fields acc m =
    emap (\<lambda>ts. acc @ concat (map (\<lambda>u. CHR '','' # u) ts) @ ''}'') (emapM field_text m)"
  using assms
proof (induction m arbitrary: acc)
  case (Cons e m)
  obtain k v where "e = (k, v)" by fastforce
  moreover have "canonical_fields (acc @ CHR '','' # b) m =
      emap (\<lambda>ts. (acc @ CHR '','' # b) @ concat (map (\<lambda>u. CHR '','' # u) ts) @ ''}'') (emapM field_text m)" for b
    using Cons.prems by (intro Cons.IH) auto
  ultimately show ?case using Cons.prems
    by (cases "quote_json k"; cases "canonical v")
       (auto simp: field_text_def emap_def ebind_def split: sum.splits)
qed simp

lemma canonical_array:
  "canonical (JArray xs) = emap (\<lambda>ts. ''['' @ join ts @ '']'') (emapM canonical xs)"
proof (cases xs)
  case (Cons x ys)
  then show ?thesis
    by (cases "canonical x")
       (auto simp: canonical_items_tail emap_def ebind_def dest: canonical_nonempty split: sum.splits)
qed simp

lemma canonical_object:
  "canonical (JObject m) = emap (\<lambda>ts. ''{'' @ join ts @ ''}'') (emapM field_text m)"
proof (cases m)
  case (Cons e n)
  obtain k v where "e = (k, v)" by fastforce
  with Cons show ?thesis
    by (cases "quote_json k"; cases "canonical v")
       (auto simp: field_text_def canonical_fields_tail emap_def ebind_def split: sum.splits)
qed simp

section \<open>Reading back\<close>

text \<open>Numbers: the text of an integer ends where the next byte cannot continue a number.\<close>

definition num_stop :: "string \<Rightarrow> bool" where
  "num_stop s = (s = [] \<or> \<not> is_digit (hd s) \<and> byte (hd s) \<noteq> 46 \<and> byte (hd s) \<noteq> 101 \<and> byte (hd s) \<noteq> 69)"

lemma show_nat_digits: "list_all is_digit (show_nat n)"
proof (induction n rule: show_nat.induct)
  case (1 n)
  have "is_digit (chr (48 + n mod 10))" by (simp add: is_digit_def)
  with 1 show ?case by (subst show_nat.simps) (auto simp: is_digit_def [of "chr (48 + n)"])
qed

lemma digits_value_snoc: "digits_value (ds @ [c]) = 10 * digits_value ds + (byte c - 48)"
  by (simp add: digits_value_def)

lemma digits_value_show_nat [simp]: "digits_value (show_nat n) = n"
proof (induction n rule: show_nat.induct)
  case (1 n)
  show ?case
  proof (cases "n < 10")
    case True
    then show ?thesis by (subst show_nat.simps) (simp add: digits_value_def)
  next
    case False
    with 1 show ?thesis by (subst show_nat.simps) (simp add: digits_value_snoc)
  qed
qed

lemma show_nat_zero: "show_nat 0 = [chr 48]"
  by (subst show_nat.simps) simp

lemma show_nat_head: "0 < n \<Longrightarrow> 49 \<le> byte (hd (show_nat n)) \<and> byte (hd (show_nat n)) \<le> 57"
proof (induction n rule: show_nat.induct)
  case (1 n)
  show ?case
  proof (cases "n < 10")
    case True
    with 1(2) show ?thesis by (subst (1 2) show_nat.simps) simp
  next
    case False
    with 1(1) show ?thesis by (subst (1 2) show_nat.simps) simp
  qed
qed

lemma span_digits:
  assumes "list_all is_digit ds" "num_stop r"
  shows "takeWhile is_digit (ds @ r) = ds" "dropWhile is_digit (ds @ r) = r"
  using assms by (induction ds) (cases r; auto simp: num_stop_def)+

lemma integer_part_show_nat: "num_stop r \<Longrightarrow> integer_part (show_nat n @ r) = Inr (show_nat n, r)"
proof (cases "n = 0")
  case False
  assume r: "num_stop r"
  obtain c t where ct: "show_nat n = c # t" using show_nat_nonempty [of n] by (cases "show_nat n") auto
  moreover have "49 \<le> byte c" "byte c \<le> 57" using show_nat_head [of n] False ct by auto
  ultimately show ?thesis
    using span_digits [OF show_nat_digits r, of n] by (auto simp: integer_part_def)
qed (simp add: show_nat_zero integer_part_def)

lemma show_nat_hd_digit: "is_digit (hd (show_nat n))"
  using show_nat_digits [of n] show_nat_nonempty [of n] by (cases "show_nat n") auto

lemma parse_number_show_int:
  assumes r: "num_stop r" and n: "\<bar>n\<bar> \<le> 9007199254740991"
  shows "parse_number (show_int n @ r) = Inr (JInt n, r)"
proof -
  have "fraction_part r = Inr (None, r)" "exponent_part r = Inr (None, r)"
    using r by (auto simp: fraction_part_def exponent_part_def num_stop_def split: list.splits)
  moreover have "from_chars_int64 (n < 0) (show_nat (nat \<bar>n\<bar>)) = Inr n"
    using n by (auto simp: from_chars_int64_def Let_def)
  moreover obtain c t where ct: "show_nat (nat \<bar>n\<bar>) = c # t" "byte c \<noteq> 45"
    using show_nat_hd_digit [of "nat \<bar>n\<bar>"] show_nat_nonempty [of "nat \<bar>n\<bar>"]
    by (cases "show_nat (nat \<bar>n\<bar>)") (auto simp: is_digit_def)
  moreover have "byte (CHR ''-'') = 45" by code_simp
  ultimately show ?thesis
    using integer_part_show_nat [OF r, of "nat \<bar>n\<bar>"]
    by (cases "n < 0") (auto simp: parse_number_def show_int_def)
qed

text \<open>Strings: every quoted character is read back as itself.\<close>

lemma hex_nibble_hex_digit [simp]: "n < 16 \<Longrightarrow> hex_nibble (hex_digit n) = n"
  by (auto simp: hex_nibble_def is_digit_def byte_hex_digit)

lemma hex4_Cons:
  "hex_nibble a < 16 \<Longrightarrow> hex_nibble b < 16 \<Longrightarrow> hex_nibble c < 16 \<Longrightarrow> hex_nibble d < 16 \<Longrightarrow>
   hex4 (a # b # c # d # r) =
     Inr (((hex_nibble a * 16 + hex_nibble b) * 16 + hex_nibble c) * 16 + hex_nibble d, r)"
proof -
  have "(4 :: nat) = Suc (Suc (Suc (Suc 0)))" by simp
  then show "hex_nibble a < 16 \<Longrightarrow> hex_nibble b < 16 \<Longrightarrow> hex_nibble c < 16 \<Longrightarrow> hex_nibble d < 16 \<Longrightarrow> ?thesis"
    by (simp only: hex4_def) simp
qed

lemma unicode_escape_control:
  assumes "byte c < 32"
  shows "unicode_escape (CHR ''0'' # CHR ''0'' # hex_digit (drop_bit 4 (byte c)) #
            hex_digit (byte c AND 15) # r) = Inr (byte c, r)"
proof -
  have "byte c div 16 < 16" using assms by auto
  moreover have "hex_nibble (CHR ''0'') = 0" by code_simp
  moreover have "(byte c div 16) * 16 + byte c mod 16 = byte c" by simp
  ultimately show ?thesis
    using assms by (simp add: unicode_escape_def hex4_Cons and_low_bits drop_bit_eq_div)
qed

lemma byte_eqD: "byte c = n \<Longrightarrow> c = chr n"
  by auto

lemma string_loop_quote_char:
  "string_loop out (quote_char c @ r) = string_loop (out @ [c]) r"
proof -
  have esc: "byte (CHR ''u'') = 117" "byte (CHR ''b'') = 98" "byte (CHR ''t'') = 116"
    "byte (CHR ''n'') = 110" "byte (CHR ''f'') = 102" "byte (CHR ''r'') = 114"
    by code_simp+
  consider "byte c \<in> {34, 92, 8, 9, 10, 12, 13}"
    | "byte c < 32" "byte c \<notin> {8, 9, 10, 12, 13}" | "32 \<le> byte c" "byte c \<noteq> 34" "byte c \<noteq> 92"
    by force
  then show ?thesis
  proof cases
    case 1
    then show ?thesis
      by (auto dest!: byte_eqD simp: quote_char_def simple_escape_def esc)
  next
    case 2
    then have "utf8 (byte c) = [c]" by (simp add: utf8_def)
    with 2 unicode_escape_control [of c r] show ?thesis
      by (simp add: quote_char_def esc)
  next
    case 3
    then show ?thesis by (simp add: quote_char_def)
  qed
qed

lemma string_loop_quote:
  "string_loop out (concat (map quote_char s) @ chr 34 # r) =
     ebind (validate_utf8 (out @ s)) (\<lambda>_. Inr (out @ s, r))"
proof (induction s arbitrary: out)
  case (Cons c s)
  have "string_loop out (concat (map quote_char (c # s)) @ chr 34 # r) =
      string_loop (out @ [c]) (concat (map quote_char s) @ chr 34 # r)"
    using string_loop_quote_char [of out c] by simp
  with Cons show ?case by simp
qed simp

lemma take_char_hit: "\<not> is_space c \<Longrightarrow> take_char c (c # r) = (True, r)"
  by (simp add: take_char_def)

lemma take_char_miss: "\<not> is_space d \<Longrightarrow> d \<noteq> c \<Longrightarrow> take_char c (d # r) = (False, d # r)"
  by (simp add: take_char_def)

lemma require_hit: "\<not> is_space c \<Longrightarrow> require c (c # r) = Inr r"
  by (simp add: require_def take_char_hit)

lemma parse_string_quote:
  assumes "quote_json s = Inr t"
  shows "parse_string (t @ r) = Inr (s, r)"
proof -
  from assms have v: "validate_utf8 s = Inr ()" and t: "t = chr 34 # concat (map quote_char s) @ [chr 34]"
    by (auto simp: quote_json_def result_simps)
  have "CHR 0x22 = chr 34" "\<not> is_space (chr 34)"
    by (code_simp, simp add: is_space_def)
  then show ?thesis
    using string_loop_quote [of "[]" s r] by (simp add: parse_string_def t v require_hit)
qed

text \<open>
  The invariant \<^verbatim>\<open>std::map\<close> maintains at every level of a value, and the nesting depth, which the
  parser limits to 24.
\<close>

fun json_wf :: "json \<Rightarrow> bool" where
  "json_wf (JObject m) = (dict_ok m \<and> list_all (\<lambda>e. json_wf (snd e)) m)"
| "json_wf (JArray xs) = list_all json_wf xs"
| "json_wf _ = True"

fun json_depth :: "json \<Rightarrow> nat" where
  "json_depth (JObject m) = foldr max (map (\<lambda>e. Suc (json_depth (snd e))) m) 0"
| "json_depth (JArray xs) = foldr max (map (\<lambda>x. Suc (json_depth x)) xs) 0"
| "json_depth _ = 0"

lemma foldr_max_le: "foldr max (map f xs) (0 :: nat) \<le> n \<longleftrightarrow> (\<forall>x\<in>set xs. f x \<le> n)"
  by (induction xs) auto

lemma json_depth_array: "x \<in> set xs \<Longrightarrow> Suc (json_depth x) \<le> json_depth (JArray xs)"
  using foldr_max_le [of "\<lambda>x. Suc (json_depth x)" xs "json_depth (JArray xs)"] by simp

lemma json_depth_object: "e \<in> set m \<Longrightarrow> Suc (json_depth (snd e)) \<le> json_depth (JObject m)"
  using foldr_max_le [of "\<lambda>e. Suc (json_depth (snd e))" m "json_depth (JObject m)"] by simp

text \<open>Reading back \<open>j\<close> from its text, with the fuel that suffices for it.\<close>

definition reads_back :: "json \<Rightarrow> string \<Rightarrow> bool" where
  "reads_back j t \<longleftrightarrow>
     (\<forall>d r f. d + json_depth j \<le> 24 \<longrightarrow> num_stop r \<longrightarrow> 2 * length t + 1 \<le> f \<longrightarrow>
       item f d (t @ r) = Inr (j, r))"

lemma reads_backD:
  "reads_back j t \<Longrightarrow> d + json_depth j \<le> 24 \<Longrightarrow> num_stop r \<Longrightarrow> 2 * length t + 1 \<le> f \<Longrightarrow>
   item f d (t @ r) = Inr (j, r)"
  by (simp add: reads_back_def)

lemma punctuation [simp]:
  "byte (CHR '','') = 44" "byte (CHR '':'') = 58" "byte (CHR ''['') = 91" "byte (CHR '']'') = 93"
  "byte (CHR ''{'') = 123" "byte (CHR ''}'') = 125" "byte (CHR ''-'') = 45" "byte (CHR ''n'') = 110"
  "byte (CHR ''t'') = 116" "byte (CHR ''f'') = 102"
  by code_simp+

lemma punctuation_not_space [simp]:
  "\<not> is_space (CHR '','')" "\<not> is_space (CHR '':'')" "\<not> is_space (CHR ''['')" "\<not> is_space (CHR '']'')"
  "\<not> is_space (CHR ''{'')" "\<not> is_space (CHR ''}'')"
  by (simp_all add: is_space_def)

lemma num_stop_punctuation [simp]:
  "num_stop (CHR '','' # r)" "num_stop (CHR '']'' # r)" "num_stop (CHR ''}'' # r)" "num_stop []"
  by (simp_all add: num_stop_def is_digit_def)

lemma quote_json_head: "quote_json s = Inr t \<Longrightarrow> \<exists>u. t = chr 34 # u"
  by (auto simp: quote_json_def result_simps)

lemma show_int_head: "\<exists>c u. show_int n = c # u \<and> (byte c = 45 \<or> is_digit c)"
proof (cases "n < 0")
  case False
  then show ?thesis
    using show_nat_hd_digit [of "nat n"] show_nat_nonempty [of "nat n"]
    by (cases "show_nat (nat n)") (auto simp: show_int_def)
qed (simp add: show_int_def)

lemma canonical_head:
  assumes "canonical j = Inr t"
  shows "\<exists>c u. t = c # u \<and> \<not> is_space c \<and> byte c \<noteq> 93 \<and> byte c \<noteq> 125"
proof (cases j)
  case (JInt n)
  then have "t = show_int n" using assms by (auto split: if_splits)
  then obtain c u where "t = c # u" "byte c = 45 \<or> is_digit c"
    using show_int_head [of n] by blast
  moreover from this(2) have "\<not> is_space c \<and> byte c \<noteq> 93 \<and> byte c \<noteq> 125"
    by (auto simp: is_space_def is_digit_def)
  ultimately show ?thesis by blast
next
  case (JString s)
  with assms quote_json_head [of s t] show ?thesis by (auto simp: is_space_def)
next
  case (JArray xs)
  from assms [unfolded this canonical_array emap_eq_Inr] obtain u where "t = CHR ''['' # u" by auto
  then show ?thesis by (simp add: is_space_def)
next
  case (JObject m)
  from assms [unfolded this canonical_object emap_eq_Inr] obtain u where "t = CHR ''{'' # u" by auto
  then show ?thesis by (simp add: is_space_def)
next
  case (JBool b)
  with assms have "t = CHR ''t'' # ''rue'' \<or> t = CHR ''f'' # ''alse''" by (simp split: if_splits)
  then show ?thesis by (elim disjE) (simp_all add: is_space_def)
next
  case JNull
  with assms have "t = CHR ''n'' # ''ull''" by simp
  then show ?thesis by (simp add: is_space_def)
qed (use assms in simp)

lemma elements_read_back:
  assumes "list_all2 reads_back xs us" "xs \<noteq> []" "\<forall>x\<in>set xs. d + Suc (json_depth x) \<le> 24"
    and "2 * length (join us) + 4 \<le> f"
  shows "elements f d arr (join us @ CHR '']'' # r) = Inr (JArray (arr @ xs), r)"
  using assms
proof (induction xs arbitrary: us f arr)
  case (Cons x xs)
  then obtain u vs where us: "us = u # vs" "reads_back x u" "list_all2 reads_back xs vs"
    by (auto simp: list_all2_Cons1)
  obtain g where f: "f = Suc g" using Cons.prems(4) by (cases f) auto
  let ?rest = "concat (map (\<lambda>u. CHR '','' # u) vs) @ CHR '']'' # r"
  have "num_stop ?rest" by (cases vs) auto
  then have it: "item g (d + 1) (u @ ?rest) = Inr (x, ?rest)"
    using Cons.prems(3,4) us f by (intro reads_backD) auto
  show ?case
  proof (cases xs)
    case Nil
    then have "vs = []" using us by simp
    with Nil it us f show ?thesis by (simp add: take_char_miss require_hit)
  next
    case (Cons y ys)
    then obtain v ws where vs: "vs = v # ws" using us by (auto simp: list_all2_Cons1)
    have "elements g d (arr @ [x]) (join vs @ CHR '']'' # r) = Inr (JArray ((arr @ [x]) @ xs), r)"
      using Cons.prems(3,4) us f vs Cons by (intro Cons.IH) auto
    with it us f vs show ?thesis by (simp add: take_char_hit)
  qed
qed simp

lemma dict_set_last: "\<forall>x\<in>set m. fst x < k \<Longrightarrow> dict_set k v m = m @ [(k, v)]"
  by (induction m) auto

lemma dict_has_last: "\<forall>x\<in>set m. fst x < k \<Longrightarrow> \<not> dict_has m k" for k :: "'k :: linorder"
  by (auto simp: dict_has_def dict_get_None)

lemma dict_ok_append:
  "dict_ok (m @ (k, v) # n) \<Longrightarrow> (\<forall>x\<in>set m. fst x < k) \<and> dict_ok ((m @ [(k, v)]) @ n)"
  by (auto simp: dict_ok_def sorted_wrt_append)

lemma list_all2_mono_in:
  "list_all2 P xs ys \<Longrightarrow> (\<And>x y. x \<in> set xs \<Longrightarrow> P x y \<Longrightarrow> Q x y) \<Longrightarrow> list_all2 Q xs ys"
  by (induction rule: list_all2_induct) auto

text \<open>The text of an object member, and what reading it back means.\<close>

definition field_reads_back :: "string \<times> json \<Rightarrow> string \<Rightarrow> bool" where
  "field_reads_back e u \<longleftrightarrow>
     (\<exists>q t. u = q @ CHR '':'' # t \<and> quote_json (fst e) = Inr q \<and> reads_back (snd e) t \<and> t \<noteq> [])"

lemma members_read_back:
  assumes "list_all2 field_reads_back m us" "m \<noteq> []" "\<forall>e\<in>set m. d + Suc (json_depth (snd e)) \<le> 24"
    and "2 * length (join us) + 4 \<le> f" "dict_ok (obj @ m)"
  shows "members f d obj (join us @ CHR ''}'' # r) = Inr (JObject (obj @ m), r)"
  using assms
proof (induction m arbitrary: us f obj)
  case (Cons e m)
  obtain k v where e: "e = (k, v)" by fastforce
  from Cons.prems(1) obtain u vs where us: "us = u # vs" "field_reads_back e u" "list_all2 field_reads_back m vs"
    by (auto simp: list_all2_Cons1)
  then obtain q t where u: "u = q @ CHR '':'' # t" "quote_json k = Inr q" "reads_back v t"
    by (auto simp: field_reads_back_def e)
  obtain g where f: "f = Suc g" using Cons.prems(4) by (cases f) auto
  let ?rest = "concat (map (\<lambda>u. CHR '','' # u) vs) @ CHR ''}'' # r"
  have "num_stop ?rest" by (cases vs) auto
  then have it: "item g (d + 1) (t @ ?rest) = Inr (v, ?rest)"
    using Cons.prems(3,4) us u f e by (intro reads_backD) auto
  have ok: "\<forall>x\<in>set obj. fst x < k" "dict_ok ((obj @ [(k, v)]) @ m)"
    using Cons.prems(5) dict_ok_append [of obj k v m] e by auto
  note step = parse_string_quote [OF u(2)] it us u f e dict_has_last [OF ok(1)] dict_set_last [OF ok(1)]
  show ?case
  proof (cases m)
    case Nil
    then have "vs = []" using us by simp
    with Nil step show ?thesis by (simp add: take_char_miss require_hit)
  next
    case (Cons y ys)
    then obtain w ws where vs: "vs = w # ws" using us by (auto simp: list_all2_Cons1)
    have "members g d (obj @ [(k, v)]) (join vs @ CHR ''}'' # r) = Inr (JObject ((obj @ [(k, v)]) @ m), r)"
      using Cons.prems(3,4) us f vs Cons ok by (intro Cons.IH) auto
    with step vs show ?thesis by (simp add: take_char_hit require_hit)
  qed
qed simp

lemma item_scalar:
  assumes "\<not> is_space c" "byte c \<notin> {34, 91, 123}" "d \<le> 24" "0 < f"
  shows "item f d (c # s) = parse_scalar (c # s)"
  using assms by (cases f) auto

lemma scalar_reads_back:
  "reads_back JNull ''null''" "reads_back (JBool b) (if b then ''true'' else ''false'')"
  by (auto simp: reads_back_def item_scalar is_space_def parse_scalar_def)

lemma int_reads_back: "\<bar>n\<bar> \<le> 9007199254740991 \<Longrightarrow> reads_back (JInt n) (show_int n)"
proof -
  assume n: "\<bar>n\<bar> \<le> 9007199254740991"
  obtain c u where c: "show_int n = c # u" "byte c = 45 \<or> is_digit c"
    using show_int_head [of n] by blast
  then have ne: "c \<noteq> CHR ''t''" "c \<noteq> CHR ''f''" "c \<noteq> CHR ''n''" and sp: "\<not> is_space c" "byte c \<notin> {34, 91, 123}"
    by (auto simp: is_digit_def is_space_def)
  have "parse_scalar (show_int n @ r) = Inr (JInt n, r)" if "num_stop r" for r
    using parse_number_show_int [OF that n] c ne by (simp add: parse_scalar_def)
  with c sp show ?thesis by (auto simp: reads_back_def item_scalar)
qed

lemma string_reads_back: "quote_json s = Inr t \<Longrightarrow> reads_back (JString s) t"
proof -
  assume q: "quote_json s = Inr t"
  then obtain u where u: "t = chr 34 # u" using quote_json_head by blast
  have "item f d (t @ r) = Inr (JString s, r)" if "d \<le> 24" "0 < f" for f d r
    using that parse_string_quote [OF q, of r] u by (cases f) (auto simp: is_space_def)
  then show ?thesis by (auto simp: reads_back_def)
qed

lemma field_text_reads_back:
  assumes "field_text e = Inr u" "\<And>t. canonical (snd e) = Inr t \<Longrightarrow> reads_back (snd e) t"
  shows "field_reads_back e u"
proof -
  obtain k v where e: "e = (k, v)" by fastforce
  from assms(1) obtain q t where "quote_json k = Inr q" "canonical v = Inr t" "u = q @ CHR '':'' # t"
    by (auto simp: e field_text_def result_simps split: if_splits)
  with assms(2) canonical_nonempty [of v t] show ?thesis by (auto simp: e field_reads_back_def)
qed

lemma array_reads_back:
  assumes t: "canonical (JArray xs) = Inr t"
    and IH: "\<And>x u. x \<in> set xs \<Longrightarrow> canonical x = Inr u \<Longrightarrow> reads_back x u"
  shows "reads_back (JArray xs) t"
proof (cases xs)
  case Nil
  have "item f d (''[]'' @ r) = Inr (JArray [], r)" if "d \<le> 24" "0 < f" for f d r
    using that by (cases f) (auto simp: take_char_hit)
  with Nil t show ?thesis by (auto simp: reads_back_def)
next
  case (Cons x ys)
  obtain us where us: "list_all2 (\<lambda>x u. canonical x = Inr u) xs us" and t': "t = ''['' @ join us @ '']''"
    using t by (auto simp: canonical_array result_simps emapM_Inr simp del: canonical.simps)
  then obtain u vs where u: "us = u # vs" "canonical x = Inr u" using Cons by (auto simp: list_all2_Cons1)
  then obtain c w where c: "u = c # w" "\<not> is_space c" "byte c \<noteq> 93" using canonical_head by blast
  then have miss: "take_char (CHR '']'') (join us @ s) = (False, join us @ s)" for s
    using u by (auto intro!: take_char_miss)
  have "list_all2 reads_back xs us"
    using us IH by (auto simp: list_all2_conv_all_nth)
  then have "item f d (t @ r) = Inr (JArray xs, r)"
    if "d + json_depth (JArray xs) \<le> 24" "2 * length t + 1 \<le> f" for f d r
  proof -
    have "\<forall>x\<in>set xs. d + Suc (json_depth x) \<le> 24"
      using that(1) json_depth_array [of _ xs] by fastforce
    with \<open>list_all2 reads_back xs us\<close> that(2) Cons t'
    have "elements (f - 1) d [] (join us @ CHR '']'' # r) = Inr (JArray ([] @ xs), r)"
      by (intro elements_read_back) auto
    with that t' miss show ?thesis by (cases f) auto
  qed
  then show ?thesis by (auto simp: reads_back_def simp del: item.simps)
qed

lemma object_reads_back:
  assumes t: "canonical (JObject m) = Inr t" and ok: "dict_ok m"
    and IH: "\<And>e u. e \<in> set m \<Longrightarrow> canonical (snd e) = Inr u \<Longrightarrow> reads_back (snd e) u"
  shows "reads_back (JObject m) t"
proof (cases m)
  case Nil
  have "item f d (''{}'' @ r) = Inr (JObject [], r)" if "d \<le> 24" "0 < f" for f d r
    using that by (cases f) (auto simp: take_char_hit)
  with Nil t show ?thesis by (auto simp: reads_back_def)
next
  case (Cons e n)
  obtain us where us: "list_all2 (\<lambda>e u. field_text e = Inr u) m us" and t': "t = ''{'' @ join us @ ''}''"
    using t by (auto simp: canonical_object result_simps emapM_Inr simp del: canonical.simps)
  then obtain u vs where u: "us = u # vs" "field_text e = Inr u" using Cons by (auto simp: list_all2_Cons1)
  then obtain w where w: "u = chr 34 # w"
    by (cases e) (auto simp: field_text_def result_simps split: if_splits dest: quote_json_head)
  then have miss: "take_char (CHR ''}'') (join us @ s) = (False, join us @ s)" for s
    using u by (auto intro!: take_char_miss simp: is_space_def simp flip: byte_inj)
  have "list_all2 field_reads_back m us"
    using us by (rule list_all2_mono_in) (use IH in \<open>auto intro: field_text_reads_back\<close>)
  then have "item f d (t @ r) = Inr (JObject m, r)"
    if "d + json_depth (JObject m) \<le> 24" "2 * length t + 1 \<le> f" for f d r
  proof -
    have "\<forall>e\<in>set m. d + Suc (json_depth (snd e)) \<le> 24"
      using that(1) json_depth_object [of _ m] by fastforce
    with \<open>list_all2 field_reads_back m us\<close> that(2) Cons t' ok
    have "members (f - 1) d [] (join us @ CHR ''}'' # r) = Inr (JObject ([] @ m), r)"
      by (intro members_read_back) auto
    with that t' miss show ?thesis by (cases f) auto
  qed
  then show ?thesis by (auto simp: reads_back_def simp del: item.simps)
qed

lemma canonical_reads_back: "canonical j = Inr t \<Longrightarrow> json_wf j \<Longrightarrow> reads_back j t"
proof (induction j arbitrary: t)
  case (JInt n)
  then show ?case by (auto intro: int_reads_back split: if_splits)
next
  case (JObject m)
  show ?case
  proof (rule object_reads_back [OF JObject.prems(1)])
    show "reads_back (snd e) u" if "e \<in> set m" "canonical (snd e) = Inr u" for e u
      using that JObject by (intro JObject.IH) (auto simp: list_all_iff snds.simps)
  qed (use JObject.prems in simp)
next
  case (JArray xs)
  show ?case
    by (rule array_reads_back [OF JArray.prems(1)]) (use JArray in \<open>auto simp: list_all_iff\<close>)
qed (auto intro: scalar_reads_back string_reads_back split del: if_split simp del: if_split)

lemma parse_canonical:
  assumes "canonical j = Inr t" "json_wf j" "json_depth j \<le> 24" "length t \<le> limit"
  shows "parse_json t limit = Inr j"
  using reads_backD [OF canonical_reads_back [OF assms(1,2)], of 0 "[]" "json_fuel t"] assms
  by (simp add: parse_json_def json_fuel_def)

section \<open>What the parser returns\<close>

text \<open>
  A parsed value satisfies the invariants of its C++ representation: sorted unique keys, integers of
  64 bits, finite doubles, valid UTF-8 in every string and key, and at most \<open>n\<close> levels of nesting.
\<close>

fun json_typed :: "nat \<Rightarrow> json \<Rightarrow> bool" where
  "json_typed n (JInt i) = (- (2 ^ 63) \<le> i \<and> i < 2 ^ 63)"
| "json_typed n (JDouble d) = isfinite d"
| "json_typed n (JString s) = (validate_utf8 s = Inr ())"
| "json_typed n (JObject m) =
     (dict_ok m \<and> list_all (\<lambda>e. validate_utf8 (fst e) = Inr () \<and> 0 < n \<and> json_typed (n - 1) (snd e)) m)"
| "json_typed n (JArray xs) = list_all (\<lambda>x. 0 < n \<and> json_typed (n - 1) x) xs"
| "json_typed n _ = True"

lemma string_loop_utf8: "string_loop out s = Inr (x, r) \<Longrightarrow> validate_utf8 x = Inr ()"
proof (induction out s rule: string_loop.induct)
  case (2 out c r')
  from 2(4) show ?case
    by (auto simp: invalid_def result_simps split: if_splits list.splits option.splits intro: 2(1-3))
qed (simp add: invalid_def)

lemma parse_string_utf8: "parse_string s = Inr (x, r) \<Longrightarrow> validate_utf8 x = Inr ()"
  by (auto simp: parse_string_def result_simps dest: string_loop_utf8)

lemma from_chars_typed:
  "from_chars_int64 neg ds = Inr v \<Longrightarrow> - (2 ^ 63) \<le> v \<and> v < 2 ^ 63"
  "from_chars_double neg ip fp ex = Inr d \<Longrightarrow> isfinite d"
  by (auto simp: from_chars_int64_def from_chars_double_def invalid_def Let_def split: if_splits)

lemma parse_number_typed: "parse_number s = Inr (v, r) \<Longrightarrow> json_typed n v"
  by (auto simp: parse_number_def Let_def result_simps split: if_splits prod.splits dest: from_chars_typed)

lemma parse_scalar_typed: "parse_scalar s = Inr (v, r) \<Longrightarrow> json_typed n v"
  by (auto simp: parse_scalar_def split: option.splits dest: parse_number_typed)

lemma dict_typed_set:
  "json_typed n (JObject m) \<Longrightarrow> validate_utf8 k = Inr () \<Longrightarrow> 0 < n \<Longrightarrow> json_typed (n - 1) v \<Longrightarrow>
   json_typed n (JObject (dict_set k v m))"
  using set_dict_set [of k v m] by (auto simp: list_all_iff)

definition typed_results :: "nat \<Rightarrow> bool" where
  "typed_results f \<longleftrightarrow>
     (\<forall>d s v r. item f d s = Inr (v, r) \<longrightarrow> d \<le> 24 \<and> json_typed (24 - d) v) \<and>
     (\<forall>d obj s v r. members f d obj s = Inr (v, r) \<longrightarrow> json_typed (24 - d) (JObject obj) \<longrightarrow> json_typed (24 - d) v) \<and>
     (\<forall>d arr s v r. elements f d arr s = Inr (v, r) \<longrightarrow> json_typed (24 - d) (JArray arr) \<longrightarrow> json_typed (24 - d) v)"

lemma typed_resultsD:
  assumes "typed_results f"
  shows "item f d s = Inr (v, r) \<Longrightarrow> d \<le> 24 \<and> json_typed (24 - d) v"
    and "members f d obj s = Inr (v, r) \<Longrightarrow> json_typed (24 - d) (JObject obj) \<Longrightarrow> json_typed (24 - d) v"
    and "elements f d arr s = Inr (v, r) \<Longrightarrow> json_typed (24 - d) (JArray arr) \<Longrightarrow> json_typed (24 - d) v"
  using assms unfolding typed_results_def by blast+

lemma members_step_typed:
  assumes f: "typed_results f" and m: "members (Suc f) d obj s = Inr (v, r)" and obj: "json_typed (24 - d) (JObject obj)"
  shows "json_typed (24 - d) v"
proof -
  from m obtain k s1 s2 x s3 b s4 where p: "parse_string s = Inr (k, s1)"
      "item f (Suc d) s2 = Inr (x, s3)" "take_char (CHR '','') s3 = (b, s4)"
      "if b then members f d (dict_set k x obj) s4 = Inr (v, r) else v = JObject (dict_set k x obj)"
    by (auto simp: result_simps invalid_def split: if_splits prod.splits bool.splits)
  note x = typed_resultsD(1) [OF f p(2)]
  have "json_typed (24 - d) (JObject (dict_set k x obj))"
    using obj x parse_string_utf8 [OF p(1)] by (intro dict_typed_set) auto
  with p(4) typed_resultsD(2) [OF f] show ?thesis by (auto split: if_splits)
qed

lemma elements_step_typed:
  assumes f: "typed_results f" and m: "elements (Suc f) d arr s = Inr (v, r)" and arr: "json_typed (24 - d) (JArray arr)"
  shows "json_typed (24 - d) v"
proof -
  from m obtain x s1 where i: "item f (Suc d) s = Inr (x, s1)"
    by (cases "item f (Suc d) s") auto
  obtain b s2 where b: "take_char (CHR '','') s1 = (b, s2)" by fastforce
  have "json_typed (24 - d) (JArray (arr @ [x]))"
    using arr typed_resultsD(1) [OF f i] by auto
  with m i b typed_resultsD(3) [OF f] show ?thesis
    by (cases b) (auto simp: result_simps)
qed

lemma item_step_typed:
  assumes f: "typed_results f" and i: "item (Suc f) d s = Inr (v, r)"
  shows "d \<le> 24 \<and> json_typed (24 - d) v"
proof -
  obtain c t where ct: "space s = c # t" and d: "d \<le> 24"
    using i by (cases "space s") (auto simp: invalid_def split: if_splits)
  obtain b1 r1 b2 r2 where tc: "take_char (CHR ''}'') t = (b1, r1)" "take_char (CHR '']'') t = (b2, r2)"
    by fastforce
  have M: "members f d [] r1 = Inr (v, r) \<Longrightarrow> json_typed (24 - d) v"
    and E: "elements f d [] r2 = Inr (v, r) \<Longrightarrow> json_typed (24 - d) v"
    using typed_resultsD(2,3) [OF f] by auto
  from i ct d tc show ?thesis
    by (auto simp: result_simps dest: M E parse_string_utf8 parse_scalar_typed split: if_splits bool.splits)
qed

lemma typed_results_all: "typed_results f"
proof (induction f)
  case (Suc f)
  then show ?case
    unfolding typed_results_def [of "Suc f"]
    using item_step_typed members_step_typed elements_step_typed by presburger
qed (simp add: typed_results_def)

lemma parse_json_typed: "parse_json t limit = Inr j \<Longrightarrow> json_typed 24 j"
  using typed_resultsD(1) [OF typed_results_all, of "json_fuel t" 0 t]
  by (auto simp: parse_json_def invalid_def result_simps split: if_splits)

lemma json_typed_wf: "json_typed n j \<Longrightarrow> json_wf j \<and> json_depth j \<le> n"
proof (induction n j rule: json_typed.induct)
  case (4 n m)
  then have "\<forall>e\<in>set m. json_wf (snd e) \<and> Suc (json_depth (snd e)) \<le> n"
    by (fastforce simp: list_all_iff)
  with "4.prems" show ?case by (simp add: list_all_iff foldr_max_le)
next
  case (5 n xs)
  then have "\<forall>x\<in>set xs. json_wf x \<and> Suc (json_depth x) \<le> n"
    by (fastforce simp: list_all_iff)
  with "5.prems" show ?case by (simp add: list_all_iff foldr_max_le)
qed auto

section \<open>The codec interface\<close>

text \<open>
  A codec reads back what it wrote. Its clients conclude that equal texts come from equal values and
  that a value read back is written as the same text.
\<close>

locale codec =
  fixes encode :: "'a \<Rightarrow> 'b result" and decode :: "'b \<Rightarrow> 'a result" and domain :: "'a \<Rightarrow> bool"
  assumes decode_encode: "domain x \<Longrightarrow> encode x = Inr t \<Longrightarrow> decode t = Inr x"
begin

lemma encode_inj: "domain x \<Longrightarrow> domain y \<Longrightarrow> encode x = Inr t \<Longrightarrow> encode y = Inr t \<Longrightarrow> x = y"
  by (metis decode_encode sum.inject(2))

lemma encode_stable: "domain x \<Longrightarrow> encode x = Inr t \<Longrightarrow> decode t = Inr y \<Longrightarrow> encode y = Inr t"
  by (metis decode_encode sum.inject(2))

end

interpretation canon: codec canonical "\<lambda>t. parse_json t (length t)" "\<lambda>j. json_wf j \<and> json_depth j \<le> 24"
  by unfold_locales (auto intro: parse_canonical)

section \<open>Properties\<close>

lemma json_typed_mono: "json_typed n j \<Longrightarrow> n \<le> m \<Longrightarrow> json_typed m j"
proof (induction n j arbitrary: m rule: json_typed.induct)
  case (4 n o1)
  then show ?case by (fastforce simp: list_all_iff)
next
  case (5 n xs)
  then show ?case by (fastforce simp: list_all_iff)
qed auto

lemma json_at_typed: "json_typed n j \<Longrightarrow> json_at j k = Inr v \<Longrightarrow> 0 < n \<and> json_typed (n - 1) v"
  by (cases j) (auto simp: json_at_def dict_at_def list_all_iff split: option.splits dest!: dict_get_in_set)

text \<open>C23: \<open>parse_json\<close> is total and fails in one way only: every input either yields \<open>INVALID_JSON\<close>, never another
  exception and never an exhausted recursion bound, or a value within the size limit that satisfies the
  representation invariants, nested at most 24 levels.\<close>

theorem parse_json_outcome:
  "case parse_json text limit of
     Inl e \<Rightarrow> e = INVALID_JSON
   | Inr j \<Rightarrow> json_typed 24 j \<and> length text \<le> limit"
proof (cases "length text \<le> limit")
  case True
  then show ?thesis by (auto dest: parse_json_error parse_json_typed split: sum.splits)
qed (simp add: parse_json_def invalid_def)

text \<open>C19: reading a canonical text gives back the value it was written from, whenever the value is well
  formed, nested at most 24 levels and its text fits the limit.\<close>

theorem canonical_roundtrip:
  assumes "canonical j = Inr t" "json_wf j" "json_depth j \<le> 24" "length t \<le> limit"
  shows "parse_json t limit = Inr j"
  using assms by (rule parse_canonical)

theorem canonical_roundtrip_witness:
  "parse_json ''{\"a\":[1,-20,null],\"b\":true}'' 64
     = Inr (JObject [(''a'', JArray [JInt 1, JInt (-20), JNull]), (''b'', JBool True)])"
  by (rule canonical_roundtrip) code_simp+

text \<open>Two parsed values with the same canonical text are equal, so a digest of the canonical text
  identifies the value.\<close>

theorem canonical_injective:
  assumes "parse_json s m = Inr x" "parse_json t n = Inr y" "canonical x = Inr u" "canonical y = Inr u"
  shows "x = y"
  using assms parse_json_typed json_typed_wf canon.encode_inj [of x y u] by blast

theorem canonical_injective_witness:
  "JArray [JInt 7] = JArray [JInt 7]"
  by (rule canonical_injective [of "''[ 7 ]''" 8 _ "''[7]''" 8 _ "''[7]''"]) code_simp+

end
