(* ===== verification/Digest.thy ===== *)
theory Digest
  imports Canonical "HOL-Library.Word"
begin

unbundle bit_operations_syntax

text \<open>
  \<^verbatim>\<open>src/runtime/sha256.cpp\<close> and \<^verbatim>\<open>src/runtime/uuid.cpp\<close>: SHA-256, SHA-1, lowercase hexadecimal
  encoding and decoding, and name-based UUIDs, on words of the widths the code uses. The
  lemmas give the
  length and alphabet of every digest and identifier the program produces, and the round trips of
  the hexadecimal and UUID text forms. \<^verbatim>\<open>random_uuid\<close> of \<^verbatim>\<open>src/runtime/posix.cpp\<close> formats random
  bytes the same way and is modelled here with the bytes as its argument.
\<close>

type_synonym u8 = "8 word"
type_synonym u32 = "32 word"

definition bytes_of :: "string \<Rightarrow> u8 list" where
  "bytes_of s = map (\<lambda>c. of_nat (byte c)) s"

section \<open>Message padding\<close>

lemma pad_measure: "x mod 64 \<noteq> 56 \<Longrightarrow> (120 - Suc x mod 64) mod 64 < (120 - x mod 64) mod (64 :: nat)"
proof -
  assume x: "x mod 64 \<noteq> 56"
  have "\<forall>y\<in>set [0..<64]. y \<noteq> 56 \<longrightarrow> (120 - Suc y mod 64) mod 64 < (120 - y) mod (64 :: nat)"
    by code_simp
  then have "(120 - Suc (x mod 64) mod 64) mod 64 < (120 - x mod 64) mod 64"
    using x by simp
  then show ?thesis by (simp add: mod_Suc_eq)
qed

function pad_loop :: "u8 list \<Rightarrow> u8 list" where
  "pad_loop m = (if length m mod 64 \<noteq> 56 then pad_loop (m @ [0]) else m)"
  by pat_completeness auto
termination
  by (relation "measure (\<lambda>m. (120 - length m mod 64) mod 64)")
     (auto intro: pad_measure)

declare pad_loop.simps [simp del]

definition bit_length :: "u8 list \<Rightarrow> 64 word" where
  "bit_length m = of_nat (length m) * 8"

definition length_bytes :: "64 word \<Rightarrow> u8 list" where
  "length_bytes n = map (\<lambda>shift. ucast (drop_bit shift n AND 0xff)) [56, 48, 40, 32, 24, 16, 8, 0]"

definition padded :: "string \<Rightarrow> u8 list" where
  "padded s = (let m = bytes_of s in pad_loop (m @ [0x80]) @ length_bytes (bit_length m))"

definition be_word :: "u8 list \<Rightarrow> nat \<Rightarrow> u32" where
  "be_word m i =
     push_bit 24 (ucast (m ! i)) OR push_bit 16 (ucast (m ! (i + 1))) OR
     push_bit 8 (ucast (m ! (i + 2))) OR ucast (m ! (i + 3))"

definition block_words :: "u8 list \<Rightarrow> u32 list" where
  "block_words b = map (\<lambda>i. be_word b (i * 4)) [0..<16]"

definition word_bytes :: "u32 \<Rightarrow> u8 list" where
  "word_bytes w = [ucast (drop_bit 24 w), ucast (drop_bit 16 w), ucast (drop_bit 8 w), ucast w]"

section \<open>SHA-256\<close>

definition round_constants :: "u32 list" where
  "round_constants = concat
    [[0x428a2f98, 0x71374491, 0xb5c0fbcf, 0xe9b5dba5, 0x3956c25b, 0x59f111f1],
     [0x923f82a4, 0xab1c5ed5, 0xd807aa98, 0x12835b01, 0x243185be, 0x550c7dc3],
     [0x72be5d74, 0x80deb1fe, 0x9bdc06a7, 0xc19bf174, 0xe49b69c1, 0xefbe4786],
     [0x0fc19dc6, 0x240ca1cc, 0x2de92c6f, 0x4a7484aa, 0x5cb0a9dc, 0x76f988da],
     [0x983e5152, 0xa831c66d, 0xb00327c8, 0xbf597fc7, 0xc6e00bf3, 0xd5a79147],
     [0x06ca6351, 0x14292967, 0x27b70a85, 0x2e1b2138, 0x4d2c6dfc, 0x53380d13],
     [0x650a7354, 0x766a0abb, 0x81c2c92e, 0x92722c85, 0xa2bfe8a1, 0xa81a664b],
     [0xc24b8b70, 0xc76c51a3, 0xd192e819, 0xd6990624, 0xf40e3585, 0x106aa070],
     [0x19a4c116, 0x1e376c08, 0x2748774c, 0x34b0bcb5, 0x391c0cb3, 0x4ed8aa4a],
     [0x5b9cca4f, 0x682e6ff3, 0x748f82ee, 0x78a5636f, 0x84c87814, 0x8cc70208],
     [0x90befffa, 0xa4506ceb, 0xbef9a3f7, 0xc67178f2]]"

definition rotate_right :: "u32 \<Rightarrow> nat \<Rightarrow> u32" where
  "rotate_right v n = drop_bit n v OR push_bit (32 - n) v"

primrec extend256 :: "nat \<Rightarrow> u32 list \<Rightarrow> u32 list" where
  "extend256 0 w = w"
| "extend256 (Suc n) w =
     (let i = length w;
          s0 = rotate_right (w ! (i - 15)) 7 XOR rotate_right (w ! (i - 15)) 18 XOR drop_bit 3 (w ! (i - 15));
          s1 = rotate_right (w ! (i - 2)) 17 XOR rotate_right (w ! (i - 2)) 19 XOR drop_bit 10 (w ! (i - 2))
      in extend256 n (w @ [w ! (i - 16) + s0 + w ! (i - 7) + s1]))"

type_synonym state256 = "u32 \<times> u32 \<times> u32 \<times> u32 \<times> u32 \<times> u32 \<times> u32 \<times> u32"

fun round256 :: "state256 \<Rightarrow> u32 \<times> u32 \<Rightarrow> state256" where
  "round256 (a, b, c, d, e, f, g, h) (k, w) =
     (let s1 = rotate_right e 6 XOR rotate_right e 11 XOR rotate_right e 25;
          choice = (e AND f) XOR (NOT e AND g);
          temporary1 = h + s1 + choice + k + w;
          s0 = rotate_right a 2 XOR rotate_right a 13 XOR rotate_right a 22;
          majority = (a AND b) XOR (a AND c) XOR (b AND c);
          temporary2 = s0 + majority
      in (temporary1 + temporary2, a, b, c, d + temporary1, e, f, g))"

fun add256 :: "state256 \<Rightarrow> state256 \<Rightarrow> state256" where
  "add256 (a, b, c, d, e, f, g, h) (a', b', c', d', e', f', g', h') =
     (a + a', b + b', c + c', d + d', e + e', f + f', g + g', h + h')"

definition compress256 :: "state256 \<Rightarrow> u8 list \<Rightarrow> state256" where
  "compress256 st block =
     add256 st (foldl round256 st (zip round_constants (extend256 48 (block_words block))))"

function blocks256 :: "state256 \<Rightarrow> u8 list \<Rightarrow> state256" where
  "blocks256 st m = (if m = [] then st else blocks256 (compress256 st (take 64 m)) (drop 64 m))"
  by pat_completeness auto
termination
  by (relation "measure (\<lambda>(st, m). length m)") auto

declare blocks256.simps [simp del]

definition initial256 :: state256 where
  "initial256 = (0x6a09e667, 0xbb67ae85, 0x3c6ef372, 0xa54ff53a, 0x510e527f, 0x9b05688c, 0x1f83d9ab, 0x5be0cd19)"

definition sha256 :: "string \<Rightarrow> u8 list" where
  "sha256 s =
     (case blocks256 initial256 (padded s) of (a, b, c, d, e, f, g, h) \<Rightarrow>
        concat (map word_bytes [a, b, c, d, e, f, g, h]))"

section \<open>Hexadecimal text\<close>

definition hex_byte :: "u8 \<Rightarrow> string" where
  "hex_byte b = [hex_digit (unat (drop_bit 4 b)), hex_digit (unat (b AND 0x0f))]"

definition hex_encode :: "u8 list \<Rightarrow> string" where
  "hex_encode d = concat (map hex_byte d)"

definition sha256_hex :: "string \<Rightarrow> string" where
  "sha256_hex s = hex_encode (sha256 s)"

definition hex_value :: "char \<Rightarrow> int" where
  "hex_value c =
     (if is_digit c then int (byte c) - 48
      else if 97 \<le> byte c \<and> byte c \<le> 102 then int (byte c) - 97 + 10 else -1)"

definition nibbles_byte :: "int \<Rightarrow> int \<Rightarrow> u8" where
  "nibbles_byte high low = word_of_int (push_bit 4 high OR low)"

fun hex_pairs :: "string \<Rightarrow> u8 list result" where
  "hex_pairs (h # l # r) =
     (if hex_value h < 0 \<or> hex_value l < 0
      then Inl (InvalidArgument ''SHA-256 hex value must be lowercase hexadecimal'')
      else ebind (hex_pairs r) (\<lambda>bs. Inr (nibbles_byte (hex_value h) (hex_value l) # bs)))"
| "hex_pairs _ = Inr []"

definition hex_decode_sha256 :: "string \<Rightarrow> u8 list result" where
  "hex_decode_sha256 s =
     (if length s \<noteq> 64 then Inl (InvalidArgument ''SHA-256 hex value must contain 64 characters'')
      else hex_pairs s)"

section \<open>SHA-1\<close>

definition rotate_left :: "u32 \<Rightarrow> nat \<Rightarrow> u32" where
  "rotate_left v n = push_bit n v OR drop_bit (32 - n) v"

primrec extend1 :: "nat \<Rightarrow> u32 list \<Rightarrow> u32 list" where
  "extend1 0 w = w"
| "extend1 (Suc n) w =
     (let i = length w
      in extend1 n (w @ [rotate_left (w ! (i - 3) XOR w ! (i - 8) XOR w ! (i - 14) XOR w ! (i - 16)) 1]))"

type_synonym state1 = "u32 \<times> u32 \<times> u32 \<times> u32 \<times> u32"

fun round1 :: "state1 \<Rightarrow> nat \<times> u32 \<Rightarrow> state1" where
  "round1 (a, b, c, d, e) (index, w) =
     (let (func, constant) =
            (if index < 20 then ((b AND c) OR (NOT b AND d), 0x5a827999)
             else if index < 40 then (b XOR c XOR d, 0x6ed9eba1)
             else if index < 60 then ((b AND c) OR (b AND d) OR (c AND d), 0x8f1bbcdc)
             else (b XOR c XOR d, 0xca62c1d6));
          temporary = rotate_left a 5 + func + e + constant + w
      in (temporary, a, rotate_left b 30, c, d))"

fun add1 :: "state1 \<Rightarrow> state1 \<Rightarrow> state1" where
  "add1 (a, b, c, d, e) (a', b', c', d', e') = (a + a', b + b', c + c', d + d', e + e')"

definition compress1 :: "state1 \<Rightarrow> u8 list \<Rightarrow> state1" where
  "compress1 st block =
     add1 st (foldl round1 st (zip [0..<80] (extend1 64 (block_words block))))"

function blocks1 :: "state1 \<Rightarrow> u8 list \<Rightarrow> state1" where
  "blocks1 st m = (if m = [] then st else blocks1 (compress1 st (take 64 m)) (drop 64 m))"
  by pat_completeness auto
termination
  by (relation "measure (\<lambda>(st, m). length m)") auto

declare blocks1.simps [simp del]

definition sha1 :: "string \<Rightarrow> u8 list" where
  "sha1 s =
     (case blocks1 (0x67452301, 0xefcdab89, 0x98badcfe, 0x10325476, 0xc3d2e1f0) (padded s) of
        (a, b, c, d, e) \<Rightarrow> concat (map word_bytes [a, b, c, d, e]))"

section \<open>UUIDs\<close>

text \<open>The loop over the characters: \<open>high\<close> holds a pending high nibble, or is negative.\<close>

fun decode_loop :: "string \<Rightarrow> int \<Rightarrow> u8 list \<Rightarrow> (int \<times> u8 list) result" where
  "decode_loop [] high bs = Inr (high, bs)"
| "decode_loop (c # s) high bs =
     (if byte c = 45 then decode_loop s high bs
      else if hex_value c < 0 then Inl (InvalidArgument ''UUID must use lowercase hexadecimal digits'')
      else if high < 0 then decode_loop s (hex_value c) bs
      else if length bs \<ge> 16 then Inl OutOfRange
      else decode_loop s (-1) (bs @ [nibbles_byte high (hex_value c)]))"

definition decode_uuid :: "string \<Rightarrow> u8 list result" where
  "decode_uuid v =
     (if length v \<noteq> 36 \<or> byte (v ! 8) \<noteq> 45 \<or> byte (v ! 13) \<noteq> 45 \<or> byte (v ! 18) \<noteq> 45 \<or> byte (v ! 23) \<noteq> 45
      then Inl (InvalidArgument ''UUID must use lowercase RFC 4122 text form'')
      else ebind (decode_loop v (-1) []) (\<lambda>(high, bs).
             if length bs \<noteq> 16 \<or> high \<ge> 0 then Inl (InvalidArgument ''invalid UUID byte count'')
             else Inr bs))"

definition encode_uuid :: "u8 list \<Rightarrow> string" where
  "encode_uuid bs =
     concat (map (\<lambda>i. (if i = 4 \<or> i = 6 \<or> i = 8 \<or> i = 10 then ''-'' else []) @ hex_byte (bs ! i)) [0..<16])"

definition forbidden_byte :: "char \<Rightarrow> bool" where
  "forbidden_byte c = (byte c = 0 \<or> byte c = 10 \<or> byte c = 13)"

fun uuid_fields :: "nat \<Rightarrow> string \<Rightarrow> string list \<Rightarrow> string result" where
  "uuid_fields index bs [] = Inr bs"
| "uuid_fields index bs (f # fs) =
     (if list_ex forbidden_byte f
      then Inl (InvalidArgument ''UUIDv5 field contains a forbidden delimiter byte'')
      else uuid_fields (Suc index) ((if index \<noteq> 0 then bs @ [chr 10] else bs) @ f) fs)"

definition stamp_uuid :: "u8 \<Rightarrow> u8 list \<Rightarrow> u8 list" where
  "stamp_uuid version bs =
     (let u = take 16 bs in u[6 := (u ! 6 AND 0x0f) OR version, 8 := (u ! 8 AND 0x3f) OR 0x80])"

definition uuid_v5 :: "string \<Rightarrow> string list \<Rightarrow> string result" where
  "uuid_v5 namespace_uuid fields =
     ebind (decode_uuid namespace_uuid) (\<lambda>ns.
     ebind (uuid_fields 0 (map (\<lambda>b. chr (unat b)) ns) fields) (\<lambda>bs.
       Inr (encode_uuid (stamp_uuid 0x50 (sha1 bs)))))"

definition random_uuid :: "u8 list \<Rightarrow> string" where
  "random_uuid random = encode_uuid (stamp_uuid 0x40 random)"

section \<open>Lengths and alphabets\<close>

lemma length_pad_loop: "length (pad_loop m) mod 64 = 56"
  by (induction m rule: pad_loop.induct) (subst pad_loop.simps, auto)

lemma length_padded: "length (padded s) mod 64 = 0"
proof -
  have "length (padded s) mod 64 = (length (pad_loop (bytes_of s @ [0x80])) mod 64 + 8) mod 64"
    by (simp add: padded_def Let_def length_bytes_def mod_simps add.commute)
  then show ?thesis by (simp add: length_pad_loop)
qed

lemma length_word_bytes [simp]: "length (word_bytes w) = 4"
  by (simp add: word_bytes_def)

lemma length_sha256 [simp]: "length (sha256 s) = 32"
  by (simp add: sha256_def split: prod.splits)

lemma length_sha1 [simp]: "length (sha1 s) = 20"
  by (simp add: sha1_def split: prod.splits)

lemma nibble_bounds [simp]: "unat (drop_bit 4 (b :: u8)) < 16" "unat (b AND 0x0f) < 16"
proof -
  have "unat (drop_bit 4 b) = unat b div 16"
    unfolding unat_drop_bit_eq by (simp add: drop_bit_eq_div)
  moreover have "unat b < 256" using unsigned_less [where 'a = nat, of b] by simp
  ultimately show "unat (drop_bit 4 b) < 16" by auto
  have "unat (b AND 0x0f) \<le> unat (0x0f :: u8)"
    by (rule word_and_le1 [THEN word_le_nat_alt [THEN iffD1]])
  then show "unat (b AND 0x0f) < 16" by simp
qed

lemma hex_encode_length [simp]: "length (hex_encode d) = 2 * length d"
  by (induction d) (auto simp: hex_encode_def hex_byte_def)

lemma hex_encode_lower_hex: "list_all is_lower_hex (hex_encode d)"
  by (induction d) (auto simp: hex_encode_def hex_byte_def)

lemma sha256_hex_is_sha256: "is_sha256 (sha256_hex s)"
  by (simp add: is_sha256_def sha256_hex_def hex_encode_lower_hex)

section \<open>Round trips of the text forms\<close>

lemma hex_value_hex_digit [simp]: "n < 16 \<Longrightarrow> hex_value (hex_digit n) = int n"
  by (auto simp: hex_value_def is_digit_def byte_hex_digit)

lemma nibbles_byte_split [simp]: "nibbles_byte (uint (drop_bit 4 b)) (uint (b AND 0x0f)) = b"
proof -
  have "uint (b AND 0x0f) = uint b AND 15"
    unfolding unsigned_and_eq by simp
  also have "\<dots> = take_bit 4 (uint b)"
    by (simp add: take_bit_eq_mask mask_eq_exp_minus_1)
  finally have "uint (b AND 0x0f) = take_bit 4 (uint b)" .
  moreover have "push_bit 4 (drop_bit 4 n) OR take_bit 4 n = n" for n :: int
    by (auto simp: bit_eq_iff bit_simps)
  moreover have "take_bit 8 (uint b) = uint b"
    using unsigned_less [where 'a = int, of b] by (simp add: take_bit_int_eq_self_iff)
  ultimately show ?thesis by (simp add: nibbles_byte_def unsigned_drop_bit_eq)
qed

lemma hex_byte_values:
  "hex_byte b = [h, l] \<Longrightarrow> hex_value h = uint (drop_bit 4 b) \<and> hex_value l = uint (b AND 0x0f)"
  by (auto simp: hex_byte_def simp del: nibble_bounds(2) intro!: hex_value_hex_digit [THEN trans] nibble_bounds)

lemma hex_pairs_encode: "hex_pairs (hex_encode d) = Inr d"
  by (induction d) (auto simp: hex_encode_def hex_byte_def)

lemma hex_decode_encode: "length d = 32 \<Longrightarrow> hex_decode_sha256 (hex_encode d) = Inr d"
  by (simp add: hex_decode_sha256_def hex_pairs_encode)

lemma is_lower_hex_value: "is_lower_hex c \<longleftrightarrow> 0 \<le> hex_value c"
  by (auto simp: is_lower_hex_def hex_value_def is_digit_def)

lemma hex_digit_value: "is_lower_hex c \<Longrightarrow> hex_digit (nat (hex_value c)) = c \<and> hex_value c < 16"
  by (auto simp: is_lower_hex_def hex_value_def is_digit_def hex_digit_def nat_diff_distrib simp flip: byte_inj)

lemma hex_byte_nibbles:
  assumes "is_lower_hex h" "is_lower_hex l"
  shows "hex_byte (nibbles_byte (hex_value h) (hex_value l)) = [h, l]"
proof -
  define x y where "x = hex_value h" and "y = hex_value l"
  have b: "0 \<le> x" "x < 16" "0 \<le> y" "y < 16"
    using assms hex_digit_value [of h] hex_digit_value [of l] by (auto simp: x_def y_def is_lower_hex_value)
  have all: "\<forall>i\<in>set [0..<16]. \<forall>j\<in>set [0..<16].
      push_bit 4 (int i) OR int j < 256 \<and> (push_bit 4 (int i) OR int j) div 16 = int i \<and>
      (push_bit 4 (int i) OR int j) mod 16 = int j"
    by code_simp
  have v: "push_bit 4 x OR y < 256" "(push_bit 4 x OR y) div 16 = x" "(push_bit 4 x OR y) mod 16 = y"
    using b all [THEN bspec, of "nat x", THEN bspec, of "nat y"] by auto
  define n where "n = push_bit 4 x OR y"
  have n: "0 \<le> n" "n < 256" "n div 16 = x" "n mod 16 = y" using v b by (auto simp: n_def)
  then have t: "take_bit 8 n = n" by (simp add: take_bit_int_eq_self_iff)
  then have u: "uint (nibbles_byte x y) = n"
    by (simp add: nibbles_byte_def uint_word_of_int_eq flip: n_def)
  have "uint (drop_bit 4 (nibbles_byte x y)) = x"
    unfolding unsigned_drop_bit_eq u using n t by (simp add: drop_bit_eq_div)
  moreover have "uint (nibbles_byte x y AND 0x0f) = y"
    unfolding unsigned_and_eq u using n take_bit_eq_mask [of 4 n]
    by (simp add: mask_eq_exp_minus_1 take_bit_eq_mod)
  ultimately show ?thesis
    using assms hex_digit_value by (simp add: hex_byte_def unat_eq_nat_uint x_def y_def)
qed

lemma hex_pairs_inverse:
  "even (length s) \<Longrightarrow> list_all is_lower_hex s \<Longrightarrow>
   \<exists>d. hex_pairs s = Inr d \<and> hex_encode d = s"
proof (induction s rule: hex_pairs.induct)
  case (1 h l r)
  then obtain d where "hex_pairs r = Inr d" "hex_encode d = r"
    by (auto simp: is_lower_hex_value not_less)
  with "1.prems" show ?case
    by (auto simp: hex_encode_def hex_byte_nibbles is_lower_hex_value not_less)
qed (auto simp: hex_encode_def)

lemma hex_decode_accepts:
  "is_sha256 s \<longleftrightarrow> (\<exists>d. hex_decode_sha256 s = Inr d \<and> length d = 32 \<and> hex_encode d = s)"
proof
  assume s: "is_sha256 s"
  then obtain d where d: "hex_pairs s = Inr d" "hex_encode d = s"
    using hex_pairs_inverse [of s] by (auto simp: is_sha256_def)
  moreover have "length d = 32" using s d(2) hex_encode_length [of d] by (simp add: is_sha256_def)
  ultimately show "\<exists>d. hex_decode_sha256 s = Inr d \<and> length d = 32 \<and> hex_encode d = s"
    using s by (auto simp: hex_decode_sha256_def is_sha256_def)
next
  assume "\<exists>d. hex_decode_sha256 s = Inr d \<and> length d = 32 \<and> hex_encode d = s"
  then show "is_sha256 s"
    using hex_encode_lower_hex by (auto simp: is_sha256_def)
qed

text \<open>UUID text: sixteen bytes written with hyphens after bytes 4, 6, 8 and 10.\<close>

lemma sixteen_bytes:
  assumes "length bs = 16"
  obtains a0 a1 a2 a3 a4 a5 a6 a7 a8 a9 a10 a11 a12 a13 a14 a15
    where "bs = [a0, a1, a2, a3, a4, a5, a6, a7, a8, a9, a10, a11, a12, a13, a14, a15]"
  using assms by (auto simp: length_Suc_conv numeral_eq_Suc)

lemma encode_uuid_explicit:
  assumes "length bs = 16"
  shows "encode_uuid bs =
    hex_encode (take 4 bs) @ ''-'' @ hex_encode (take 2 (drop 4 bs)) @ ''-'' @
    hex_encode (take 2 (drop 6 bs)) @ ''-'' @ hex_encode (take 2 (drop 8 bs)) @ ''-'' @
    hex_encode (drop 10 bs)"
proof -
  obtain a0 a1 a2 a3 a4 a5 a6 a7 a8 a9 a10 a11 a12 a13 a14 a15
    where bs: "bs = [a0, a1, a2, a3, a4, a5, a6, a7, a8, a9, a10, a11, a12, a13, a14, a15]"
    using assms by (rule sixteen_bytes)
  have "[0..<16] = [0, 1, 2, 3, 4, 5, 6, 7, 8, 9, 10, 11, 12, 13, 14, 15 :: nat]" by code_simp
  then show ?thesis by (simp add: bs encode_uuid_def hex_encode_def)
qed

lemma encode_uuid_length [simp]: "length bs = 16 \<Longrightarrow> length (encode_uuid bs) = 36"
  by (simp add: encode_uuid_explicit)

lemma decode_loop_hex:
  "length bs + length d \<le> 16 \<Longrightarrow>
   decode_loop (hex_encode d @ s) (-1) bs = decode_loop s (-1) (bs @ d)"
proof (induction d arbitrary: bs)
  case (Cons b d)
  have h: "byte (hex_digit n) \<noteq> 45" if "n < 16" for n using that by (simp add: byte_hex_digit)
  have "decode_loop (hex_byte b @ hex_encode d @ s) (-1) bs = decode_loop (hex_encode d @ s) (-1) (bs @ [b])"
    using Cons.prems h by (simp add: hex_byte_def)
  with Cons show ?case by (simp add: hex_encode_def)
qed (simp add: hex_encode_def)

lemma uuid_hyphens:
  assumes "length bs = 16"
  shows "byte (encode_uuid bs ! 8) = 45" "byte (encode_uuid bs ! 13) = 45"
    "byte (encode_uuid bs ! 18) = 45" "byte (encode_uuid bs ! 23) = 45"
  using assms by (simp_all add: encode_uuid_explicit nth_append)

lemma decode_encode_uuid:
  assumes "length bs = 16"
  shows "decode_uuid (encode_uuid bs) = Inr bs"
proof -
  have parts: "take 4 bs @ take 2 (drop 4 bs) @ take 2 (drop 6 bs) @ take 2 (drop 8 bs) @ drop 10 bs = bs"
    by (rule sixteen_bytes [OF assms]) simp
  have "decode_loop (encode_uuid bs) (-1) [] = Inr (-1, bs)"
    using assms decode_loop_hex [of _ "drop 10 bs" "[]"]
    by (simp add: encode_uuid_explicit decode_loop_hex parts)
  with assms show ?thesis by (simp add: decode_uuid_def uuid_hyphens)
qed

lemma hex_encode_uuid_char:
  "i < 2 * length d \<Longrightarrow> k \<notin> {8, 13, 18, 23} \<Longrightarrow> uuid_char k (hex_encode d ! i)"
  using hex_encode_lower_hex [of d] by (auto simp: uuid_char_def is_lower_hex_def list_all_length)

lemma is_uuid_encode:
  assumes "length bs = 16"
  shows "is_uuid (encode_uuid bs)"
proof -
  have "uuid_char i (encode_uuid bs ! i)" if "i < 36" for i
  proof (cases "i \<in> {8, 13, 18, 23}")
    case True
    with assms show ?thesis by (auto simp: uuid_hyphens uuid_char_def)
  next
    case False
    then have i: "i \<noteq> 8" "i \<noteq> 13" "i \<noteq> 18" "i \<noteq> 23" by auto
    with that assms show ?thesis
      by (auto simp: encode_uuid_explicit nth_append nth_Cons' intro!: hex_encode_uuid_char)
  qed
  with assms show ?thesis by (simp add: is_uuid_def)
qed

lemma length_stamp_uuid: "16 \<le> length bs \<Longrightarrow> length (stamp_uuid v bs) = 16"
  by (simp add: stamp_uuid_def Let_def)

lemma uuid_fields_total: "\<forall>f\<in>set fs. \<not> list_ex forbidden_byte f \<Longrightarrow> \<exists>t. uuid_fields i bs fs = Inr t"
  by (induction i bs fs rule: uuid_fields.induct) auto

text \<open>
  A name-based identifier is a well-formed UUID in the lowercase form that \<open>decode_uuid\<close> accepts, so
  it may in turn serve as a namespace.
\<close>

lemma uuid_v5_ok:
  assumes "uuid_v5 ns fs = Inr u"
  shows "is_uuid u" "\<exists>bs. decode_uuid u = Inr bs"
  using assms is_uuid_encode decode_encode_uuid length_stamp_uuid
  by (auto simp: uuid_v5_def result_simps)

lemma uuid_v5_total:
  assumes "decode_uuid ns = Inr bs" "\<forall>f\<in>set fs. \<not> list_ex forbidden_byte f"
  shows "\<exists>u. uuid_v5 ns fs = Inr u"
  using assms uuid_fields_total [OF assms(2), of 0 "map (\<lambda>b. chr (unat b)) bs"]
  by (auto simp: uuid_v5_def)

lemma random_uuid_ok:
  assumes "length random = 16"
  shows "is_uuid (random_uuid random)" "\<exists>bs. decode_uuid (random_uuid random) = Inr bs"
  using assms is_uuid_encode decode_encode_uuid length_stamp_uuid by (auto simp: random_uuid_def)

section \<open>Properties\<close>

lemma hex_pairs_lower_hex: "even (length s) \<Longrightarrow> hex_pairs s = Inr d \<Longrightarrow> list_all is_lower_hex s"
  by (induction s arbitrary: d rule: hex_pairs.induct)
     (auto simp: is_lower_hex_value result_simps split: if_splits)

text \<open>The digest decoder accepts exactly the 64-character lowercase texts that \<open>is_sha256\<close> recognises, and
  its result encodes back to the same text.\<close>

theorem hex_decode_iff:
  "(case hex_decode_sha256 s of
      Inl e \<Rightarrow> \<not> is_sha256 s
    | Inr d \<Rightarrow> is_sha256 s \<and> length d = 32 \<and> hex_encode d = s)"
proof (cases "is_sha256 s")
  case True
  then show ?thesis using hex_decode_accepts [of s] by auto
next
  case False
  then show ?thesis
    using hex_pairs_lower_hex [of s] by (auto simp: hex_decode_sha256_def is_sha256_def split: sum.splits if_splits)
qed

lemma stamp_uuid_bits:
  assumes "16 \<le> length bs"
  shows "drop_bit 4 (stamp_uuid (0x50 :: u8) bs ! 6) = 5" "drop_bit 6 (stamp_uuid (0x50 :: u8) bs ! 8) = 2"
  using assms by (auto simp: stamp_uuid_def Let_def nth_list_update intro!: bit_word_eqI)

text \<open>C30: a name-based identifier is a UUID in the lowercase form the decoder accepts, with version 5 and the
  RFC 4122 variant in its bits.\<close>

theorem uuid_v5_shape:
  assumes "uuid_v5 ns fs = Inr u"
  shows "is_uuid u \<and> (\<exists>bs. decode_uuid u = Inr bs \<and> encode_uuid bs = u \<and> drop_bit 4 (bs ! 6) = 5 \<and> drop_bit 6 (bs ! 8) = 2)"
proof -
  from assms obtain ns bs where u: "u = encode_uuid (stamp_uuid 0x50 (sha1 bs))"
    by (auto simp: uuid_v5_def result_simps)
  have "16 \<le> length (sha1 bs)" by simp
  from length_stamp_uuid [OF this] stamp_uuid_bits [OF this] u show ?thesis
    using is_uuid_encode decode_encode_uuid by blast
qed

theorem uuid_v5_shape_witness:
  "\<exists>u. uuid_v5 ''6ba7b810-9dad-11d1-80b4-00c04fd430c8'' [''unit'', ''function''] = Inr u \<and> is_uuid u"
proof -
  have "\<not> isl (decode_uuid ''6ba7b810-9dad-11d1-80b4-00c04fd430c8'')" by code_simp
  then have "\<exists>bs. decode_uuid ''6ba7b810-9dad-11d1-80b4-00c04fd430c8'' = Inr bs" by (simp add: isl_def) (metis sum.exhaust)
  moreover have "\<forall>f\<in>set [''unit'', ''function'']. \<not> list_ex forbidden_byte f" by code_simp
  ultimately obtain u where "uuid_v5 ''6ba7b810-9dad-11d1-80b4-00c04fd430c8'' [''unit'', ''function''] = Inr u"
    using uuid_v5_total by blast
  with uuid_v5_shape show ?thesis by blast
qed

end
