(* ===== verification/Protocol.thy ===== *)
theory Protocol
  imports Digest
begin

text \<open>
  \<^verbatim>\<open>src/runtime/protocol.cpp\<close> without \<open>canonical\<close>: RFC 3339 timestamps, the credential exchange,
  retry timing, message keys, delivery acknowledgements and the assembly of a telemetry frame.
\<close>

section \<open>Timestamps\<close>

fun number_loop :: "int \<Rightarrow> string \<Rightarrow> int" where
  "number_loop n [] = n"
| "number_loop n (c # cs) = (if \<not> is_digit c then -1 else number_loop (n * 10 + int (byte c) - 48) cs)"

definition number_at :: "string \<Rightarrow> nat \<Rightarrow> nat \<Rightarrow> int" where
  "number_at t start len = number_loop 0 (take len (drop start t))"

definition leap_year :: "int \<Rightarrow> bool" where
  "leap_year y = (y mod 4 = 0 \<and> (y mod 100 \<noteq> 0 \<or> y mod 400 = 0))"

definition month_days :: "int \<Rightarrow> int \<Rightarrow> int" where
  "month_days y m =
     [0, 31, 28, 31, 30, 31, 30, 31, 31, 30, 31, 30, 31] ! nat m + (if m = 2 \<and> leap_year y then 1 else 0)"

text \<open>The part of the text from position 19: an optional fraction, then \<open>Z\<close> or a numeric offset.\<close>

definition zone_suffix :: "string \<Rightarrow> bool" where
  "zone_suffix s =
     (case s of [] \<Rightarrow> False
      | c # r \<Rightarrow>
          if byte c = 90 \<or> byte c = 122 then r = []
          else if (byte c \<noteq> 43 \<and> byte c \<noteq> 45) \<or> length s \<noteq> 6 \<or> byte (s ! 3) \<noteq> 58 then False
          else (let zone_hour = number_at s 1 2; zone_minute = number_at s 4 2
                in 0 \<le> zone_hour \<and> zone_hour \<le> 23 \<and> 0 \<le> zone_minute \<and> zone_minute \<le> 59))"

definition time_suffix :: "string \<Rightarrow> bool" where
  "time_suffix s =
     (case s of [] \<Rightarrow> False
      | c # r \<Rightarrow>
          if byte c = 46 then
            takeWhile is_digit r \<noteq> [] \<and> dropWhile is_digit r \<noteq> [] \<and> zone_suffix (dropWhile is_digit r)
          else zone_suffix s)"

definition date_time :: "string \<Rightarrow> bool" where
  "date_time t =
     (if length t < 20 \<or> length t > 128 \<or> byte (t ! 4) \<noteq> 45 \<or> byte (t ! 7) \<noteq> 45 \<or>
         (byte (t ! 10) \<noteq> 84 \<and> byte (t ! 10) \<noteq> 116) \<or> byte (t ! 13) \<noteq> 58 \<or> byte (t ! 16) \<noteq> 58
      then False
      else let year = number_at t 0 4; month = number_at t 5 2; day = number_at t 8 2;
               hour = number_at t 11 2; minute = number_at t 14 2; second = number_at t 17 2
           in if year < 0 \<or> month < 1 \<or> month > 12 \<or> day < 1 \<or> hour < 0 \<or> hour > 23 \<or>
                 minute < 0 \<or> minute > 59 \<or> second < 0 \<or> second > 60 then False
              else if day > month_days year month then False
              else time_suffix (drop 19 t))"

text \<open>
  \<^verbatim>\<open>gmtime_r\<close> splits a second count into a proleptic Gregorian date and a time of day: whole years
  are taken off from 1970, then whole months of the year reached.
\<close>

definition year_days :: "int \<Rightarrow> nat" where
  "year_days y = (if leap_year y then 366 else 365)"

function civil_year :: "int \<Rightarrow> nat \<Rightarrow> int \<times> nat" where
  "civil_year y days = (if days < year_days y then (y, days) else civil_year (y + 1) (days - year_days y))"
  by pat_completeness auto
termination
  by (relation "measure snd") (auto simp: year_days_def)

declare civil_year.simps [simp del]

fun civil_month :: "nat \<Rightarrow> int \<Rightarrow> int \<Rightarrow> nat \<Rightarrow> int \<times> nat" where
  "civil_month 0 y m days = (m, days)"
| "civil_month (Suc left) y m days =
     (if days < nat (month_days y m) then (m, days)
      else civil_month left y (m + 1) (days - nat (month_days y m)))"

text \<open>\<^verbatim>\<open>%m\<close>, \<^verbatim>\<open>%d\<close>, \<^verbatim>\<open>%H\<close>, \<^verbatim>\<open>%M\<close>, \<^verbatim>\<open>%S\<close> and the milliseconds are zero-padded.\<close>

definition padded_nat :: "nat \<Rightarrow> nat \<Rightarrow> string" where
  "padded_nat width n = replicate (width - length (show_nat n)) (chr 48) @ show_nat n"

definition strftime :: "nat \<Rightarrow> string" where
  "strftime epoch =
     (let (year, yday) = civil_year 1970 (epoch div 86400);
          (month, mday) = civil_month 11 year 1 yday;
          second = epoch mod 86400
      in show_int year @ ''-'' @ padded_nat 2 (nat month) @ ''-'' @ padded_nat 2 (mday + 1) @ ''T'' @
         padded_nat 2 (second div 3600) @ '':'' @ padded_nat 2 (second mod 3600 div 60) @ '':'' @
         padded_nat 2 (second mod 60))"

definition utc_timestamp :: "int \<Rightarrow> string result" where
  "utc_timestamp epoch_ms =
     (if epoch_ms < 0 then Inl (InvalidArgument ''TIME_INVALID'')
      else Inr (strftime (nat (epoch_ms div 1000)) @ ''.'' @ padded_nat 3 (nat (epoch_ms mod 1000)) @ ''Z''))"

section \<open>Credentials\<close>

record Credential =
  token :: string
  expires :: int
  renew_after :: int
  code :: string
  retryable :: bool

definition credential_request :: "string \<Rightarrow> string result" where
  "credential_request secret =
     (if secret = [] then Inl (InvalidArgument ''AOS_SECRET_UNAVAILABLE'')
      else ebind (quote_json secret) (\<lambda>q.
        let request = ''{'' @ [chr 34] @ ''protocol'' @ [chr 34] @ '':'' @ [chr 34] @ ''aos-kuksa-auth-compat/v1'' @ [chr 34] @
              '','' @ [chr 34] @ ''operation'' @ [chr 34] @ '':'' @ [chr 34] @ ''issue'' @ [chr 34] @
              '','' @ [chr 34] @ ''aosSecret'' @ [chr 34] @ '':'' @ q @ ''}'' @ [chr 10]
        in if length request > 16384 then Inl (InvalidArgument ''AOS_SECRET_INVALID'') else Inr request))"

definition KAC_INVALID :: exn where
  "KAC_INVALID = InvalidArgument ''KAC_RESPONSE_INVALID''"

definition object_size :: "json \<Rightarrow> nat result" where
  "object_size j = emap length (json_object j)"

definition token_char :: "char \<Rightarrow> bool" where
  "token_char c = (is_lower c \<or> is_upper c \<or> is_digit c \<or> byte c = 46 \<or> byte c = 95 \<or> byte c = 45)"

text \<open>The shape of a compact JWT: three non-empty parts over the token alphabet.\<close>

fun has_double_dot :: "string \<Rightarrow> bool" where
  "has_double_dot (a # b # s) = (byte a = 46 \<and> byte b = 46 \<or> has_double_dot (b # s))"
| "has_double_dot _ = False"

definition token_malformed :: "string \<Rightarrow> bool" where
  "token_malformed t =
     (t = [] \<or> length t > 16384 \<or> byte (hd t) = 46 \<or> byte (last t) = 46 \<or> has_double_dot t \<or>
      length (filter (\<lambda>c. byte c = 46) t) \<noteq> 2 \<or> \<not> list_all token_char t)"

definition parse_rejection :: "json \<Rightarrow> Credential result" where
  "parse_rejection j =
     ebind (object_size j) (\<lambda>n.
     if n \<noteq> 5 then Inl KAC_INVALID else
     ebind (at_string j ''code'') (\<lambda>c.
     ebind (at_boolean j ''retryable'') (\<lambda>r.
       let retry = (c \<in> set [''IAM_UNAVAILABLE'', ''SIGNER_UNAVAILABLE'', ''TIME_UNTRUSTED'', ''BUSY''])
       in if r \<noteq> retry \<or> (\<not> retry \<and>
             c \<notin> set [''INVALID_REQUEST'', ''DENIED'', ''POLICY_UNSUPPORTED'', ''INTERNAL_ERROR''])
          then Inl KAC_INVALID
          else Inr \<lparr>token = [], expires = 0, renew_after = 0, code = c, retryable = r\<rparr>)))"

text \<open>
  The code subtracts 64-bit integers. With the bounds on the time of expiry, and a time of renewal after \<open>now\<close>, the difference is in range, and the
  last test refuses every other time of renewal, so the integers of the model decide alike.
\<close>

definition parse_issued :: "json \<Rightarrow> int \<Rightarrow> Credential result" where
  "parse_issued j now =
     ebind (at_string j ''token'') (\<lambda>t.
     ebind (at_integer j ''expiresAtUnixSeconds'') (\<lambda>ex.
     ebind (at_integer j ''renewAfterUnixSeconds'') (\<lambda>ra.
       if token_malformed t \<or> ex \<le> now \<or> ex > now + 300 \<or> ex - ra \<noteq> 120 \<or> ra \<le> now
       then Inl KAC_INVALID
       else Inr \<lparr>token = t, expires = ex, renew_after = ra, code = [], retryable = False\<rparr>)))"

definition parse_credential :: "string \<Rightarrow> int \<Rightarrow> Credential result" where
  "parse_credential response now =
     (if response = [] \<or> byte (last response) \<noteq> 10 \<or> length response > 32768 then Inl KAC_INVALID
      else ebind (parse_json response 32768) (\<lambda>j.
      ebind (ethrow_if (eany [emap (\<lambda>p. p \<noteq> ''aos-kuksa-auth-compat/v1'') (at_string j ''protocol''),
                              emap (\<lambda>c. c = []) (at_string j ''correlationId'')]) KAC_INVALID) (\<lambda>_.
      ebind (at_string j ''status'') (\<lambda>status.
        if status = ''rejected'' then parse_rejection j
        else ebind (ethrow_if (eany [Inr (status \<noteq> ''issued''), emap (\<lambda>n. n \<noteq> 6) (object_size j)]) KAC_INVALID)
               (\<lambda>_. parse_issued j now)))))"

section \<open>Retries\<close>

definition retryable_http :: "int \<Rightarrow> bool" where
  "retryable_http status =
     (status = 0 \<or> status = 408 \<or> status = 425 \<or> status = 429 \<or> status = 500 \<or> status = 502 \<or>
      status = 503 \<or> status = 504)"

text \<open>\<open>None\<close> marks a conversion to \<^verbatim>\<open>int\<close> outside its range, which \<open>retry_delay_defined\<close> excludes.\<close>

definition retry_delay :: "nat \<Rightarrow> double \<Rightarrow> int \<Rightarrow> int option result" where
  "retry_delay attempt jitter retry_after =
     (if \<not> isfinite jitter \<or> dless jitter (dneg (rnd (2 / 10))) \<or> dless (rnd (2 / 10)) jitter \<or> retry_after < 0
      then Inl (InvalidArgument ''RETRY_INVALID'')
      else let base = min 30 (2 ^ min attempt 5) :: int;
               d = dceil (dmul (Fin (of_int base)) (dadd (Fin 1) jitter))
           in Inr (map_option (\<lambda>n. max retry_after (max 1 (min n 30))) (cast_int d)))"

section \<open>Messages and acknowledgements\<close>

record HttpResponse =
  http_status :: int
  http_body :: string
  http_retry_after :: int

definition key_field :: "string \<Rightarrow> string" where
  "key_field kind =
     (if kind = ''TIRE_HEALTH_ASSESSMENT'' then ''assessmentId''
      else if kind = ''TIRE_CONDITION_BAND_CHANGED'' then ''eventId''
      else if kind = ''TIRE_ADVISORY_FACT'' then ''requestId''
      else if kind = ''TIRE_FUNCTION_STATUS'' then ''statusId'' else [])"

definition key_json :: "json \<Rightarrow> json result" where
  "key_json msg =
     ebind (at_string msg ''messageType'') (\<lambda>kind.
     if key_field kind = [] then Inl (InvalidArgument ''MESSAGE_KIND_INVALID'') else
     ebind (json_at msg ''unitSystemUid'') (\<lambda>uid.
     ebind (json_at msg (key_field kind)) (\<lambda>i.
       if kind = ''TIRE_ADVISORY_FACT''
       then ebind (json_at msg ''gatewayState'') (\<lambda>g. Inr (JArray [uid, JString kind, i, g]))
       else Inr (JArray [uid, JString kind, i]))))"

definition message_key :: "json \<Rightarrow> string result" where
  "message_key msg = ebind (key_json msg) (\<lambda>k. emap sha256_hex (canonical k))"

definition ack_matches :: "json \<Rightarrow> json \<Rightarrow> bool result" where
  "ack_matches msg ack =
     eall [emap (\<lambda>n. n = 7) (object_size ack),
           emap (\<lambda>v. v = 1) (at_integer ack ''schemaVersion''),
           emap (\<lambda>v. v = ''1.0.0'') (at_string ack ''contractVersion''),
           emap is_uuid (at_string ack ''receiptId''),
           emap date_time (at_string ack ''receivedAt''),
           emap (\<lambda>v. v = ''DURABLE_ACCEPTED'' \<or> v = ''DUPLICATE_ACCEPTED'') (at_string ack ''state''),
           ebind (at_string ack ''messageKeySha256'') (\<lambda>a. emap (\<lambda>k. a = k) (message_key msg)),
           ebind (at_string ack ''contentSha256'') (\<lambda>a. emap (\<lambda>k. a = k) (at_string msg ''contentSha256''))]"

definition matches_ack :: "string \<Rightarrow> HttpResponse \<Rightarrow> bool" where
  "matches_ack bytes response =
     (if http_status response \<noteq> 200 \<and> http_status response \<noteq> 201 then False
      else case ebind (parse_json bytes 16384) (\<lambda>msg.
                ebind (parse_json (http_body response) 8192) (\<lambda>ack. ack_matches msg ack)) of
             Inl _ \<Rightarrow> False | Inr b \<Rightarrow> b)"

section \<open>Telemetry frames\<close>

record Signal =
  sig_value :: double
  sig_epoch_ms :: int
  sig_valid :: bool

record Frame =
  frame_values :: "double list"
  frame_epoch_ms :: int

definition signal_usable :: "int \<Rightarrow> int \<Rightarrow> Signal \<Rightarrow> bool" where
  "signal_usable epoch wall_ms s =
     (sig_valid s \<and> isfinite (sig_value s) \<and> sig_epoch_ms s = epoch \<and> \<not> wall_ms < epoch \<and>
      \<not> wall_ms - epoch > 250)"

definition complete_frame :: "Signal list \<Rightarrow> int \<Rightarrow> Frame option" where
  "complete_frame signals wall_ms =
     (let epoch = sig_epoch_ms (signals ! 0); vs = map sig_value signals
      in if \<not> list_all (signal_usable epoch wall_ms) signals then None
         else if dless (vs ! 0) (Fin 0) \<or> list_ex (\<lambda>v. dless v (Fin 0)) (take 4 (drop 3 vs)) then None
         else Some \<lparr>frame_values = vs, frame_epoch_ms = epoch\<rparr>)"

section \<open>Properties\<close>

text \<open>C26: \<open>matches_ack\<close> accepts a response exactly when it is a 200 or 201 whose seven-member body names the
  key and the content digest of the very message that was sent.\<close>

theorem matches_ack_iff:
  "matches_ack bytes response \<longleftrightarrow>
    (http_status response = 200 \<or> http_status response = 201) \<and>
    (\<exists>msg ack key content receipt since st. parse_json bytes 16384 = Inr msg \<and> parse_json (http_body response) 8192 = Inr ack \<and>
       object_size ack = Inr 7 \<and> at_integer ack ''schemaVersion'' = Inr 1 \<and> at_string ack ''contractVersion'' = Inr ''1.0.0'' \<and>
       message_key msg = Inr key \<and> at_string ack ''messageKeySha256'' = Inr key \<and>
       at_string msg ''contentSha256'' = Inr content \<and> at_string ack ''contentSha256'' = Inr content \<and>
       at_string ack ''state'' = Inr st \<and> (st = ''DURABLE_ACCEPTED'' \<or> st = ''DUPLICATE_ACCEPTED'') \<and>
       at_string ack ''receiptId'' = Inr receipt \<and> is_uuid receipt \<and> at_string ack ''receivedAt'' = Inr since \<and> date_time since)"
proof -
  have A: "ack_matches msg ack = Inr True \<longleftrightarrow> (\<exists>key content receipt since st.
       object_size ack = Inr 7 \<and> at_integer ack ''schemaVersion'' = Inr 1 \<and> at_string ack ''contractVersion'' = Inr ''1.0.0'' \<and>
       message_key msg = Inr key \<and> at_string ack ''messageKeySha256'' = Inr key \<and>
       at_string msg ''contentSha256'' = Inr content \<and> at_string ack ''contentSha256'' = Inr content \<and>
       at_string ack ''state'' = Inr st \<and> (st = ''DURABLE_ACCEPTED'' \<or> st = ''DUPLICATE_ACCEPTED'') \<and>
       at_string ack ''receiptId'' = Inr receipt \<and> is_uuid receipt \<and> at_string ack ''receivedAt'' = Inr since \<and> date_time since)"
    for msg ack
    unfolding ack_matches_def eall_True
    by (simp add: emap_eq_Inr ebind_eq_Inr) metis
  have "matches_ack bytes response \<longleftrightarrow> (http_status response = 200 \<or> http_status response = 201) \<and>
    (\<exists>msg ack. parse_json bytes 16384 = Inr msg \<and> parse_json (http_body response) 8192 = Inr ack \<and> ack_matches msg ack = Inr True)"
    by (cases "parse_json bytes 16384"; cases "parse_json (http_body response) 8192")
       (auto simp: matches_ack_def split: sum.splits)
  then show ?thesis unfolding A by simp
qed

lemma key_json_typed:
  assumes "json_typed 23 j" "key_json j = Inr q"
  shows "json_typed 24 q"
proof -
  have at: "json_typed 23 v" if "json_at j k = Inr v" for k v
    using json_at_typed [OF assms(1) that] json_typed_mono [of 22 v 23] by simp
  have kinds: "json_typed 23 (JString k)" if "key_field k \<noteq> []" for k
    using that by (auto simp: key_field_def split: if_splits; code_simp)
  from assms(2) obtain kind uid i rest where "key_field kind \<noteq> []" "json_at j ''unitSystemUid'' = Inr uid"
    "json_at j (key_field kind) = Inr i" "q = JArray (uid # JString kind # i # rest)"
    "rest = [] \<or> (\<exists>g. rest = [g] \<and> json_at j ''gatewayState'' = Inr g)"
    unfolding key_json_def ebind_eq_Inr by (auto simp: ebind_eq_Inr split: if_splits)
  then show ?thesis using at kinds by auto
qed

text \<open>A message key is a SHA-256 text, and two messages with the same key carry the same identifying
  fields, unless two texts with the same SHA-256 digest exist.\<close>

theorem message_key_sound:
  assumes "json_typed 23 m" "json_typed 23 n" "message_key m = Inr k" "message_key n = Inr k"
  shows "is_sha256 k \<and> (key_json m = key_json n \<or> (\<exists>s t. s \<noteq> t \<and> sha256_hex s = sha256_hex t))"
proof -
  obtain a b s t where ab: "key_json m = Inr a" "key_json n = Inr b" "canonical a = Inr s" "canonical b = Inr t"
    "sha256_hex s = k" "sha256_hex t = k"
    using assms(3,4) by (auto simp: message_key_def result_simps)
  have "json_wf a \<and> json_depth a \<le> 24" "json_wf b \<and> json_depth b \<le> 24"
    using key_json_typed ab assms(1,2) json_typed_wf by blast+
  then have "s = t \<Longrightarrow> a = b" using ab canon.encode_inj by blast
  moreover have "is_sha256 k" using ab sha256_hex_is_sha256 by metis
  ultimately show ?thesis using ab by metis
qed

theorem message_key_sound_witness:
  "is_sha256 (sha256_hex ''[\"u\",\"TIRE_HEALTH_ASSESSMENT\",\"a1\"]'')"
  (is "is_sha256 (sha256_hex ?t)")
proof -
  let ?m = "JObject [(''assessmentId'', JString ''a1''), (''messageType'', JString ''TIRE_HEALTH_ASSESSMENT''), (''unitSystemUid'', JString ''u'')]"
  let ?k = "JArray [JString ''u'', JString ''TIRE_HEALTH_ASSESSMENT'', JString ''a1'']"
  have "key_json ?m = Inr ?k" "canonical ?k = Inr ?t" and t: "json_typed 23 ?m" by code_simp+
  then have k: "message_key ?m = Inr (sha256_hex ?t)" by (simp add: message_key_def)
  from message_key_sound [OF t t k k] show ?thesis by simp
qed

lemma credential_cases:
  assumes "parse_credential response now = Inr c"
  shows "(code c = [] \<and> \<not> retryable c \<and> \<not> token_malformed (token c) \<and>
          now < renew_after c \<and> renew_after c + 120 = expires c \<and> expires c \<le> now + 300) \<or>
         (token c = [] \<and>
          (if retryable c then code c \<in> {''IAM_UNAVAILABLE'', ''SIGNER_UNAVAILABLE'', ''TIME_UNTRUSTED'', ''BUSY''}
           else code c \<in> {''INVALID_REQUEST'', ''DENIED'', ''POLICY_UNSUPPORTED'', ''INTERNAL_ERROR''}))"
proof -
  from assms obtain j where "parse_rejection j = Inr c \<or> parse_issued j now = Inr c"
    by (auto simp: parse_credential_def result_simps split: if_splits)
  then show ?thesis
  proof
    assume "parse_rejection j = Inr c"
    then show ?thesis
      by (auto simp: parse_rejection_def result_simps Let_def split: if_splits)
  next
    assume "parse_issued j now = Inr c"
    then show ?thesis
      by (auto simp: parse_issued_def result_simps split: if_splits)
  qed
qed

text \<open>An answer of the credential service, used by the examples.\<close>

definition demo_response :: string where
  "demo_response = ''{\"protocol\":\"aos-kuksa-auth-compat/v1\",\"status\":\"issued\",\"correlationId\":\"c1\",\"token\":\"a.b.c\",\"expiresAtUnixSeconds\":1290,\"renewAfterUnixSeconds\":1170}'' @ [CHR 10]"

lemma demo_item:
  "item (json_fuel demo_response) 0 demo_response = Inr (JObject [(''correlationId'', JString ''c1''),
     (''expiresAtUnixSeconds'', JInt 1290), (''protocol'', JString ''aos-kuksa-auth-compat/v1''),
     (''renewAfterUnixSeconds'', JInt 1170), (''status'', JString ''issued''), (''token'', JString ''a.b.c'')], [CHR 10])"
  by code_simp

lemma demo_credential:
  "parse_credential demo_response 1000 =
     Inr \<lparr>token = ''a.b.c'', expires = 1290, renew_after = 1170, code = [], retryable = False\<rparr>"
proof -
  have bytes: "demo_response \<noteq> []" "length demo_response \<le> 32768" "byte (last demo_response) = 10"
    by (simp_all add: demo_response_def byte_def)
  have "parse_json demo_response 32768 = emap fst (item (json_fuel demo_response) 0 demo_response)"
    using bytes(2) by (simp add: parse_json_def demo_item space_def is_space_def byte_def)
  moreover have "\<not> token_malformed ''a.b.c''"
    by (simp add: token_malformed_def token_char_def is_lower_def is_upper_def is_digit_def byte_def)
  ultimately show ?thesis
    using bytes by (simp add: parse_credential_def demo_item parse_issued_def at_string_def at_integer_def object_size_def
      ethrow_if_def json_at_def dict_at_def)
qed

text \<open>A parsed credential is either a token that is well formed, renewable and valid for at most 300
  seconds, or a rejection with one of the known codes and the matching retry flag.\<close>

theorem parse_credential_sound:
  assumes "parse_credential response now = Inr c"
  shows "(code c = [] \<and> \<not> retryable c \<and> \<not> token_malformed (token c) \<and>
          now < renew_after c \<and> renew_after c + 120 = expires c \<and> expires c \<le> now + 300) \<or>
         (token c = [] \<and>
          (if retryable c then code c \<in> {''IAM_UNAVAILABLE'', ''SIGNER_UNAVAILABLE'', ''TIME_UNTRUSTED'', ''BUSY''}
           else code c \<in> {''INVALID_REQUEST'', ''DENIED'', ''POLICY_UNSUPPORTED'', ''INTERNAL_ERROR''}))"
  using assms by (rule credential_cases)

theorem parse_credential_sound_witness:
  "\<exists>c. parse_credential demo_response 1000 = Inr c \<and>
     (code c = [] \<and> \<not> retryable c \<and> \<not> token_malformed (token c) \<and> 1000 < renew_after c)"
  using parse_credential_sound [OF demo_credential] demo_credential by auto

lemma retry_base: "1 \<le> min 30 (2 ^ min attempt 5 :: int) \<and> min 30 (2 ^ min attempt 5 :: int) \<le> 30"
  by simp

lemma rnd_fifth: "\<exists>a. rnd (2 / 10) = Fin a \<and> 0 \<le> a \<and> a \<le> 1"
  by (rule rnd_upper) (use representable_scaled [of 0 1] in simp_all)

lemma retry_product:
  assumes "- 1 \<le> j" "j \<le> 1" "1 \<le> b" "b \<le> 30"
  shows "\<exists>n. cast_int (dceil (dmul (Fin (of_int b)) (dadd (Fin 1) (Fin j)))) = Some n \<and> 0 \<le> n \<and> n \<le> 60"
proof -
  have R: "representable 2" "representable 60"
    using representable_scaled [of 0 2] representable_scaled [of 0 60] by simp_all
  obtain v where v: "rnd (1 + j) = Fin v" "0 \<le> v" "v \<le> 2"
    using rnd_upper [OF R(1), of "1 + j"] assms by auto
  have "of_int b * v \<le> 30 * 2" using assms v by (intro mult_mono) auto
  then obtain w where w: "rnd (of_int b * v) = Fin w" "0 \<le> w" "w \<le> 60"
    using rnd_upper [OF R(2), of "of_int b * v"] assms v by auto
  then have "0 \<le> \<lceil>w\<rceil>" "\<lceil>w\<rceil> \<le> 60" by (auto simp: ceiling_le_iff intro: order_trans [OF _ ceiling_mono [of 0]])
  with v w show ?thesis by (auto simp: dmul_def)
qed

text \<open>C27: for a jitter within the accepted range the delay is computed without an undefined conversion and is
  at least one second, at least the server's hint, and at most 30 seconds unless the hint is larger; any
  other jitter is rejected.\<close>

theorem retry_delay_bounds:
  assumes "0 \<le> retry_after"
  shows "case retry_delay attempt jitter retry_after of
           Inl e \<Rightarrow> \<not> (isfinite jitter \<and> dle (dneg (rnd (2 / 10))) jitter \<and> dle jitter (rnd (2 / 10)))
         | Inr r \<Rightarrow> (\<exists>n. r = Some n \<and> retry_after \<le> n \<and> 1 \<le> n \<and> (n \<le> 30 \<or> n = retry_after))"
proof (cases "isfinite jitter \<and> \<not> dless jitter (dneg (rnd (2 / 10))) \<and> \<not> dless (rnd (2 / 10)) jitter")
  case True
  then obtain j where j: "jitter = Fin j" by (auto simp: isfinite_iff)
  obtain a where a: "rnd (2 / 10) = Fin a" "0 \<le> a" "a \<le> 1" using rnd_fifth by blast
  from True j a have "- 1 \<le> j" "j \<le> 1" by auto
  from retry_product [OF this conjunct1 [OF retry_base] conjunct2 [OF retry_base], of attempt]
  obtain n where "cast_int (dceil (dmul (Fin (of_int (min 30 (2 ^ min attempt 5)))) (dadd (Fin 1) (Fin j)))) = Some n"
     "0 \<le> n" "n \<le> 60" by blast
  with True assms j show ?thesis
    by (auto simp: retry_delay_def Let_def simp del: of_int_min of_int_power)
next
  case False
  then show ?thesis using assms by (auto simp: retry_delay_def dle_def)
qed

theorem retry_delay_bounds_witness:
  "\<exists>n. retry_delay 3 (Fin 0) 2 = Inr (Some n) \<and> 2 \<le> n \<and> n \<le> 30"
proof -
  obtain a where "rnd (2 / 10) = Fin a" "0 \<le> a" using rnd_fifth by blast
  then show ?thesis
    using retry_delay_bounds [where retry_after = 2 and jitter = "Fin 0" and attempt = 3] by (auto simp: dle_def split: sum.splits)
qed

text \<open>C28: a frame is assembled exactly when all fifteen signals are valid, finite and share one instant that is
  at most 250 ms old and not in the future, with a non-negative speed and non-negative wheel speeds.\<close>

theorem complete_frame_iff:
  assumes "length signals = 15"
  shows "complete_frame signals wall_ms = Some f \<longleftrightarrow>
    f = \<lparr>frame_values = map sig_value signals, frame_epoch_ms = sig_epoch_ms (signals ! 0)\<rparr> \<and>
    (\<forall>s\<in>set signals. sig_valid s \<and> isfinite (sig_value s) \<and> sig_epoch_ms s = frame_epoch_ms f) \<and>
    frame_epoch_ms f \<le> wall_ms \<and> wall_ms \<le> frame_epoch_ms f + 250 \<and>
    (\<forall>i\<in>{0, 3, 4, 5, 6}. \<not> dless (sig_value (signals ! i)) (Fin 0))"
proof -
  have n: "list_ex (\<lambda>v. dless v (Fin 0)) (take 4 (drop 3 (map sig_value signals))) \<longleftrightarrow>
     (\<exists>i\<in>{3, 4, 5, 6}. dless (sig_value (signals ! i)) (Fin 0))"
  proof -
    have "drop 3 signals = signals ! 3 # signals ! 4 # signals ! 5 # signals ! 6 # drop 7 signals"
      using assms Cons_nth_drop_Suc [of 3 signals] Cons_nth_drop_Suc [of 4 signals]
        Cons_nth_drop_Suc [of 5 signals] Cons_nth_drop_Suc [of 6 signals] by simp
    then show ?thesis by (simp add: take_map drop_map)
  qed
  have v: "map sig_value signals ! 0 = sig_value (signals ! 0)" and ne: "signals ! 0 \<in> set signals"
    using assms by auto
  have u: "list_all (signal_usable e wall_ms) signals \<longleftrightarrow>
     (\<forall>s\<in>set signals. sig_valid s \<and> isfinite (sig_value s) \<and> sig_epoch_ms s = e) \<and> e \<le> wall_ms \<and> wall_ms \<le> e + 250"
    for e
    using ne by (auto simp: list_all_iff signal_usable_def)
  show ?thesis
    unfolding complete_frame_def Let_def n u v by (cases f) (simp, blast)
qed

theorem complete_frame_iff_witness:
  "complete_frame (replicate 15 \<lparr>sig_value = Fin 1, sig_epoch_ms = 1000, sig_valid = True\<rparr>) 1250 =
     Some \<lparr>frame_values = replicate 15 (Fin 1), frame_epoch_ms = 1000\<rparr>"
  by (subst complete_frame_iff) (simp_all add: map_replicate_const)

end
