(* ===== verification/Timestamps.thy ===== *)
theory Timestamps
  imports Protocol "HOL-Library.Product_Lexorder"
begin

text \<open>
  Correctness of \<open>utc_timestamp\<close>: up to the end of year 9999 its text is a valid RFC 3339 timestamp of
  24 bytes, and comparing two such texts byte by byte is the same as comparing the instants. The
  reset control of the runtime compares expiry times as strings and relies on exactly this.
\<close>

section \<open>Fixed-width decimal fields\<close>

lemma append_less:
  "length a = length b \<Longrightarrow> a @ s < b @ t \<longleftrightarrow> a < b \<or> a = b \<and> s < t"
  for a b s t :: "'a :: linorder list"
  by (induction a b rule: list_induct2) auto

lemma char_less_byte: "c < d \<longleftrightarrow> byte c < byte d"
  by (simp add: less_char_def byte_def)

lemma digits_value_Cons: "digits_value (c # cs) = (byte c - 48) * 10 ^ length cs + digits_value cs"
proof -
  have "foldl (\<lambda>n c. 10 * n + (byte c - 48)) k cs = k * 10 ^ length cs + digits_value cs" for k
  proof (induction cs arbitrary: k rule: rev_induct)
    case (snoc c cs)
    then show ?case by (simp add: digits_value_snoc algebra_simps)
  qed (simp add: digits_value_def)
  from this [of "byte c - 48"] show ?thesis by (simp add: digits_value_def)
qed

lemma digits_value_Nil [simp]: "digits_value [] = 0"
  by (simp add: digits_value_def)

lemma digits_value_bound: "list_all is_digit ds \<Longrightarrow> digits_value ds < 10 ^ length ds"
proof (induction ds)
  case (Cons c cs)
  then have "byte c - 48 \<le> 9" by (auto simp: is_digit_def)
  then have "(byte c - 48) * 10 ^ length cs \<le> 9 * 10 ^ length cs" by (rule mult_right_mono) simp
  moreover have "digits_value cs < 10 ^ length cs" using Cons by simp
  ultimately have "(byte c - 48) * 10 ^ length cs + digits_value cs < 10 * 10 ^ length cs" by linarith
  then show ?case by (simp add: digits_value_Cons)
qed simp

lemma digits_less:
  assumes "length a = length b" "list_all is_digit a" "list_all is_digit b" "digits_value a < digits_value b"
  shows "a < b"
  using assms
proof (induction a b rule: list_induct2)
  case (Cons x a y b)
  let ?x = "byte x - 48" and ?y = "byte y - 48" and ?p = "10 ^ length b :: nat"
  have d: "48 \<le> byte x" "48 \<le> byte y" using Cons.prems by (auto simp: is_digit_def)
  have a: "digits_value a < ?p" "digits_value b < ?p"
    using digits_value_bound [of a] digits_value_bound [of b] Cons by auto
  have lt: "?x * ?p + digits_value a < ?y * ?p + digits_value b"
    using Cons.prems Cons.hyps by (simp add: digits_value_Cons)
  have "\<not> ?y < ?x"
  proof
    assume "?y < ?x"
    then have "(?y + 1) * ?p \<le> ?x * ?p" by (intro mult_right_mono) auto
    with lt a show False by simp
  qed
  then consider "?x < ?y" | "?x = ?y" by linarith
  then show ?case
  proof cases
    case 1
    with d have "byte x < byte y" by linarith
    then show ?thesis by (simp add: char_less_byte)
  next
    case 2
    with d have "x = y" by (metis byte_inj diff_add_inverse le_add_diff_inverse)
    with 2 lt Cons show ?thesis by simp
  qed
qed simp

lemma length_show_nat: "n < 10 ^ w \<Longrightarrow> 0 < w \<Longrightarrow> length (show_nat n) \<le> w"
proof (induction n arbitrary: w rule: show_nat.induct)
  case (1 n)
  show ?case
  proof (cases "n < 10")
    case True
    with "1.prems" show ?thesis by (subst show_nat.simps) simp
  next
    case False
    obtain v where w: "w = Suc v" using "1.prems" by (cases w) auto
    have "n div 10 < 10 ^ v" using "1.prems" w by (simp add: less_mult_imp_div_less)
    moreover have "0 < v" using False "1.prems" w by (cases v) auto
    ultimately show ?thesis using 1(1) [OF False, of v] False w by (subst show_nat.simps) simp
  qed
qed

lemma padded_nat_facts:
  assumes "n < 10 ^ w" "0 < w"
  shows "length (padded_nat w n) = w" "list_all is_digit (padded_nat w n)" "digits_value (padded_nat w n) = n"
proof -
  show "length (padded_nat w n) = w"
    using length_show_nat [OF assms] by (simp add: padded_nat_def)
  show "list_all is_digit (padded_nat w n)"
    using show_nat_digits [of n] by (auto simp: padded_nat_def list_all_iff is_digit_def)
  have "digits_value (replicate k (chr 48) @ ds) = digits_value ds" for k ds
    by (induction k) (auto simp: digits_value_Cons)
  then show "digits_value (padded_nat w n) = n"
    by (simp add: padded_nat_def)
qed

lemma padded_nat_less: "n < m \<Longrightarrow> m < 10 ^ w \<Longrightarrow> 0 < w \<Longrightarrow> padded_nat w n < padded_nat w m"
  by (intro digits_less) (auto simp: padded_nat_facts)

lemma number_loop_digits:
  "list_all is_digit ds \<Longrightarrow> number_loop n ds = n * 10 ^ length ds + int (digits_value ds)"
proof (induction ds arbitrary: n)
  case (Cons c ds)
  then have c: "is_digit c" and "int (byte c - 48) = int (byte c) - 48" by (auto simp: is_digit_def)
  then have "number_loop n (c # ds) = (n * 10 + int (byte c - 48)) * 10 ^ length ds + int (digits_value ds)"
    using Cons by simp
  then show ?case by (simp only: digits_value_Cons of_nat_add of_nat_mult of_nat_power) (simp add: algebra_simps)
qed simp

section \<open>Calendar\<close>

lemma year_days_pos [simp]: "0 < year_days y"
  by (simp add: year_days_def)

lemma civil_year_bounds: "civil_year y d = (y', r) \<Longrightarrow> y \<le> y' \<and> r < year_days y'"
proof (induction y d rule: civil_year.induct)
  case (1 y d)
  then show ?case
    by (subst (asm) (2) civil_year.simps) (fastforce split: if_splits)
qed

lemma civil_year_mono:
  "d < e \<Longrightarrow> civil_year y d = (y1, r1) \<Longrightarrow> civil_year y e = (y2, r2) \<Longrightarrow> y1 < y2 \<or> y1 = y2 \<and> r1 < r2"
proof (induction y d arbitrary: e rule: civil_year.induct)
  case (1 y d)
  show ?case
  proof (cases "d < year_days y")
    case True
    then have "y1 = y" "r1 = d" using 1(3) by (auto simp: civil_year.simps [of y d])
    then show ?thesis
      using 1(2,4) civil_year_bounds [of "y + 1" "e - year_days y" y2 r2]
      by (auto simp: civil_year.simps [of y e] split: if_splits)
  next
    case False
    then show ?thesis
      using 1(1) [OF False, of "e - year_days y"] 1(2-4)
      by (auto simp: civil_year.simps [of y d] civil_year.simps [of y e])
  qed
qed

fun days_span :: "int \<Rightarrow> nat \<Rightarrow> nat" where
  "days_span y 0 = 0"
| "days_span y (Suc n) = year_days y + days_span (y + 1) n"

lemma civil_year_skip: "civil_year y (days_span y n + d) = civil_year (y + int n) d"
proof (induction n arbitrary: y)
  case (Suc n)
  have "civil_year y (days_span y (Suc n) + d) = civil_year (y + 1) (days_span (y + 1) n + d)"
    by (subst civil_year.simps) simp
  with Suc show ?case by (simp add: algebra_simps)
qed simp

text \<open>Days from a fixed origin to the first day of year \<open>y\<close>.\<close>

definition days_before :: "int \<Rightarrow> int" where
  "days_before y = 365 * y + (y - 1) div 4 - (y - 1) div 100 + (y - 1) div 400"

lemma div_step: "0 < k \<Longrightarrow> y div k = (y - 1) div k + (if y mod k = 0 then 1 else 0)" for y k :: int
proof (cases "y mod k = 0")
  case True
  assume "0 < k"
  moreover have "y - 1 = k * (y div k - 1) + (k - 1)"
    using True mult_div_mod_eq [of k y] by (simp add: algebra_simps)
  ultimately have "(y - 1) div k = y div k - 1" by (intro int_div_pos_eq [of _ _ _ "k - 1"]) simp_all
  with True show ?thesis by simp
next
  case False
  assume k: "0 < k"
  have "0 \<le> y mod k" "y mod k < k" using k by simp_all
  moreover have "y - 1 = k * (y div k) + (y mod k - 1)"
    using mult_div_mod_eq [of k y] by simp
  ultimately have "(y - 1) div k = y div k" using False by (intro int_div_pos_eq [of _ _ _ "y mod k - 1"]) simp_all
  with False show ?thesis by simp
qed

lemma days_before_step: "days_before (y + 1) = days_before y + int (year_days y)"
proof -
  have sums: "a = a' + e \<Longrightarrow> b = b' + f \<Longrightarrow> c = c' + g \<Longrightarrow>
    365 * y + 365 + a - b + c = 365 * y + a' - b' + c' + 365 + (e - f + g)" for a a' b b' c c' e f g
    by simp
  have "days_before (y + 1) = 365 * y + 365 + y div 4 - y div 100 + y div 400"
    by (simp add: days_before_def)
  also have "\<dots> = days_before y + 365 +
      ((if y mod 4 = 0 then 1 else 0) - (if y mod 100 = 0 then 1 else 0) + (if y mod 400 = 0 then 1 else 0))"
    unfolding days_before_def
    by (rule sums [OF div_step [of 4 y] div_step [of 100 y] div_step [of 400 y]]) simp_all
  finally have *: "days_before (y + 1) = \<dots>" .
  have "400 dvd y \<Longrightarrow> 100 dvd y" "100 dvd y \<Longrightarrow> 4 dvd y"
    by (auto intro: dvd_trans [of "100 :: int" 400] dvd_trans [of "4 :: int" 100])
  then have n: "y mod 400 = 0 \<longrightarrow> y mod 100 = 0" "y mod 100 = 0 \<longrightarrow> y mod 4 = 0"
    unfolding dvd_eq_mod_eq_0 by blast+
  have leap: "(r \<longrightarrow> q) \<Longrightarrow> (q \<longrightarrow> p) \<Longrightarrow>
    d + 365 + ((if p then 1 else 0) - (if q then 1 else 0) + (if r then 1 else 0)) =
    d + int (if p \<and> (\<not> q \<or> r) then 366 else 365)" for d p q r
    by (cases p; cases q; cases r) simp_all
  show ?thesis
    unfolding * year_days_def leap_year_def by (rule leap [OF n])
qed

lemma days_span_closed: "int (days_span y n) = days_before (y + int n) - days_before y"
proof (induction n arbitrary: y)
  case (Suc n)
  with Suc [of "y + 1"] days_before_step [of y] show ?case by (simp add: add.assoc)
qed simp

lemma civil_year_9999:
  assumes "d \<le> 2932896" "civil_year 1970 d = (y, r)"
  shows "y \<le> 9999"
proof -
  have "days_span 1970 8030 = 2932897"
    using days_span_closed [of 1970 8030] by (simp add: days_before_def)
  then have "civil_year 1970 2932897 = (10000, 0)"
    using civil_year_skip [of 1970 8030 0] by (simp add: civil_year.simps [of 10000])
  with assms civil_year_mono [of d 2932897 1970 y r 10000 0] show ?thesis by auto
qed

lemma month_days_pos: "1 \<le> m \<Longrightarrow> m \<le> 12 \<Longrightarrow> 28 \<le> month_days y m \<and> month_days y m \<le> 31"
proof -
  assume "1 \<le> m" "m \<le> 12"
  then have "m = 1 \<or> m = 2 \<or> m = 3 \<or> m = 4 \<or> m = 5 \<or> m = 6 \<or> m = 7 \<or> m = 8 \<or> m = 9 \<or> m = 10 \<or> m = 11 \<or> m = 12"
    by presburger
  then show ?thesis by (elim disjE) (simp_all add: month_days_def)
qed

fun month_span :: "int \<Rightarrow> int \<Rightarrow> nat \<Rightarrow> int" where
  "month_span y m 0 = month_days y m"
| "month_span y m (Suc n) = month_days y m + month_span y (m + 1) n"

lemma month_span_year: "month_span y 1 11 = int (year_days y)"
proof -
  have "(11 :: nat) = Suc (Suc (Suc (Suc (Suc (Suc (Suc (Suc (Suc (Suc (Suc 0))))))))))" by simp
  then show ?thesis by (simp only: month_span.simps) (simp add: month_days_def year_days_def)
qed

lemma civil_month_bounds:
  assumes "civil_month left y m d = (m', r)" "1 \<le> m" "m + int left \<le> 12" "int d < month_span y m left"
  shows "m \<le> m' \<and> m' \<le> m + int left \<and> int r < month_days y m'"
  using assms
proof (induction left y m d rule: civil_month.induct)
  case (2 left y m d)
  show ?case
  proof (cases "d < nat (month_days y m)")
    case True
    with 2 show ?thesis by auto
  next
    case False
    then have "int (d - nat (month_days y m)) = int d - month_days y m"
      using month_days_pos [of m y] "2.prems" by auto
    with 2 False show ?thesis by auto
  qed
qed auto

lemma civil_month_ge: "civil_month left y m d = (m', r) \<Longrightarrow> m \<le> m'"
  by (induction left y m d rule: civil_month.induct) (auto split: if_splits)

lemma civil_month_mono:
  "d < e \<Longrightarrow> civil_month left y m d = (m1, r1) \<Longrightarrow> civil_month left y m e = (m2, r2) \<Longrightarrow>
   m1 < m2 \<or> m1 = m2 \<and> r1 < r2"
proof (induction left y m d arbitrary: e rule: civil_month.induct)
  case (2 left y m d)
  show ?case
  proof (cases "d < nat (month_days y m)")
    case True
    with 2(2-4) civil_month_ge [of left y "m + 1" "e - nat (month_days y m)" m2 r2] show ?thesis
      by (auto split: if_splits)
  next
    case False
    with 2(1) [OF False, of "e - nat (month_days y m)"] 2(2-4) show ?thesis by auto
  qed
qed auto

section \<open>The text of an instant\<close>

text \<open>The fields of an instant, most significant first, and the text they are printed as.\<close>

type_synonym stamp = "int \<times> int \<times> nat \<times> nat \<times> nat \<times> nat \<times> nat"

definition stamp_of :: "int \<Rightarrow> stamp" where
  "stamp_of e =
     (let s = nat (e div 1000); (year, yday) = civil_year 1970 (s div 86400);
          (month, mday) = civil_month 11 year 1 yday; t = s mod 86400
      in (year, month, mday + 1, t div 3600, t mod 3600 div 60, t mod 60, nat (e mod 1000)))"

fun stamp_ok :: "stamp \<Rightarrow> bool" where
  "stamp_ok (y, mo, d, h, mi, s, ms) =
     (1970 \<le> y \<and> y \<le> 9999 \<and> 1 \<le> mo \<and> mo \<le> 12 \<and> 1 \<le> d \<and> int d \<le> month_days y mo \<and> h \<le> 23 \<and>
      mi \<le> 59 \<and> s \<le> 59 \<and> ms \<le> 999)"

fun stamp_text :: "stamp \<Rightarrow> string" where
  "stamp_text (y, mo, d, h, mi, s, ms) =
     padded_nat 4 (nat y) @ ''-'' @ padded_nat 2 (nat mo) @ ''-'' @ padded_nat 2 d @ ''T'' @
     padded_nat 2 h @ '':'' @ padded_nat 2 mi @ '':'' @ padded_nat 2 s @ ''.'' @ padded_nat 3 ms @ ''Z''"

lemma stamp_of_ok:
  assumes "0 \<le> e" "e \<le> 253402300799999"
  shows "stamp_ok (stamp_of e)"
proof -
  define s where "s = nat (e div 1000)"
  have "s \<le> 253402300799" using assms by (simp add: s_def)
  then have d: "s div 86400 \<le> 2932896" by simp
  obtain y r where y: "civil_year 1970 (s div 86400) = (y, r)" by fastforce
  obtain m t where m: "civil_month 11 y 1 r = (m, t)" by fastforce
  note yb = civil_year_bounds [OF y] civil_year_9999 [OF d y]
  then have "int r < month_span y 1 11" by (simp add: month_span_year)
  from civil_month_bounds [OF m _ _ this] have mb: "1 \<le> m" "m \<le> 12" "int t < month_days y m" by auto
  have "s mod 86400 < 86400" "s mod 86400 mod 3600 < 3600" by simp_all
  then have "s mod 86400 div 3600 \<le> 23" "s mod 86400 mod 3600 div 60 \<le> 59" by simp_all
  moreover have "nat (e mod 1000) \<le> 999"
    using pos_mod_bound [of 1000 e] pos_mod_sign [of 1000 e] by linarith
  ultimately show ?thesis
    using yb mb y m by (simp add: stamp_of_def Let_def flip: s_def)
qed

lemma padded_year: "1970 \<le> y \<Longrightarrow> y \<le> 9999 \<Longrightarrow> show_int y = padded_nat 4 (nat y)"
proof -
  assume y: "1970 \<le> y" "y \<le> 9999"
  have "\<not> length (show_nat (nat y)) \<le> 3"
  proof
    assume "length (show_nat (nat y)) \<le> 3"
    then have "(10 :: nat) ^ length (show_nat (nat y)) \<le> 10 ^ 3" by (rule power_increasing) simp
    moreover have "nat y < 10 ^ length (show_nat (nat y))"
      using digits_value_bound [OF show_nat_digits, of "nat y"] by (simp only: digits_value_show_nat)
    ultimately have "nat y < 10 ^ 3" by (rule less_le_trans [rotated])
    with y show False by simp
  qed
  with y show ?thesis by (simp add: padded_nat_def show_int_def)
qed

lemma utc_timestamp_stamp:
  assumes "0 \<le> e" "e \<le> 253402300799999"
  shows "utc_timestamp e = Inr (stamp_text (stamp_of e))"
  using stamp_of_ok [OF assms] assms
  by (auto simp: utc_timestamp_def strftime_def stamp_of_def Let_def padded_year split: prod.splits)

lemma padded_less:
  assumes "n < 10 ^ w" "m < 10 ^ w" "0 < w"
  shows "padded_nat w n @ s < padded_nat w m @ t \<longleftrightarrow> n < m \<or> n = m \<and> s < t"
proof -
  have len: "length (padded_nat w n) = length (padded_nat w m)" using assms by (simp add: padded_nat_facts)
  have "padded_nat w n = padded_nat w m \<longleftrightarrow> n = m"
    using assms by (metis padded_nat_facts(3))
  moreover have "padded_nat w n < padded_nat w m \<longleftrightarrow> n < m"
    using assms padded_nat_less by (metis less_asym less_irrefl linorder_neqE_nat)
  ultimately show ?thesis using append_less [OF len, of s t] by simp
qed

lemma stamp_fields:
  "stamp_ok (y, mo, d, h, mi, s, ms) \<Longrightarrow>
   nat y < 10 ^ 4 \<and> nat mo < 10 ^ 2 \<and> d < 10 ^ 2 \<and> h < 10 ^ 2 \<and> mi < 10 ^ 2 \<and> s < 10 ^ 2 \<and> ms < 10 ^ 3"
  using month_days_pos [of mo y] by auto

lemma stamp_text_less: "stamp_ok x \<Longrightarrow> stamp_ok y \<Longrightarrow> stamp_text x < stamp_text y \<longleftrightarrow> x < y"
proof -
  assume ok: "stamp_ok x" "stamp_ok y"
  obtain a b c d e f g a' b' c' d' e' f' g' where
    xy: "x = (a, b, c, d, e, f, g)" "y = (a', b', c', d', e', f', g')"
    using prod_cases7 by metis
  note F = stamp_fields [OF ok(1) [unfolded xy]] stamp_fields [OF ok(2) [unfolded xy]]
  have n: "nat a < nat a' \<longleftrightarrow> a < a'" "nat a = nat a' \<longleftrightarrow> a = a'" "nat b < nat b' \<longleftrightarrow> b < b'" "nat b = nat b' \<longleftrightarrow> b = b'"
    using ok xy by auto
  have z: "\<not> (0 :: nat) < 0" "(0 :: nat) < 2" "(0 :: nat) < 3" "(0 :: nat) < 4" by simp_all
  note step = padded_less [of _ 4, OF _ _ z(4)] padded_less [of _ 2, OF _ _ z(2)] padded_less [of _ 3, OF _ _ z(3)]
  have "stamp_text x < stamp_text y \<longleftrightarrow>
    a < a' \<or> a = a' \<and> (b < b' \<or> b = b' \<and> (c < c' \<or> c = c' \<and> (d < d' \<or> d = d' \<and> (e < e' \<or> e = e' \<and>
      (f < f' \<or> f = f' \<and> g < g')))))"
    using F unfolding xy stamp_text.simps
    by (simp only: step append_Cons append_Nil Cons_less_Cons n simp_thms less_irrefl)
  also have "\<dots> \<longleftrightarrow> x < y" unfolding xy by (auto simp: less_prod_simp)
  finally show ?thesis .
qed

lemma time_of_day_less:
  assumes "t < (u :: nat)"
  shows "(t div 3600, t mod 3600 div 60, t mod 60) < (u div 3600, u mod 3600 div 60, u mod 60)"
proof -
  have m: "t mod 60 = t mod 3600 mod 60" "u mod 60 = u mod 3600 mod 60" by (simp_all add: mod_mod_cancel)
  have split: "x div k < y div k \<or> x div k = y div k \<and> x mod k < y mod k" if "x < y" for x y k :: nat
    using that div_le_mono [of x y k] by (metis le_neq_implies_less div_mult_mod_eq less_imp_le nat_add_left_cancel_less)
  show ?thesis
    using split [OF assms, of 3600] split [of "t mod 3600" "u mod 3600" 60] unfolding m by auto
qed

lemma stamp_of_less:
  assumes "0 \<le> e" "e < f"
  shows "stamp_of e < stamp_of f"
proof -
  let ?s = "nat (e div 1000)" and ?t = "nat (f div 1000)"
  obtain y r y' r' where y: "civil_year 1970 (?s div 86400) = (y, r)" "civil_year 1970 (?t div 86400) = (y', r')"
    by fastforce
  obtain m d m' d' where m: "civil_month 11 y 1 r = (m, d)" "civil_month 11 y' 1 r' = (m', d')" by fastforce
  have le: "e div 1000 \<le> f div 1000" using assms by (intro zdiv_mono1) auto
  consider "?s div 86400 < ?t div 86400" | "?s div 86400 = ?t div 86400" "?s mod 86400 < ?t mod 86400" | "?s = ?t"
    using le div_le_mono [of ?s ?t 86400]
    by (metis div_mult_mod_eq le_neq_implies_less nat_add_left_cancel_less nat_mono)
  then show ?thesis
  proof cases
    case 1
    have "y < y' \<or> y = y' \<and> (m < m' \<or> m = m' \<and> d < d')"
      using civil_year_mono [OF 1 y] civil_month_mono [OF _ m(1), of r'] m(2) by auto
    then show ?thesis by (auto simp: stamp_of_def y m Let_def)
  next
    case 2
    have *: "(a, b, c) < (a', b', c') \<Longrightarrow> (y, m, d + 1, a, b, c, g) < (y, m, d + 1, a', b', c', g')"
      for a b c a' b' c' g g' :: nat
      by auto
    have "y' = y" "r' = r" "m' = m" "d' = d" using 2(1) y m by simp_all
    then show ?thesis
      unfolding stamp_of_def Let_def y m split_conv by (simp only: * [OF time_of_day_less [OF 2(2)]])
  next
    case 3
    then have "e div 1000 = f div 1000" using assms le by (simp add: nat_eq_iff2 pos_imp_zdiv_nonneg_iff)
    then have "e mod 1000 < f mod 1000" using assms by (metis div_mult_mod_eq add_less_cancel_left)
    then have "nat (e mod 1000) < nat (f mod 1000)" by (simp add: nat_less_eq_zless)
    then show ?thesis using 3 by (auto simp: stamp_of_def Let_def split: prod.splits)
  qed
qed

lemma padded_two: assumes "n < 10 ^ 2" obtains a b where "padded_nat 2 n = [a, b]" "number_loop 0 [a, b] = int n"
proof -
  note F = padded_nat_facts [OF assms]
  then obtain a b where ab: "padded_nat 2 n = [a, b]" by (auto simp: length_Suc_conv numeral_2_eq_2)
  with F number_loop_digits [of "[a, b]" 0] that show thesis by simp
qed

lemma four_elems: assumes "length xs = 4" obtains a b c d where "xs = [a, b, c, d]"
  using assms by (auto simp: length_Suc_conv numeral_eq_Suc)

lemma three_elems: assumes "length xs = 3" obtains a b c where "xs = [a, b, c]"
  using assms by (auto simp: length_Suc_conv numeral_eq_Suc)

lemma date_time_stamp: "stamp_ok x \<Longrightarrow> date_time (stamp_text x) \<and> length (stamp_text x) = 24"
proof -
  assume ok: "stamp_ok x"
  obtain y m d h n s k where x: "x = (y, m, d, h, n, s, k)" using prod_cases7 by metis
  note F = stamp_fields [OF ok [unfolded x]]
  obtain a0 a1 a2 a3 where A: "padded_nat 4 (nat y) = [a0, a1, a2, a3]"
    by (rule four_elems [OF padded_nat_facts(1) [of "nat y" 4]]) (use F in auto)
  have Y: "number_loop 0 [a0, a1, a2, a3] = int (nat y)"
    using padded_nat_facts(2,3) [of "nat y" 4] F number_loop_digits [of "[a0, a1, a2, a3]" 0] A by simp
  obtain b0 b1 where B: "padded_nat 2 (nat m) = [b0, b1]" "number_loop 0 [b0, b1] = int (nat m)" using padded_two F by blast
  obtain c0 c1 where C: "padded_nat 2 d = [c0, c1]" "number_loop 0 [c0, c1] = int d" using padded_two F by blast
  obtain d0 d1 where D: "padded_nat 2 h = [d0, d1]" "number_loop 0 [d0, d1] = int h" using padded_two F by blast
  obtain e0 e1 where E: "padded_nat 2 n = [e0, e1]" "number_loop 0 [e0, e1] = int n" using padded_two F by blast
  obtain f0 f1 where G: "padded_nat 2 s = [f0, f1]" "number_loop 0 [f0, f1] = int s" using padded_two F by blast
  obtain g0 g1 g2 where K: "padded_nat 3 k = [g0, g1, g2]"
    by (rule three_elems [OF padded_nat_facts(1) [of k 3]]) (use F in auto)
  have "list_all is_digit [g0, g1, g2]" using padded_nat_facts(2) [of k 3] F K by simp
  moreover have "\<not> is_digit (CHR ''Z'')" by (simp add: byte_simps)
  ultimately have suffix: "time_suffix [CHR ''.'', g0, g1, g2, CHR ''Z'']"
    by (simp add: time_suffix_def zone_suffix_def byte_def)
  have t: "stamp_text x = [a0, a1, a2, a3, CHR ''-'', b0, b1, CHR ''-'', c0, c1, CHR ''T'', d0, d1, CHR '':'', e0, e1,
      CHR '':'', f0, f1, CHR ''.'', g0, g1, g2, CHR ''Z'']"
    by (simp add: x A B C D E G K)
  have nums: "number_at (stamp_text x) 0 4 = int (nat y)" "number_at (stamp_text x) 5 2 = int (nat m)"
    "number_at (stamp_text x) 8 2 = int d" "number_at (stamp_text x) 11 2 = int h"
    "number_at (stamp_text x) 14 2 = int n" "number_at (stamp_text x) 17 2 = int s"
    unfolding t number_at_def using Y B C D E G by (simp_all del: number_loop.simps)
  have "drop 19 (stamp_text x) = [CHR ''.'', g0, g1, g2, CHR ''Z'']" "length (stamp_text x) = 24"
    unfolding t by simp_all
  moreover have "byte (stamp_text x ! 4) = 45" "byte (stamp_text x ! 7) = 45" "byte (stamp_text x ! 10) = 84"
    "byte (stamp_text x ! 13) = 58" "byte (stamp_text x ! 16) = 58"
    unfolding t by (simp_all add: byte_def)
  ultimately show ?thesis
    using ok suffix unfolding date_time_def nums by (simp add: x del: stamp_text.simps)
qed

lemma utc_timestamp_valid:
  assumes "0 \<le> e" "e \<le> 253402300799999"
  obtains t where "utc_timestamp e = Inr t" "date_time t" "length t = 24"
  using assms date_time_stamp [OF stamp_of_ok] utc_timestamp_stamp by blast

lemma utc_timestamp_less:
  assumes "0 \<le> e" "e \<le> 253402300799999" "0 \<le> f" "f \<le> 253402300799999"
    and "utc_timestamp e = Inr s" "utc_timestamp f = Inr t"
  shows "s < t \<longleftrightarrow> e < f"
proof -
  have "s < t \<longleftrightarrow> stamp_of e < stamp_of f"
    using assms stamp_text_less [OF stamp_of_ok [of e] stamp_of_ok [of f]] by (simp add: utc_timestamp_stamp)
  also have "\<dots> \<longleftrightarrow> e < f"
  proof (cases e f rule: linorder_cases)
    case less
    with stamp_of_less [of e f] assms(1) show ?thesis by blast
  next
    case greater
    with stamp_of_less [of f e] assms(3) have "stamp_of f < stamp_of e" by blast
    then have "\<not> stamp_of e < stamp_of f" by (rule less_not_sym)
    with greater show ?thesis by linarith
  qed simp
  finally show ?thesis .
qed

section \<open>Properties\<close>

text \<open>Up to the end of year 9999 every timestamp the service writes is accepted by its own RFC 3339
  check and is 24 bytes long.\<close>

theorem timestamps_valid:
  assumes "0 \<le> e" "e \<le> 253402300799999"
  shows "\<exists>t. utc_timestamp e = Inr t \<and> date_time t \<and> length t = 24"
  by (rule utc_timestamp_valid [OF assms]) blast

theorem timestamps_valid_witness: "\<exists>t. utc_timestamp 1709210096789 = Inr t \<and> date_time t"
  using timestamps_valid [of 1709210096789] by auto

text \<open>C29: comparing two written timestamps as strings is the same as comparing the instants, which the
  deduplication windows of the demo control rely on.\<close>

theorem timestamps_ordered:
  assumes "0 \<le> e" "e \<le> 253402300799999" "0 \<le> f" "f \<le> 253402300799999"
    and "utc_timestamp e = Inr s" "utc_timestamp f = Inr t"
  shows "s < t \<longleftrightarrow> e < f"
  using assms by (rule utc_timestamp_less)

theorem timestamps_ordered_witness: "''1970-01-01T00:00:00.999Z'' < (''1970-01-01T00:00:01.000Z'' :: string)"
proof -
  have "(11 :: nat) = Suc 10" by simp
  then have m: "civil_month 11 1970 1 0 = (1, 0)" by (simp only: civil_month.simps) (simp add: month_days_def)
  have d: "show_nat 1970 = ''1970''" "show_nat 999 = ''999''" "show_nat 0 = ''0''" "show_nat (Suc 0) = ''1''"
    "chr 48 = CHR ''0''"
    by code_simp+
  have y: "civil_year 1970 0 = (1970, 0)" by (simp add: civil_year.simps)
  have "utc_timestamp 999 = Inr ''1970-01-01T00:00:00.999Z''" "utc_timestamp 1000 = Inr ''1970-01-01T00:00:01.000Z''"
    by (simp_all add: utc_timestamp_def strftime_def m y padded_nat_def show_int_def d numeral_2_eq_2)
  from timestamps_ordered [OF _ _ _ _ this] show ?thesis by simp
qed

end
