(* ===== verification/Identity.thy ===== *)
theory Identity
  imports Timestamps
begin

text \<open>
  \<^verbatim>\<open>include/tire_health/service_identity.hpp\<close> and \<^verbatim>\<open>src/runtime/application.cpp\<close>: the identity of the
  service instance, the command line, the public metadata in its legacy and native form, the binding
  that persists a metadata value beside a pending request, the private token file and the lease that
  turns a credential into deadlines of the boot clock. Files reach the definitions as what the
  operating system returned for them.
\<close>

section \<open>Service instances\<close>

record ServiceInstance =
  service_id :: string
  subject_id :: string
  instance_index :: nat
  instance_id :: string

definition identifier_char :: "char \<Rightarrow> bool" where
  "identifier_char c = (is_alnum c \<or> byte c = 95 \<or> byte c = 46 \<or> byte c = 58 \<or> byte c = 45)"

definition native_identifier :: "string \<Rightarrow> bool" where
  "native_identifier v = (v \<noteq> [] \<and> length v \<le> 128 \<and> is_alnum (hd v) \<and> list_all identifier_char v)"

text \<open>The pattern \<^verbatim>\<open>(0|[1-9][0-9]*)\.(0|[1-9][0-9]*)\.(0|[1-9][0-9]*)\<close> on the whole text.\<close>

definition version_number :: "string \<Rightarrow> bool" where
  "version_number p = (p \<noteq> [] \<and> list_all is_digit p \<and> (byte (hd p) = 48 \<longrightarrow> p = [chr 48]))"

definition split_dot :: "string \<Rightarrow> string \<times> string option" where
  "split_dot s =
     (takeWhile (\<lambda>c. byte c \<noteq> 46) s,
      case dropWhile (\<lambda>c. byte c \<noteq> 46) s of [] \<Rightarrow> None | _ # r \<Rightarrow> Some r)"

definition version_pattern :: "string \<Rightarrow> bool" where
  "version_pattern s =
     (case split_dot s of (a, None) \<Rightarrow> False
      | (a, Some r) \<Rightarrow> (case split_dot r of (b, None) \<Rightarrow> False
          | (b, Some c) \<Rightarrow> version_number a \<and> version_number b \<and> version_number c))"

definition package_version :: "string \<Rightarrow> bool" where
  "package_version v = (length v \<le> 32 \<and> version_pattern v)"

definition native_instance_valid :: "ServiceInstance \<Rightarrow> bool" where
  "native_instance_valid v =
     (native_identifier (service_id v) \<and> native_identifier (subject_id v) \<and> native_identifier (instance_id v) \<and>
      int (instance_index v) \<le> 9007199254740991)"

definition service_instance_json :: "ServiceInstance \<Rightarrow> string result" where
  "service_instance_json v =
     (if \<not> native_instance_valid v then Inl (InvalidArgument ''NATIVE_IDENTITY_INVALID'')
      else Inr (''{'' @ [chr 34] @ ''instanceId'' @ [chr 34] @ '':'' @ [chr 34] @ instance_id v @ [chr 34] @
        '','' @ [chr 34] @ ''instanceIndex'' @ [chr 34] @ '':'' @ show_nat (instance_index v) @
        '','' @ [chr 34] @ ''serviceId'' @ [chr 34] @ '':'' @ [chr 34] @ service_id v @ [chr 34] @
        '','' @ [chr 34] @ ''subjectId'' @ [chr 34] @ '':'' @ [chr 34] @ subject_id v @ [chr 34] @ ''}''))"

definition native_provenance_valid :: "ServiceInstance option \<Rightarrow> string \<Rightarrow> string \<Rightarrow> bool" where
  "native_provenance_valid inst version legacy_digest =
     (case inst of None \<Rightarrow> False
      | Some i \<Rightarrow> native_instance_valid i \<and> package_version version \<and> legacy_digest = [])"

section \<open>Command line and environment\<close>

record NativeServiceInputs =
  native_version :: string
  native_instance :: ServiceInstance

record ApplicationInputs =
  metadata_file :: string
  ca_file :: string
  native :: "NativeServiceInputs option"

definition is_absolute :: "string \<Rightarrow> bool" where
  "is_absolute p = (case p of [] \<Rightarrow> False | c # _ \<Rightarrow> byte c = 47)"

text \<open>The loop over the arguments after the program name, two at a time.\<close>

fun argument_loop :: "ApplicationInputs \<Rightarrow> string list \<Rightarrow> ApplicationInputs result" where
  "argument_loop r [] = Inr r"
| "argument_loop r [opt] = Inl (InvalidArgument ''CONFIG_ARGUMENTS_INVALID'')"
| "argument_loop r (opt # v # rest) =
     (if opt = ''--metadata-file'' then
        if metadata_file r \<noteq> [] then Inl (InvalidArgument ''CONFIG_ARGUMENTS_INVALID'')
        else if \<not> is_absolute v then Inl (InvalidArgument ''CONFIG_PATH_INVALID'')
        else argument_loop (r\<lparr>metadata_file := v\<rparr>) rest
      else if opt = ''--ca-file'' then
        if ca_file r \<noteq> [] then Inl (InvalidArgument ''CONFIG_ARGUMENTS_INVALID'')
        else if \<not> is_absolute v then Inl (InvalidArgument ''CONFIG_PATH_INVALID'')
        else argument_loop (r\<lparr>ca_file := v\<rparr>) rest
      else Inl (InvalidArgument ''CONFIG_ARGUMENTS_INVALID''))"

definition parse_arguments :: "string list \<Rightarrow> ApplicationInputs result" where
  "parse_arguments args =
     ebind (argument_loop \<lparr>metadata_file = [], ca_file = [], native = None\<rparr> args) (\<lambda>r.
       if metadata_file r = [] \<or> ca_file r = [] then Inl (InvalidArgument ''CONFIG_INPUTS_REQUIRED'') else Inr r)"

definition NATIVE_INVALID :: exn where
  "NATIVE_INVALID = InvalidArgument ''NATIVE_IDENTITY_INVALID''"

definition parse_service_instance :: "json \<Rightarrow> ServiceInstance result" where
  "parse_service_instance v =
     ebind (object_size v) (\<lambda>n. if n \<noteq> 4 then Inl NATIVE_INVALID else
     ebind (at_integer v ''instanceIndex'') (\<lambda>index. if index < 0 then Inl NATIVE_INVALID else
     ebind (at_string v ''serviceId'') (\<lambda>s.
     ebind (at_string v ''subjectId'') (\<lambda>j.
     ebind (at_string v ''instanceId'') (\<lambda>i.
       let inst = \<lparr>service_id = s, subject_id = j, instance_index = nat index, instance_id = i\<rparr>
       in if \<not> native_instance_valid inst then Inl NATIVE_INVALID else Inr inst)))))"

definition env_at :: "(string, string) dict \<Rightarrow> string \<Rightarrow> string result" where
  "env_at m k = (case dict_get m k of None \<Rightarrow> Inl OutOfRange | Some v \<Rightarrow> Inr v)"

definition parse_service_inputs :: "string \<Rightarrow> (string, string) dict \<Rightarrow> NativeServiceInputs result" where
  "parse_service_inputs bytes environment =
     ebind (parse_json bytes 1024) (\<lambda>release.
     ebind (ethrow_if (eany [emap (\<lambda>n. n \<noteq> 2) (object_size release),
                             emap (\<lambda>v. v \<noteq> 1) (at_integer release ''schemaVersion''),
                             emap (\<lambda>v. \<not> package_version v) (at_string release ''serviceVersion'')])
             (InvalidArgument ''PACKAGE_RELEASE_INVALID'')) (\<lambda>_.
     if length environment \<noteq> 4 then Inl (InvalidArgument ''NATIVE_IDENTITY_REQUIRED'') else
     ebind (env_at environment ''AOS_INSTANCE_INDEX'') (\<lambda>index.
     if index = [] \<or> length index > 16 \<or> (length index > 1 \<and> byte (hd index) = 48) \<or> \<not> list_all is_digit index
     then Inl NATIVE_INVALID else
     ebind (env_at environment ''AOS_ITEM_ID'') (\<lambda>s.
     ebind (env_at environment ''AOS_SUBJECT_ID'') (\<lambda>j.
     ebind (env_at environment ''AOS_INSTANCE_ID'') (\<lambda>i.
       let inst = \<lparr>service_id = s, subject_id = j, instance_index = digits_value index, instance_id = i\<rparr>
       in if \<not> native_instance_valid inst then Inl NATIVE_INVALID
          else emap (\<lambda>v. \<lparr>native_version = v, native_instance = inst\<rparr>) (at_string release ''serviceVersion'')))))))"

section \<open>Metadata\<close>

record Metadata =
  unit_system_uid :: string
  unit_role :: string
  service_version :: string
  service_artifact_sha256 :: string
  vdp_contract_version :: string
  vdp_contract_sha256 :: string
  service_instance :: "ServiceInstance option"

definition METADATA_SCHEMA :: exn where
  "METADATA_SCHEMA = InvalidArgument ''METADATA_SCHEMA_INVALID''"

definition METADATA_FIELDS :: exn where
  "METADATA_FIELDS = InvalidArgument ''METADATA_FIELDS_INVALID''"

definition role_name :: "string \<Rightarrow> string" where
  "role_name role = (if role = ''validation'' then ''VALIDATION'' else ''PRODUCTION'')"

definition parse_legacy_metadata :: "string \<Rightarrow> Metadata result" where
  "parse_legacy_metadata bytes =
     ebind (parse_json bytes 8192) (\<lambda>j.
     ebind (ethrow_if (eany [emap (\<lambda>n. n \<noteq> 7) (object_size j),
                             emap (\<lambda>v. v \<noteq> 1) (at_integer j ''schemaVersion'')]) METADATA_SCHEMA) (\<lambda>_.
     ebind (at_string j ''unitSystemUid'') (\<lambda>uid.
     ebind (at_string j ''unitRole'') (\<lambda>role.
     ebind (at_string j ''serviceVersion'') (\<lambda>sv.
     ebind (at_string j ''serviceArtifactSha256'') (\<lambda>sa.
     ebind (at_string j ''vdpContractVersion'') (\<lambda>vv.
     ebind (at_string j ''vdpContractSha256'') (\<lambda>vs.
       if \<not> native_identifier uid \<or> (role \<noteq> ''validation'' \<and> role \<noteq> ''production'') \<or> length sv > 32 \<or>
          length vv > 32 \<or> \<not> version_pattern sv \<or> \<not> version_pattern vv \<or> \<not> is_sha256 sa \<or> \<not> is_sha256 vs
       then Inl METADATA_FIELDS
       else Inr \<lparr>unit_system_uid = uid, unit_role = role_name role, service_version = sv,
                 service_artifact_sha256 = sa, vdp_contract_version = vv, vdp_contract_sha256 = vs,
                 service_instance = None\<rparr>))))))))"

definition parse_metadata :: "string \<Rightarrow> NativeServiceInputs \<Rightarrow> Metadata result" where
  "parse_metadata bytes nat_in =
     ebind (parse_json bytes 8192) (\<lambda>j.
     ebind (ethrow_if (eany [emap (\<lambda>n. n \<noteq> 5) (object_size j),
                             emap (\<lambda>v. v \<noteq> 2) (at_integer j ''schemaVersion'')]) METADATA_SCHEMA) (\<lambda>_.
     ebind (at_string j ''unitSystemUid'') (\<lambda>uid.
     ebind (at_string j ''unitRole'') (\<lambda>role.
     ebind (at_string j ''vdpContractVersion'') (\<lambda>vv.
     ebind (at_string j ''vdpContractSha256'') (\<lambda>vs.
       if \<not> native_identifier uid \<or> (role \<noteq> ''validation'' \<and> role \<noteq> ''production'') \<or>
          \<not> package_version vv \<or> \<not> is_sha256 vs \<or> \<not> package_version (native_version nat_in) \<or>
          \<not> native_instance_valid (native_instance nat_in)
       then Inl METADATA_FIELDS
       else Inr \<lparr>unit_system_uid = uid, unit_role = role_name role, service_version = native_version nat_in,
                 service_artifact_sha256 = [], vdp_contract_version = vv, vdp_contract_sha256 = vs,
                 service_instance = Some (native_instance nat_in)\<rparr>))))))"

definition runtime_metadata :: "ApplicationInputs \<Rightarrow> string \<Rightarrow> Metadata result" where
  "runtime_metadata inputs bytes =
     (case native inputs of None \<Rightarrow> Inl (InvalidArgument ''NATIVE_IDENTITY_REQUIRED'')
      | Some n \<Rightarrow> parse_metadata bytes n)"

text \<open>\<open>read_optional\<close> is what \<^verbatim>\<open>read_optional_public_file\<close> returns for a path and a size limit.\<close>

definition initial_runtime_metadata ::
    "(string \<Rightarrow> nat \<Rightarrow> string option result) \<Rightarrow> ApplicationInputs \<Rightarrow> Metadata option result" where
  "initial_runtime_metadata read_optional inputs =
     (case native inputs of None \<Rightarrow> Inl (InvalidArgument ''NATIVE_IDENTITY_REQUIRED'')
      | Some _ \<Rightarrow>
          ebind (read_optional (metadata_file inputs) 8192) (\<lambda>b. case b of None \<Rightarrow> Inr None
          | Some bytes \<Rightarrow>
              ebind (runtime_metadata inputs bytes) (\<lambda>m.
              ebind (read_optional (ca_file inputs) 65536) (\<lambda>c. case c of None \<Rightarrow> Inr None | Some _ \<Rightarrow> Inr (Some m)))))"

definition parse_metadata_binding :: "json \<Rightarrow> Metadata result" where
  "parse_metadata_binding v =
     ebind (at_integer v ''schemaVersion'') (\<lambda>n.
     if n = 1 then ebind (canonical v) parse_legacy_metadata else
     ebind (ethrow_if (eany [emap (\<lambda>n. n \<noteq> 7) (object_size v),
                             emap (\<lambda>v. v \<noteq> 2) (at_integer v ''schemaVersion'')])
             (InvalidArgument ''ADVISORY_PROVENANCE_INVALID'')) (\<lambda>_.
     ebind (at_string v ''serviceVersion'') (\<lambda>sv.
     ebind (ebind (json_at v ''serviceInstance'') parse_service_instance) (\<lambda>inst.
     ebind (json_object v) (\<lambda>obj.
     ebind (canonical (JObject (dict_erase ''serviceInstance'' (dict_erase ''serviceVersion'' obj)))) (\<lambda>t.
       parse_metadata t \<lparr>native_version = sv, native_instance = inst\<rparr>))))))"

definition metadata_binding :: "Metadata \<Rightarrow> json result" where
  "metadata_binding m =
     (if unit_role m \<noteq> ''VALIDATION'' \<and> unit_role m \<noteq> ''PRODUCTION'' then Inl METADATA_FIELDS else
      let v = dict_init
        [(''schemaVersion'', JInt (if service_instance m \<noteq> None then 2 else 1)),
         (''unitSystemUid'', JString (unit_system_uid m)),
         (''unitRole'', JString (if unit_role m = ''VALIDATION'' then ''validation'' else ''production'')),
         (''serviceVersion'', JString (service_version m)),
         (''vdpContractVersion'', JString (vdp_contract_version m)),
         (''vdpContractSha256'', JString (vdp_contract_sha256 m))] []
      in ebind (case service_instance m of
             Some i \<Rightarrow>
               if \<not> native_provenance_valid (service_instance m) (service_version m) (service_artifact_sha256 m)
               then Inl NATIVE_INVALID
               else ebind (service_instance_json i) (\<lambda>t. ebind (parse_json t 65536) (\<lambda>j.
                      Inr (dict_emplace ''serviceInstance'' j v)))
           | None \<Rightarrow> Inr (dict_emplace ''serviceArtifactSha256'' (JString (service_artifact_sha256 m)) v)) (\<lambda>v'.
         ebind (parse_metadata_binding (JObject v')) (\<lambda>_. Inr (JObject v'))))"

section \<open>Token file and session inputs\<close>

text \<open>What \<^verbatim>\<open>openat\<close>, \<^verbatim>\<open>fstat\<close> and each \<^verbatim>\<open>read\<close> returned; the end of the list is the end of the file.\<close>

record file_stat =
  st_regular :: bool
  st_owner_ok :: bool
  st_nlink :: nat
  st_mode :: nat
  st_size :: int

datatype read_step = ReadInterrupted | ReadFailed | ReadChunk string

datatype opened =
    OpenAbsent
  | OpenFailed
  | Opened "file_stat option" "read_step list"

definition AUTH_UNAVAILABLE :: exn where
  "AUTH_UNAVAILABLE = RuntimeError ''KUKSA_AUTH_UNAVAILABLE''"

fun token_loop :: "string \<Rightarrow> read_step list \<Rightarrow> string result" where
  "token_loop tok [] = Inr tok"
| "token_loop tok (ReadInterrupted # rs) = token_loop tok rs"
| "token_loop tok (ReadFailed # rs) = Inl AUTH_UNAVAILABLE"
| "token_loop tok (ReadChunk c # rs) =
     (if c = [] then Inr tok
      else if length (tok @ c) > 16384 then Inl AUTH_UNAVAILABLE
      else token_loop (tok @ c) rs)"

definition stat_rejected :: "file_stat option \<Rightarrow> bool" where
  "stat_rejected s =
     (case s of None \<Rightarrow> True
      | Some i \<Rightarrow> \<not> st_regular i \<or> \<not> st_owner_ok i \<or> st_nlink i \<noteq> 1 \<or> st_mode i \<noteq> 256 \<or> st_size i \<le> 0 \<or> st_size i > 16384)"

text \<open>\<open>dir\<close> is the outcome of \<^verbatim>\<open>open_private_token_directory\<close>; mode 0400 is 256.\<close>

definition read_private_token :: "unit result \<Rightarrow> opened \<Rightarrow> string result" where
  "read_private_token dir file =
     ebind dir (\<lambda>_. case file of
       OpenAbsent \<Rightarrow> Inl (RuntimeError ''KUKSA_AUTH_PENDING'')
     | OpenFailed \<Rightarrow> Inl AUTH_UNAVAILABLE
     | Opened info steps \<Rightarrow>
         if stat_rejected info then Inl AUTH_UNAVAILABLE
         else ebind (token_loop [] steps) (\<lambda>t. if token_malformed t then Inl AUTH_UNAVAILABLE else Inr t))"

datatype SessionInputChange = InputsNone | TokenReplaced | InputsUnavailable

definition inspect_session_inputs ::
    "string result \<Rightarrow> string result \<Rightarrow> string result \<Rightarrow> string \<Rightarrow> string \<Rightarrow> string \<Rightarrow> SessionInputChange" where
  "inspect_session_inputs token_read metadata_read ca_read tok metadata ca =
     (case ebind token_read (\<lambda>t. ebind metadata_read (\<lambda>m. ebind ca_read (\<lambda>c.
             Inr (if m \<noteq> metadata \<or> c \<noteq> ca then InputsUnavailable
                  else if t = tok then InputsNone else TokenReplaced)))) of
        Inl _ \<Rightarrow> InputsUnavailable | Inr r \<Rightarrow> r)"

section \<open>Leases\<close>

record Lease =
  expires_wall :: int
  expires_boot :: int
  renew_boot :: int

definition lease_issued :: "Credential \<Rightarrow> int \<Rightarrow> int \<Rightarrow> Lease" where
  "lease_issued c wall boot =
     \<lparr>expires_wall = expires c, expires_boot = boot + (expires c - wall) * 1000,
      renew_boot = boot + (renew_after c - wall) * 1000\<rparr>"

definition lease_expired :: "Lease \<Rightarrow> int \<Rightarrow> int \<Rightarrow> bool" where
  "lease_expired l wall boot = (expires_wall l = 0 \<or> wall \<ge> expires_wall l \<or> boot \<ge> expires_boot l)"

section \<open>The instance as JSON\<close>

definition plain_char :: "char \<Rightarrow> bool" where
  "plain_char c = (32 \<le> byte c \<and> byte c < 128 \<and> byte c \<noteq> 34 \<and> byte c \<noteq> 92)"

lemma validate_utf8_ascii: "list_all (\<lambda>c. byte c < 128) s \<Longrightarrow> validate_utf8 s = Inr ()"
  by (induction s) (auto simp: Let_def)

lemma quote_json_plain: "list_all plain_char s \<Longrightarrow> quote_json s = Inr (chr 34 # s @ [chr 34])"
proof -
  assume s: "list_all plain_char s"
  then have "validate_utf8 s = Inr ()" by (auto intro!: validate_utf8_ascii simp: list_all_iff plain_char_def)
  moreover from s have "concat (map quote_char s) = s"
    by (induction s) (auto simp: plain_char_def quote_char_def)
  ultimately show ?thesis by (simp add: quote_json_def)
qed

lemma identifier_plain: "native_identifier v \<Longrightarrow> list_all plain_char v"
  by (auto simp: native_identifier_def list_all_iff identifier_char_def plain_char_def is_alnum_def
      is_upper_def is_lower_def is_digit_def)

definition instance_object :: "ServiceInstance \<Rightarrow> json" where
  "instance_object v =
     JObject [(''instanceId'', JString (instance_id v)), (''instanceIndex'', JInt (int (instance_index v))),
              (''serviceId'', JString (service_id v)), (''subjectId'', JString (subject_id v))]"

lemma instance_keys:
  "quote_json ''instanceId'' = Inr (chr 34 # ''instanceId'' @ [chr 34])"
  "quote_json ''instanceIndex'' = Inr (chr 34 # ''instanceIndex'' @ [chr 34])"
  "quote_json ''serviceId'' = Inr (chr 34 # ''serviceId'' @ [chr 34])"
  "quote_json ''subjectId'' = Inr (chr 34 # ''subjectId'' @ [chr 34])"
  "ascii_key ''instanceId''" "ascii_key ''instanceIndex''" "ascii_key ''serviceId''" "ascii_key ''subjectId''"
  "''instanceId'' < ''instanceIndex''" "''instanceId'' < ''serviceId''" "''instanceId'' < ''subjectId''"
  "''instanceIndex'' < ''serviceId''" "''instanceIndex'' < ''subjectId''" "''serviceId'' < (''subjectId'' :: string)"
  by code_simp+

lemma canonical_instance: "native_instance_valid v \<Longrightarrow> canonical (instance_object v) = service_instance_json v"
  by (simp add: instance_object_def service_instance_json_def native_instance_valid_def instance_keys
      quote_json_plain identifier_plain show_int_def)

lemma instance_text_length: "service_instance_json v = Inr t \<Longrightarrow> length t \<le> 512"
proof -
  assume t: "service_instance_json v = Inr t"
  then have "native_instance_valid v" by (auto simp: service_instance_json_def split: if_splits)
  then have "instance_index v < 10 ^ 16" "length (instance_id v) \<le> 128" "length (service_id v) \<le> 128"
    "length (subject_id v) \<le> 128"
    by (auto simp: native_instance_valid_def native_identifier_def)
  moreover have "length (show_nat (instance_index v)) \<le> 16"
    using calculation(1) by (rule length_show_nat) simp
  ultimately show ?thesis using t by (auto simp: service_instance_json_def split: if_splits)
qed

lemma parse_instance_json:
  assumes "service_instance_json v = Inr t" "512 \<le> limit"
  shows "parse_json t limit = Inr (instance_object v)"
proof -
  have "native_instance_valid v" using assms(1) by (auto simp: service_instance_json_def split: if_splits)
  with assms show ?thesis
    using instance_text_length [OF assms(1)]
    by (intro parse_canonical) (auto simp: canonical_instance, auto simp: instance_object_def instance_keys)
qed

lemma parse_instance_object: "native_instance_valid v \<Longrightarrow> parse_service_instance (instance_object v) = Inr v"
  by (simp add: parse_service_instance_def instance_object_def object_size_def at_integer_def at_string_def
      json_at_def dict_at_def Let_def native_instance_valid_def)

section \<open>The binding\<close>

lemma parse_json_length: "parse_json t limit = Inr j \<Longrightarrow> length t \<le> limit"
  by (auto simp: parse_json_def invalid_def split: if_splits)

lemma parse_of_canonical:
  "parse_json t limit = Inr k \<Longrightarrow> canonical j = Inr t \<Longrightarrow> json_wf j \<Longrightarrow> json_depth j \<le> 24 \<Longrightarrow> k = j"
  using parse_canonical [of j t limit] parse_json_length by simp

definition legacy_object :: "string \<Rightarrow> Metadata \<Rightarrow> (string, json) dict" where
  "legacy_object role m =
     [(''schemaVersion'', JInt 1), (''serviceArtifactSha256'', JString (service_artifact_sha256 m)),
      (''serviceVersion'', JString (service_version m)), (''unitRole'', JString role),
      (''unitSystemUid'', JString (unit_system_uid m)), (''vdpContractSha256'', JString (vdp_contract_sha256 m)),
      (''vdpContractVersion'', JString (vdp_contract_version m))]"

definition public_object :: "string \<Rightarrow> Metadata \<Rightarrow> (string, json) dict" where
  "public_object role m =
     [(''schemaVersion'', JInt 2), (''unitRole'', JString role),
      (''unitSystemUid'', JString (unit_system_uid m)), (''vdpContractSha256'', JString (vdp_contract_sha256 m)),
      (''vdpContractVersion'', JString (vdp_contract_version m))]"

definition native_object :: "string \<Rightarrow> json \<Rightarrow> Metadata \<Rightarrow> (string, json) dict" where
  "native_object role inst m =
     [(''schemaVersion'', JInt 2), (''serviceInstance'', inst), (''serviceVersion'', JString (service_version m)),
      (''unitRole'', JString role), (''unitSystemUid'', JString (unit_system_uid m)),
      (''vdpContractSha256'', JString (vdp_contract_sha256 m)), (''vdpContractVersion'', JString (vdp_contract_version m))]"

lemma binding_objects:
  "dict_emplace ''serviceArtifactSha256'' a (dict_init [(''schemaVersion'', n), (''unitSystemUid'', u), (''unitRole'', r),
     (''serviceVersion'', v), (''vdpContractVersion'', w), (''vdpContractSha256'', d)] []) =
   [(''schemaVersion'', n), (''serviceArtifactSha256'', a), (''serviceVersion'', v), (''unitRole'', r),
    (''unitSystemUid'', u), (''vdpContractSha256'', d), (''vdpContractVersion'', w)]"
  "dict_emplace ''serviceInstance'' a (dict_init [(''schemaVersion'', n), (''unitSystemUid'', u), (''unitRole'', r),
     (''serviceVersion'', v), (''vdpContractVersion'', w), (''vdpContractSha256'', d)] []) =
   [(''schemaVersion'', n), (''serviceInstance'', a), (''serviceVersion'', v), (''unitRole'', r),
    (''unitSystemUid'', u), (''vdpContractSha256'', d), (''vdpContractVersion'', w)]"
  for a n u r v w d :: json
  by code_simp+

lemma binding_wf:
  "dict_ok (legacy_object role m)" "dict_ok (public_object role m)" "dict_ok (native_object role inst m)"
  unfolding legacy_object_def public_object_def native_object_def by code_simp+

lemma public_of_native:
  "dict_erase ''serviceInstance'' (dict_erase ''serviceVersion'' (native_object role inst m)) = public_object role m"
  by (simp add: native_object_def public_object_def)

lemmas object_access = object_size_def at_integer_def at_string_def json_at_def dict_at_def

lemma parse_legacy_object:
  assumes "canonical (JObject (legacy_object role m)) = Inr t" "parse_legacy_metadata t = Inr m'"
  shows "m' = m\<lparr>unit_role := role_name role, service_instance := None\<rparr>"
proof -
  from assms(2) obtain k where k: "parse_json t 8192 = Inr k" by (auto simp: parse_legacy_metadata_def result_simps)
  then have "k = JObject (legacy_object role m)"
    by (rule parse_of_canonical) (use assms(1) binding_wf in \<open>auto simp: legacy_object_def\<close>)
  with k assms(2) show ?thesis
    by (simp add: parse_legacy_metadata_def object_access legacy_object_def split: if_splits) (cases m; auto)
qed

lemma parse_public_object:
  assumes "canonical (JObject (public_object role m)) = Inr t" "parse_metadata t n = Inr m'"
  shows "m' = m\<lparr>unit_role := role_name role, service_version := native_version n, service_artifact_sha256 := [],
           service_instance := Some (native_instance n)\<rparr>"
proof -
  from assms(2) obtain k where k: "parse_json t 8192 = Inr k" by (auto simp: parse_metadata_def result_simps)
  then have "k = JObject (public_object role m)"
    by (rule parse_of_canonical) (use assms(1) binding_wf in \<open>auto simp: public_object_def\<close>)
  with k assms(2) show ?thesis
    by (simp add: parse_metadata_def object_access public_object_def split: if_splits) (cases m; auto)
qed

section \<open>Properties\<close>

text \<open>C24: metadata bound to a pending request survives persistence: whatever \<open>metadata_binding\<close> writes is read
  back by \<open>parse_metadata_binding\<close> as the same metadata, legacy and native alike.\<close>

theorem metadata_binding_roundtrip:
  assumes "metadata_binding m = Inr j"
  shows "parse_metadata_binding j = Inr m"
proof -
  define role where "role = (if unit_role m = ''VALIDATION'' then ''validation'' else ''production'')"
  have role: "role_name role = unit_role m"
    using assms by (auto simp: metadata_binding_def role_def role_name_def split: if_splits)
  show ?thesis
  proof (cases "service_instance m")
    case None
    then have j: "j = JObject (legacy_object role m)" "\<exists>m'. parse_metadata_binding j = Inr m'"
      using assms by (auto simp: metadata_binding_def Let_def binding_objects legacy_object_def role_def result_simps
        simp del: dict_init.simps split: if_splits)
    then obtain t m' where t: "canonical j = Inr t" "parse_legacy_metadata t = Inr m'" "parse_metadata_binding j = Inr m'"
      by (auto simp: parse_metadata_binding_def object_access legacy_object_def result_simps)
    have "m' = m" using parse_legacy_object [OF t(1)[unfolded j(1)] t(2)] role None by (cases m) auto
    with t show ?thesis by simp
  next
    case (Some i)
    then have v: "native_instance_valid i" and art: "service_artifact_sha256 m = []"
      using assms by (auto simp: metadata_binding_def native_provenance_valid_def split: if_splits)
    then obtain u where u: "service_instance_json i = Inr u" "parse_json u 65536 = Inr (instance_object i)"
      using parse_instance_json by (auto simp: service_instance_json_def)
    have j: "j = JObject (native_object role (instance_object i) m)" "\<exists>m'. parse_metadata_binding j = Inr m'"
      using assms Some u by (auto simp: metadata_binding_def Let_def binding_objects native_object_def role_def result_simps
        simp del: dict_init.simps split: if_splits)
    then obtain t m' where t: "canonical (JObject (public_object role m)) = Inr t"
        "parse_metadata t \<lparr>native_version = service_version m, native_instance = i\<rparr> = Inr m'" "parse_metadata_binding j = Inr m'"
      using public_of_native [of role "instance_object i" m] parse_instance_object [OF v]
      by (auto simp: parse_metadata_binding_def object_access native_object_def result_simps simp del: canonical.simps)
    have "m' = m" using parse_public_object [OF t(1,2)] role Some art by (cases m) auto
    with t show ?thesis by simp
  qed
qed

definition sample_metadata :: Metadata where
  "sample_metadata =
     \<lparr>unit_system_uid = ''unit-1'', unit_role = ''VALIDATION'', service_version = ''1.2.0'', service_artifact_sha256 = [],
      vdp_contract_version = ''1.0.0'', vdp_contract_sha256 = replicate 64 (CHR ''a''),
      service_instance = Some \<lparr>service_id = ''tire'', subject_id = ''car'', instance_index = 3, instance_id = ''i-3''\<rparr>\<rparr>"

lemma sample_binding: "\<exists>j. metadata_binding sample_metadata = Inr j"
proof -
  let ?i = "the (service_instance sample_metadata)"
  have v: "native_instance_valid ?i" "native_provenance_valid (Some ?i) ''1.2.0'' []" by code_simp+
  then obtain u where u: "service_instance_json ?i = Inr u" by (auto simp: service_instance_json_def)
  have "\<not> isl (parse_metadata_binding (JObject (native_object ''validation'' (instance_object ?i) sample_metadata)))"
    by code_simp
  from not_isl_Inr [OF this] show ?thesis
    using v u parse_instance_json [OF u, of 65536]
    by (auto simp: metadata_binding_def Let_def binding_objects native_object_def sample_metadata_def
        simp del: dict_init.simps)
qed

theorem metadata_binding_roundtrip_witness:
  "\<exists>j. metadata_binding sample_metadata = Inr j \<and> parse_metadata_binding j = Inr sample_metadata"
  using sample_binding metadata_binding_roundtrip by blast

text \<open>C25: a lease issued for an accepted token is not expired at once, ends no later than 300 seconds of boot
  time after it was issued however the wall clock moves, is renewed before it ends, and stays expired as
  both clocks advance.\<close>

theorem lease_bounds:
  assumes "parse_credential response wall = Inr c" "code c = []" "0 \<le> wall"
  shows "\<not> lease_expired (lease_issued c wall boot) wall boot \<and>
    boot < renew_boot (lease_issued c wall boot) \<and>
    renew_boot (lease_issued c wall boot) < expires_boot (lease_issued c wall boot) \<and>
    (\<forall>wall' boot'. boot + 300000 \<le> boot' \<longrightarrow> lease_expired (lease_issued c wall boot) wall' boot') \<and>
    (\<forall>w b w' b'. lease_expired (lease_issued c wall boot) w b \<longrightarrow> w \<le> w' \<longrightarrow> b \<le> b' \<longrightarrow>
       lease_expired (lease_issued c wall boot) w' b')"
proof -
  have "wall < renew_after c" "renew_after c + 120 = expires c" "expires c \<le> wall + 300"
    using credential_cases [OF assms(1)] assms(2) by (auto split: if_splits)
  with assms(3) show ?thesis by (auto simp: lease_issued_def lease_expired_def)
qed

theorem lease_bounds_witness:
  "\<exists>c. parse_credential demo_response 1000 = Inr c \<and>
     \<not> lease_expired (lease_issued c 1000 77) 1000 77"
  using lease_bounds [OF demo_credential] demo_credential by auto

end
