(* ===== verification/Model.thy ===== *)
theory Model
  imports Identity
begin

text \<open>
  \<^verbatim>\<open>src/model.cpp\<close>: condition bands, feature extraction from the raw samples of an episode, the
  assessment with its hysteresis, and the engine that cuts the stream of frames into episodes. The
  engine's UUID source is the text its callback returns when an episode starts.
\<close>

section \<open>Bands\<close>

datatype Band = NotEvaluated | Good | Inspection | Replacement

fun band_value :: "Band \<Rightarrow> int" where
  "band_value NotEvaluated = -1"
| "band_value Good = 0"
| "band_value Inspection = 1"
| "band_value Replacement = 2"

instantiation Band :: linorder
begin

definition less_eq_Band :: "Band \<Rightarrow> Band \<Rightarrow> bool" where
  "less_eq_Band a b = (band_value a \<le> band_value b)"

definition less_Band :: "Band \<Rightarrow> Band \<Rightarrow> bool" where
  "less_Band a b = (band_value a < band_value b)"

instance
proof
  fix a b :: Band
  show "a \<le> b \<Longrightarrow> b \<le> a \<Longrightarrow> a = b"
    by (cases a; cases b) (auto simp: less_eq_Band_def)
qed (auto simp: less_eq_Band_def less_Band_def)

end

fun band_name :: "Band \<Rightarrow> string" where
  "band_name NotEvaluated = ''NOT_EVALUATED''"
| "band_name Good = ''GOOD''"
| "band_name Inspection = ''INSPECTION_RECOMMENDED''"
| "band_name Replacement = ''REPLACEMENT_RECOMMENDED''"

definition parse_band :: "string \<Rightarrow> Band result" where
  "parse_band name =
     (case find (\<lambda>b. name = band_name b) [NotEvaluated, Good, Inspection, Replacement] of
        None \<Rightarrow> Inl (InvalidArgument ''BAND_INVALID'') | Some b \<Rightarrow> Inr b)"

section \<open>Features\<close>

record Features =
  longitudinal :: int
  lateral :: int
  dispersion :: int
  persistence :: int

record Episode =
  ep_id :: string
  ep_started :: int
  ep_ended :: int
  ep_samples :: "Frame list"
  ep_terminal :: string

text \<open>The accumulators of the loop over the samples.\<close>

record extraction =
  ex_longitudinal :: double
  ex_lateral :: double
  ex_dispersion :: double
  ex_slipping :: nat
  ex_previous :: int

definition wheel_speeds :: "Frame \<Rightarrow> double list" where
  "wheel_speeds f = take 4 (drop 3 (frame_values f))"

definition longitudinal_slips :: "Frame \<Rightarrow> double list" where
  "longitudinal_slips f = take 4 (drop 7 (frame_values f))"

definition lateral_slips :: "Frame \<Rightarrow> double list" where
  "lateral_slips f = take 4 (drop 11 (frame_values f))"

definition minmax :: "double list \<Rightarrow> double \<times> double" where
  "minmax vs = (foldl dmin (hd vs) (tl vs), foldl dmax (hd vs) (tl vs))"

definition frame_rejected :: "Episode \<Rightarrow> int \<Rightarrow> Frame \<Rightarrow> bool" where
  "frame_rejected ep previous f =
     (frame_epoch_ms f \<le> previous \<or> frame_epoch_ms f < ep_started ep \<or> frame_epoch_ms f > ep_ended ep \<or>
      \<not> list_all isfinite (frame_values f) \<or> dless (frame_values f ! 0) (Fin 0))"

definition extract_frame :: "extraction \<Rightarrow> Frame \<Rightarrow> extraction option" where
  "extract_frame x f =
     (let (low, high) = minmax (wheel_speeds f)
      in if dless low (Fin 0) then None
         else let slip = list_ex (\<lambda>v. dle (rnd (8 / 100)) (dabs v)) (longitudinal_slips f) \<or>
                         list_ex (\<lambda>v. dle (Fin 4) (dabs v)) (lateral_slips f)
              in Some \<lparr>ex_longitudinal = foldl (\<lambda>m v. dmax m (dabs v)) (ex_longitudinal x) (longitudinal_slips f),
                       ex_lateral = foldl (\<lambda>m v. dmax m (dabs v)) (ex_lateral x) (lateral_slips f),
                       ex_dispersion = dmax (ex_dispersion x) (ddiv (dsub high low) (dmax high (Fin 5))),
                       ex_slipping = (if slip then Suc (ex_slipping x) else ex_slipping x),
                       ex_previous = frame_epoch_ms f\<rparr>)"

fun extract_loop :: "Episode \<Rightarrow> extraction \<Rightarrow> Frame list \<Rightarrow> extraction option" where
  "extract_loop ep x [] = Some x"
| "extract_loop ep x (f # fs) =
     (if frame_rejected ep (ex_previous x) f then None
      else case extract_frame x f of None \<Rightarrow> None | Some y \<Rightarrow> extract_loop ep y fs)"

definition bps :: "double \<Rightarrow> double \<Rightarrow> int option" where
  "bps v normalization =
     cast_int (dfloor (dadd (dmul (dmin (Fin 1) (ddiv v normalization)) (Fin 10000)) (Fin (1 / 2))))"

text \<open>
  The outer option is \<open>None\<close> where a conversion to \<^verbatim>\<open>int\<close> would be undefined, which
  \<open>extract_features_defined\<close> excludes; the inner one is the C++ result.
\<close>

definition extract_features :: "Episode \<Rightarrow> Features option option" where
  "extract_features ep =
     (let n = length (ep_samples ep)
      in if (ep_terminal ep \<noteq> ''COMPLETE'' \<and> ep_terminal ep \<noteq> ''TRUNCATED_MAX_DURATION'') \<or> n < 20 \<or> n > 120
         then Some None
         else case extract_loop ep \<lparr>ex_longitudinal = Fin 0, ex_lateral = Fin 0, ex_dispersion = Fin 0,
                                    ex_slipping = 0, ex_previous = -1\<rparr> (ep_samples ep) of
                None \<Rightarrow> Some None
              | Some x \<Rightarrow>
                  (case (bps (ex_longitudinal x) (rnd (20 / 100)), bps (ex_lateral x) (Fin 8),
                         bps (ex_dispersion x) (rnd (15 / 100))) of
                     (Some a, Some b, Some c) \<Rightarrow>
                       Some (Some \<lparr>longitudinal = a, lateral = b, dispersion = c,
                                   persistence = int ((ex_slipping x * 10000 + n div 2) div n)\<rparr>)
                   | _ \<Rightarrow> None))"

section \<open>Assessment\<close>

record Assessment =
  as_features :: Features
  as_samples :: int
  as_load :: int
  as_score :: int
  as_confidence :: int
  as_previous :: Band
  as_current :: Band
  as_changed :: bool

record ModelState =
  band :: Band
  better :: Band
  score :: int
  confidence :: int
  better_count :: int
  last_source :: string
  last_assessment :: string
  recent :: "string list"

definition initial_model :: ModelState where
  "initial_model =
     \<lparr>band = NotEvaluated, better = NotEvaluated, score = 0, confidence = 0, better_count = 0,
      last_source = [], last_assessment = [], recent = []\<rparr>"

definition features_in_range :: "Features \<Rightarrow> bool" where
  "features_in_range f = list_all (\<lambda>n. 0 \<le> n \<and> n \<le> 10000) [longitudinal f, lateral f, dispersion f, persistence f]"

definition load_of :: "Features \<Rightarrow> int" where
  "load_of f = (30 * longitudinal f + 30 * lateral f + 20 * dispersion f + 20 * persistence f + 50) div 100"

definition score_of :: "Features \<Rightarrow> int" where
  "score_of f = 100 - (load_of f + 50) div 100"

definition raw_band :: "int \<Rightarrow> Band" where
  "raw_band s = (if s \<ge> 70 then Good else if s \<ge> 40 then Inspection else Replacement)"

definition band_step :: "Band \<Rightarrow> ModelState \<Rightarrow> ModelState" where
  "band_step raw s =
     (if band s = NotEvaluated \<or> raw > band s then s\<lparr>band := raw, better := NotEvaluated, better_count := 0\<rparr>
      else if raw < band s then
        let s' = (if better s \<noteq> raw then s\<lparr>better := raw, better_count := 1\<rparr>
                  else s\<lparr>better_count := better_count s + 1\<rparr>)
        in if better_count s' \<ge> 3 then s'\<lparr>band := raw, better := NotEvaluated, better_count := 0\<rparr> else s'
      else s\<lparr>better := NotEvaluated, better_count := 0\<rparr>)"

definition remember :: "string \<Rightarrow> string list \<Rightarrow> string list" where
  "remember source rs = (let r = rs @ [source] in if length r > 128 then tl r else r)"

definition assess :: "ModelState \<Rightarrow> Features \<Rightarrow> int \<Rightarrow> string \<Rightarrow> ModelState \<times> Assessment option" where
  "assess s f samples source =
     (if samples < 20 \<or> samples > 120 \<or> \<not> is_uuid source then (s, None)
      else if \<not> features_in_range f then (s, None)
      else if source \<in> set (recent s) then (s, None)
      else let conf = min 100 ((samples * 100 + 20) div 40);
               s' = (band_step (raw_band (score_of f)) s)
                      \<lparr>score := score_of f, confidence := conf, last_source := source,
                       recent := remember source (recent s)\<rparr>
           in (s', Some \<lparr>as_features = f, as_samples = samples, as_load = load_of f, as_score = score_of f,
                         as_confidence = conf, as_previous = band s, as_current = band s',
                         as_changed = (band s \<noteq> band s')\<rparr>))"

section \<open>Episodes\<close>

record EpisodeEngine =
  current :: "Episode option"
  activation :: int
  clear :: int
  previous :: int
  retained :: int
  suppressed :: bool

definition initial_engine :: EpisodeEngine where
  "initial_engine =
     \<lparr>current = None, activation = -1, clear = -1, previous = -1, retained = -1, suppressed = False\<rparr>"

definition abort_episode :: "EpisodeEngine \<Rightarrow> string \<Rightarrow> EpisodeEngine \<times> Episode option" where
  "abort_episode e reason =
     (initial_engine, map_option (\<lambda>ep. ep\<lparr>ep_terminal := reason\<rparr>) (current e))"

definition activating :: "Frame \<Rightarrow> bool" where
  "activating f = (dle (Fin 12) (frame_values f ! 0) \<and> dle (Fin 3) (dabs (frame_values f ! 2)))"

definition clearing :: "Frame \<Rightarrow> bool" where
  "clearing f = (dle (frame_values f ! 0) (Fin 5) \<or> dle (dabs (frame_values f ! 2)) (Fin 1))"

definition clear_elapsed :: "EpisodeEngine \<Rightarrow> int \<Rightarrow> bool" where
  "clear_elapsed e now = (clear e \<ge> 0 \<and> now - clear e \<ge> 1000)"

text \<open>The part of \<open>ingest\<close> that runs while an episode is open.\<close>

definition extend_episode :: "EpisodeEngine \<Rightarrow> Episode \<Rightarrow> Frame \<Rightarrow> EpisodeEngine \<times> Episode option" where
  "extend_episode e ep f =
     (let now = frame_epoch_ms f;
          keep = ((retained e < 0 \<or> now - retained e \<ge> 100) \<and> length (ep_samples ep) < 120);
          ep1 = ep\<lparr>ep_ended := now, ep_samples := (if keep then ep_samples ep @ [f] else ep_samples ep)\<rparr>;
          e1 = e\<lparr>current := Some ep1, retained := (if keep then now else retained e)\<rparr>;
          maximum = (now - ep_started ep1 \<ge> 12000)
      in if maximum \<or> clear_elapsed e1 now
         then (e1\<lparr>current := None, suppressed := maximum, activation := -1\<rparr>,
               Some (ep1\<lparr>ep_terminal := (if maximum then ''TRUNCATED_MAX_DURATION'' else ''COMPLETE'')\<rparr>))
         else (e1, None))"

text \<open>The part that runs on a frame that continues the stream, after the clearing timer is updated.\<close>

definition advance_engine :: "EpisodeEngine \<Rightarrow> string \<Rightarrow> Frame \<Rightarrow> EpisodeEngine \<times> Episode option" where
  "advance_engine e uuid f =
     (let now = frame_epoch_ms f
      in if suppressed e then
           (if clear_elapsed e now then e\<lparr>suppressed := False, activation := -1\<rparr> else e, None)
         else case current e of
           Some ep \<Rightarrow> extend_episode e ep f
         | None \<Rightarrow>
             if \<not> activating f then (e\<lparr>activation := -1\<rparr>, None)
             else let e1 = (if activation e < 0 then e\<lparr>activation := now\<rparr> else e)
                  in if now - activation e1 < 500 then (e1, None)
                     else extend_episode (e1\<lparr>retained := -1\<rparr>)
                            \<lparr>ep_id = uuid, ep_started = now, ep_ended = now, ep_samples = [], ep_terminal = []\<rparr> f)"

definition ingest :: "EpisodeEngine \<Rightarrow> string \<Rightarrow> Frame \<Rightarrow> EpisodeEngine \<times> Episode option" where
  "ingest e uuid f =
     (let now = frame_epoch_ms f
      in if \<not> list_all isfinite (frame_values f) then abort_episode e ''INCOMPLETE_SOURCE_GAP''
         else if previous e \<ge> 0 \<and> now = previous e then (e, None)
         else if previous e \<ge> 0 \<and> (now < previous e \<or> now - previous e > 250) then
           (let (e1, stopped) = abort_episode e ''INCOMPLETE_SOURCE_GAP'' in (e1\<lparr>previous := now\<rparr>, stopped))
         else advance_engine
                (e\<lparr>previous := now,
                   clear := (if clearing f then if clear e < 0 then now else clear e else -1)\<rparr>)
                uuid f)"

section \<open>Range of the features\<close>

definition dnonneg :: "double \<Rightarrow> bool" where
  "dnonneg x = (x = PInf \<or> (\<exists>v. x = Fin v \<and> 0 \<le> v))"

lemma dnonneg_simps [simp]: "dnonneg (Fin v) \<longleftrightarrow> 0 \<le> v" "dnonneg PInf"
  by (simp_all add: dnonneg_def)

lemma dnonneg_dabs: "isfinite v \<Longrightarrow> dnonneg (dabs v)"
  by (cases v) auto

lemma dnonneg_dmax: "dnonneg a \<Longrightarrow> dnonneg b \<Longrightarrow> dnonneg (dmax a b)"
  by (simp add: dmax_def)

lemma dnonneg_rnd: "0 \<le> q \<Longrightarrow> dnonneg (rnd q)"
  using rnd_nonneg [of q] by (auto simp: dnonneg_def)

lemma bps_range:
  assumes "dnonneg v" "0 < n"
  shows "\<exists>k. bps v (Fin n) = Some k \<and> 0 \<le> k \<and> k \<le> 10000"
proof -
  have q: "dnonneg (ddiv v (Fin n))"
    using assms by (cases v) (auto simp: ddiv_def dinf_def intro: dnonneg_rnd)
  then obtain m where m: "dmin (Fin 1) (ddiv v (Fin n)) = Fin m" "0 \<le> m" "m \<le> 1"
    by (cases "dless (ddiv v (Fin n)) (Fin 1)") (auto simp: dnonneg_def dmin_def)
  have R: "representable 10000" "representable (20001 / 2)"
    using representable_scaled [of 0 10000] representable_scaled [of 1 20001] by simp_all
  obtain w where w: "rnd (m * 10000) = Fin w" "0 \<le> w" "w \<le> 10000"
    using rnd_upper [OF R(1), of "m * 10000"] m by auto
  obtain z where z: "rnd (w + 1 / 2) = Fin z" "0 \<le> z" "z \<le> 20001 / 2"
    using rnd_upper [OF R(2), of "w + 1 / 2"] w by auto
  have "0 \<le> \<lfloor>z\<rfloor>" using z by simp
  moreover have "\<lfloor>z\<rfloor> \<le> 10000" using z(3) by (simp add: floor_le_iff)
  ultimately show ?thesis using m w z by (simp add: bps_def dmul_def)
qed

lemma bps_rnd_range:
  assumes "dnonneg v" "1 / 16 \<le> q" "q \<le> 1"
  shows "\<exists>k. bps v (rnd q) = Some k \<and> 0 \<le> k \<and> k \<le> 10000"
proof -
  have R: "representable 1" using representable_scaled [of 0 1] by simp
  have "(2 :: rat) powi -1074 \<le> 2 powi -4" by (rule power_int_increasing) simp_all
  also have "\<dots> = 1 / 16" by simp
  finally obtain n where "rnd q = Fin n" "0 < n"
    using rnd_pos [OF R] assms(2,3) order_trans by blast
  with bps_range [OF assms(1)] show ?thesis by simp
qed

definition extraction_ok :: "extraction \<Rightarrow> bool" where
  "extraction_ok x = (dnonneg (ex_longitudinal x) \<and> dnonneg (ex_lateral x) \<and> dnonneg (ex_dispersion x))"

lemma foldl_dmax_nonneg:
  "dnonneg a \<Longrightarrow> list_all isfinite vs \<Longrightarrow> dnonneg (foldl (\<lambda>m v. dmax m (dabs v)) a vs)"
  by (induction vs arbitrary: a) (auto intro: dnonneg_dmax dnonneg_dabs)

lemma minmax_finite:
  assumes "list_all isfinite vs" "vs \<noteq> []"
  obtains l h where "minmax vs = (Fin l, Fin h)" "l \<le> h"
proof -
  have step: "\<exists>l h. foldl dmin (Fin a) us = Fin l \<and> foldl dmax (Fin b) us = Fin h \<and> l \<le> h"
    if "a \<le> b" "list_all isfinite us" for a b us
    using that by (induction us arbitrary: a b) (auto simp: isfinite_iff dmin_def dmax_def)
  from assms obtain c us where "vs = Fin c # us" "list_all isfinite us"
    by (cases vs) (auto simp: isfinite_iff)
  with step [of c c us] that show thesis by (auto simp: minmax_def)
qed

lemma frame_parts_finite:
  assumes "list_all isfinite (frame_values f)" "length (frame_values f) = 15"
  shows "list_all isfinite (wheel_speeds f)" "wheel_speeds f \<noteq> []"
    "list_all isfinite (longitudinal_slips f)" "list_all isfinite (lateral_slips f)"
  using assms
  by (auto simp: wheel_speeds_def longitudinal_slips_def lateral_slips_def list_all_iff
      dest: in_set_takeD in_set_dropD)

lemma extract_frame_ok:
  assumes "extraction_ok x" "list_all isfinite (frame_values f)" "length (frame_values f) = 15" "extract_frame x f = Some y"
  shows "extraction_ok y \<and> ex_slipping y \<le> Suc (ex_slipping x) \<and> ex_previous y = frame_epoch_ms f"
proof -
  note parts = frame_parts_finite [OF assms(2,3)]
  obtain l h where lh: "minmax (wheel_speeds f) = (Fin l, Fin h)" "l \<le> h"
    using minmax_finite [OF parts(1,2)] by blast
  have "dnonneg (dsub (Fin h) (Fin l))" using lh by (simp add: dsub_def dnonneg_rnd)
  then have "dnonneg (ddiv (dsub (Fin h) (Fin l)) (Fin n))" if "0 < n" for n
    using that by (cases "dsub (Fin h) (Fin l)") (auto simp: ddiv_def dinf_def intro: dnonneg_rnd)
  moreover have "\<exists>n. dmax (Fin h) (Fin 5) = Fin n \<and> 0 < n" by (auto simp: dmax_def)
  ultimately have "dnonneg (ddiv (dsub (Fin h) (Fin l)) (dmax (Fin h) (Fin 5)))" by fastforce
  with assms(1,4) lh parts(3,4) show ?thesis
    by (auto simp: extract_frame_def extraction_ok_def Let_def split: if_splits intro: foldl_dmax_nonneg dnonneg_dmax)
qed

lemma extract_loop_ok:
  "extract_loop ep x fs = Some y \<Longrightarrow> extraction_ok x \<Longrightarrow> \<forall>f\<in>set fs. length (frame_values f) = 15 \<Longrightarrow>
   extraction_ok y \<and> ex_slipping y \<le> ex_slipping x + length fs"
proof (induction fs arbitrary: x)
  case (Cons f fs)
  then obtain z where z: "\<not> frame_rejected ep (ex_previous x) f" "extract_frame x f = Some z" "extract_loop ep z fs = Some y"
    by (auto split: if_splits option.splits)
  have "extraction_ok z \<and> ex_slipping z \<le> Suc (ex_slipping x)"
    using extract_frame_ok [OF Cons.prems(2) _ _ z(2)] z(1) Cons.prems(3) by (auto simp: frame_rejected_def)
  with Cons.IH [OF z(3)] Cons.prems(3) show ?case by auto
qed simp

lemma persistence_range:
  assumes "s \<le> n" "0 < n"
  shows "(s * 10000 + n div 2) div n \<le> (10000 :: nat)"
proof -
  have "s * 10000 + n div 2 < n * 10001" using assms by (intro add_le_less_mono [of _ "n * 10000" _ n, simplified, THEN order.strict_trans2]) auto
  then have "(s * 10000 + n div 2) div n < 10001" using assms(2) by (simp add: less_mult_imp_div_less mult.commute)
  then show ?thesis by simp
qed

lemma extract_features_range:
  assumes "\<forall>f\<in>set (ep_samples ep). length (frame_values f) = 15"
  shows "\<exists>r. extract_features ep = Some r \<and> (\<forall>f. r = Some f \<longrightarrow> features_in_range f)"
proof -
  let ?x0 = "\<lparr>ex_longitudinal = Fin 0, ex_lateral = Fin 0, ex_dispersion = Fin 0, ex_slipping = 0, ex_previous = -1\<rparr>"
  let ?n = "length (ep_samples ep)"
  show ?thesis
  proof (cases "(ep_terminal ep = ''COMPLETE'' \<or> ep_terminal ep = ''TRUNCATED_MAX_DURATION'') \<and> 20 \<le> ?n \<and> ?n \<le> 120")
    case False
    then show ?thesis by (auto simp: extract_features_def Let_def not_less)
  next
    case True
    show ?thesis
    proof (cases "extract_loop ep ?x0 (ep_samples ep)")
      case None
      with True show ?thesis by (auto simp: extract_features_def Let_def)
    next
      case (Some x)
      from extract_loop_ok [OF Some _ assms] have x: "extraction_ok x" "ex_slipping x \<le> ?n"
        by (auto simp: extraction_ok_def)
      obtain a where a: "bps (ex_longitudinal x) (rnd (20 / 100)) = Some a" "0 \<le> a" "a \<le> 10000"
        using bps_rnd_range [of "ex_longitudinal x" "20 / 100"] x by (auto simp: extraction_ok_def)
      obtain b where b: "bps (ex_lateral x) (Fin 8) = Some b" "0 \<le> b" "b \<le> 10000"
        using bps_range [of "ex_lateral x" 8] x by (auto simp: extraction_ok_def)
      obtain c where c: "bps (ex_dispersion x) (rnd (15 / 100)) = Some c" "0 \<le> c" "c \<le> 10000"
        using bps_rnd_range [of "ex_dispersion x" "15 / 100"] x by (auto simp: extraction_ok_def)
      have "(ex_slipping x * 10000 + ?n div 2) div ?n \<le> 10000"
        by (rule persistence_range) (use x True in auto)
      with True Some a b c show ?thesis
        by (auto simp: extract_features_def Let_def features_in_range_def)
    qed
  qed
qed

section \<open>The assessment keeps its invariant\<close>

definition model_ok :: "ModelState \<Rightarrow> bool" where
  "model_ok s \<longleftrightarrow>
     length (recent s) \<le> 128 \<and> distinct (recent s) \<and> list_all is_uuid (recent s) \<and>
     0 \<le> score s \<and> score s \<le> 100 \<and> 0 \<le> confidence s \<and> confidence s \<le> 100 \<and>
     0 \<le> better_count s \<and> better_count s \<le> 2 \<and> (better s = NotEvaluated \<longleftrightarrow> better_count s = 0) \<and>
     (better s \<noteq> NotEvaluated \<longrightarrow> better s < band s) \<and>
     (band s = NotEvaluated \<longleftrightarrow> recent s = []) \<and>
     last_source s = (if recent s = [] then [] else last (recent s))"

lemma raw_band_evaluated [simp]: "raw_band n \<noteq> NotEvaluated" "NotEvaluated \<noteq> raw_band n"
  by (auto simp: raw_band_def)

lemma score_range: "features_in_range f \<Longrightarrow> 0 \<le> load_of f \<and> load_of f \<le> 10000 \<and> 0 \<le> score_of f \<and> score_of f \<le> 100"
proof -
  assume "features_in_range f"
  then have b: "0 \<le> longitudinal f" "longitudinal f \<le> 10000" "0 \<le> lateral f" "lateral f \<le> 10000"
    "0 \<le> dispersion f" "dispersion f \<le> 10000" "0 \<le> persistence f" "persistence f \<le> 10000"
    by (auto simp: features_in_range_def)
  then have "0 \<le> load_of f" "load_of f \<le> 10000" unfolding load_of_def by linarith+
  then show ?thesis unfolding score_of_def by linarith
qed

lemma band_step_fields [simp]:
  "recent (band_step r s) = recent s" "score (band_step r s) = score s" "confidence (band_step r s) = confidence s"
  "last_source (band_step r s) = last_source s" "last_assessment (band_step r s) = last_assessment s"
  by (auto simp: band_step_def Let_def)

lemma band_step_counts:
  assumes "r \<noteq> NotEvaluated" "0 \<le> better_count s" "better_count s \<le> 2" "better s = NotEvaluated \<longleftrightarrow> better_count s = 0"
    "better s \<noteq> NotEvaluated \<longrightarrow> better s < band s"
  shows "0 \<le> better_count (band_step r s) \<and> better_count (band_step r s) \<le> 2 \<and>
    (better (band_step r s) = NotEvaluated \<longleftrightarrow> better_count (band_step r s) = 0) \<and>
    (better (band_step r s) \<noteq> NotEvaluated \<longrightarrow> better (band_step r s) < band (band_step r s)) \<and>
    band (band_step r s) \<noteq> NotEvaluated"
  using assms by (auto simp: band_step_def Let_def)

lemma remember_facts:
  assumes "distinct rs" "length rs \<le> 128" "list_all is_uuid rs" "x \<notin> set rs" "is_uuid x"
  shows "distinct (remember x rs) \<and> length (remember x rs) \<le> 128 \<and> list_all is_uuid (remember x rs) \<and>
    remember x rs \<noteq> [] \<and> last (remember x rs) = x"
  using assms by (cases rs) (auto simp: remember_def Let_def list_all_iff)

lemma assess_cases:
  obtains (rejected) "assess s f n src = (s, None)"
    "n < 20 \<or> n > 120 \<or> \<not> is_uuid src \<or> \<not> features_in_range f \<or> src \<in> set (recent s)"
  | (accepted) a where "20 \<le> n" "n \<le> 120" "is_uuid src" "features_in_range f" "src \<notin> set (recent s)"
    "assess s f n src = ((band_step (raw_band (score_of f)) s)
        \<lparr>score := score_of f, confidence := min 100 ((n * 100 + 20) div 40), last_source := src,
         recent := remember src (recent s)\<rparr>, Some a)"
    "as_score a = score_of f" "as_load a = load_of f" "as_confidence a = min 100 ((n * 100 + 20) div 40)"
    "as_previous a = band s" "as_current a = band (band_step (raw_band (score_of f)) s)"
    "as_changed a = (as_previous a \<noteq> as_current a)" "as_features a = f" "as_samples a = n"
proof (cases "n < 20 \<or> n > 120 \<or> \<not> is_uuid src \<or> \<not> features_in_range f \<or> src \<in> set (recent s)")
  case True
  then show thesis by (intro rejected) (auto simp: assess_def)
next
  case False
  let ?s = "band_step (raw_band (score_of f)) s"
  let ?a = "\<lparr>as_features = f, as_samples = n, as_load = load_of f, as_score = score_of f,
    as_confidence = min 100 ((n * 100 + 20) div 40), as_previous = band s, as_current = band ?s,
    as_changed = (band s \<noteq> band ?s)\<rparr>"
  from False show thesis by (intro accepted [of ?a]) (auto simp: assess_def Let_def)
qed

lemma assess_keeps_ok:
  assumes "model_ok s"
  shows "model_ok (fst (assess s f n src))"
proof (cases rule: assess_cases [where s = s and f = f and n = n and src = src])
  case rejected
  with assms show ?thesis by simp
next
  case (accepted a)
  let ?b = "band_step (raw_band (score_of f)) s"
  have c: "0 \<le> better_count ?b \<and> better_count ?b \<le> 2 \<and> (better ?b = NotEvaluated \<longleftrightarrow> better_count ?b = 0) \<and>
    (better ?b \<noteq> NotEvaluated \<longrightarrow> better ?b < band ?b) \<and> band ?b \<noteq> NotEvaluated"
    by (rule band_step_counts) (use assms in \<open>auto simp: model_ok_def\<close>)
  have r: "distinct (remember src (recent s)) \<and> length (remember src (recent s)) \<le> 128 \<and>
    list_all is_uuid (remember src (recent s)) \<and> remember src (recent s) \<noteq> [] \<and> last (remember src (recent s)) = src"
    by (rule remember_facts) (use assms accepted in \<open>auto simp: model_ok_def\<close>)
  have "0 \<le> min 100 ((n * 100 + 20) div 40)" using accepted(1) by simp
  with c r score_range [OF accepted(4)] show ?thesis
    unfolding accepted(6) model_ok_def by simp
qed

section \<open>Hysteresis\<close>

text \<open>
  The specification of the band from the raw bands of all accepted assessments, newest first: a raw band
  that is no better takes effect at once, a better one when it is the third in a row.
\<close>

fun spec_band :: "Band list \<Rightarrow> Band" where
  "spec_band [] = NotEvaluated"
| "spec_band (r # rs) =
     (if spec_band rs = NotEvaluated \<or> spec_band rs \<le> r then r
      else if take 2 rs = [r, r] then r else spec_band rs)"

definition tracks :: "Band list \<Rightarrow> ModelState \<Rightarrow> bool" where
  "tracks h s \<longleftrightarrow>
     band s = spec_band h \<and> (better s \<noteq> NotEvaluated \<longleftrightarrow> h \<noteq> [] \<and> hd h < band s) \<and>
     (better s \<noteq> NotEvaluated \<longrightarrow> better s = hd h) \<and>
     better_count s = (if better s = NotEvaluated then 0 else if take 2 h = [better s, better s] then 2 else 1)"

lemma band_step_tracks:
  assumes t: "tracks h s" and r: "r \<noteq> NotEvaluated"
  shows "tracks (r # h) (band_step r s)"
proof -
  consider "band s = NotEvaluated \<or> band s \<le> r" | "band s \<noteq> NotEvaluated" "r < band s" "better s \<noteq> r"
    | "band s \<noteq> NotEvaluated" "r < band s" "better s = r"
    by fastforce
  then show ?thesis
  proof cases
    case 1
    with t show ?thesis by (auto simp: tracks_def band_step_def Let_def)
  next
    case 2
    with t have "h = [] \<or> hd h \<noteq> r" by (auto simp: tracks_def)
    then have "take 2 h \<noteq> [r, r]" "take (Suc 0) h \<noteq> [r]" by (cases h; auto simp: numeral_2_eq_2)+
    with 2 t r show ?thesis by (auto simp: tracks_def band_step_def Let_def numeral_2_eq_2)
  next
    case 3
    with t r have "h \<noteq> []" "hd h = r" by (auto simp: tracks_def)
    then have "take (Suc 0) h = [r]" by (cases h) auto
    with 3 t r show ?thesis by (auto simp: tracks_def band_step_def Let_def numeral_2_eq_2)
  qed
qed

text \<open>A run of the model over any inputs, with the raw bands it accepted.\<close>

type_synonym assess_input = "Features \<times> int \<times> string"

fun run_assess :: "ModelState \<times> Band list \<Rightarrow> assess_input list \<Rightarrow> ModelState \<times> Band list" where
  "run_assess (s, h) [] = (s, h)"
| "run_assess (s, h) ((f, n, src) # xs) =
     (case assess s f n src of
        (s', None) \<Rightarrow> run_assess (s', h) xs
      | (s', Some a) \<Rightarrow> run_assess (s', raw_band (as_score a) # h) xs)"

lemma tracks_fields:
  "tracks h (s\<lparr>score := a, confidence := b, last_source := c, recent := d\<rparr>) \<longleftrightarrow> tracks h s"
  by (simp add: tracks_def)

lemma run_assess_tracks: "tracks h s \<Longrightarrow> run_assess (s, h) xs = (s', h') \<Longrightarrow> tracks h' s'"
proof (induction "(s, h)" xs arbitrary: s h rule: run_assess.induct)
  case (2 s h f n src xs)
  show ?case
  proof (cases rule: assess_cases [where s = s and f = f and n = n and src = src])
    case rejected
    with 2 show ?thesis by simp
  next
    case (accepted a)
    then have "tracks (raw_band (as_score a) # h) (fst (assess s f n src))"
      using band_step_tracks [OF "2.prems"(1)] by (simp add: tracks_fields)
    with 2 accepted show ?thesis by simp
  qed
qed simp

section \<open>Episodes are well formed\<close>

text \<open>A frame as \<open>complete_frame\<close> assembles it.\<close>

definition frame_good :: "Frame \<Rightarrow> bool" where
  "frame_good f \<longleftrightarrow>
     length (frame_values f) = 15 \<and> list_all isfinite (frame_values f) \<and> \<not> dless (frame_values f ! 0) (Fin 0) \<and>
     list_all (\<lambda>v. \<not> dless v (Fin 0)) (wheel_speeds f)"

lemma complete_frame_good:
  assumes "length signals = 15" "complete_frame signals wall = Some f"
  shows "frame_good f"
proof -
  have f: "frame_values f = map sig_value signals" "list_all (signal_usable (sig_epoch_ms (signals ! 0)) wall) signals"
    "\<not> dless (map sig_value signals ! 0) (Fin 0)" "\<not> list_ex (\<lambda>v. dless v (Fin 0)) (take 4 (drop 3 (map sig_value signals)))"
    using assms(2) unfolding complete_frame_def Let_def by (auto split: if_splits)
  then have "list_all isfinite (frame_values f)" by (auto simp: list_all_iff signal_usable_def)
  with f(3,4) assms(1) show ?thesis
    unfolding frame_good_def wheel_speeds_def f(1) by (simp add: list_all_iff list_ex_iff)
qed

abbreviation spaced :: "Frame list \<Rightarrow> bool" where
  "spaced fs \<equiv> sorted_wrt (\<lambda>a b. frame_epoch_ms a + 100 \<le> frame_epoch_ms b) fs"

definition samples_ok :: "Episode \<Rightarrow> bool" where
  "samples_ok ep \<longleftrightarrow>
     ep_samples ep \<noteq> [] \<and> length (ep_samples ep) \<le> 120 \<and> spaced (ep_samples ep) \<and> list_all frame_good (ep_samples ep) \<and>
     frame_epoch_ms (hd (ep_samples ep)) = ep_started ep \<and> 0 \<le> ep_started ep \<and>
     frame_epoch_ms (last (ep_samples ep)) \<le> ep_ended ep \<and> is_uuid (ep_id ep)"

definition engine_ok :: "EpisodeEngine \<Rightarrow> bool" where
  "engine_ok e \<longleftrightarrow>
     (case current e of None \<Rightarrow> True
      | Some ep \<Rightarrow> samples_ok ep \<and> \<not> suppressed e \<and> ep_ended ep = previous e \<and>
          ep_ended ep < ep_started ep + 12000 \<and> retained e = frame_epoch_ms (last (ep_samples ep)))"

definition episode_ok :: "Episode \<Rightarrow> bool" where
  "episode_ok ep \<longleftrightarrow>
     samples_ok ep \<and>
     (ep_terminal ep = ''COMPLETE'' \<and> ep_ended ep < ep_started ep + 12000 \<or>
      ep_terminal ep = ''TRUNCATED_MAX_DURATION'' \<and> ep_started ep + 12000 \<le> ep_ended ep \<and>
        ep_ended ep < ep_started ep + 12250 \<or>
      ep_terminal ep = ''INCOMPLETE_SOURCE_GAP'' \<and> ep_ended ep < ep_started ep + 12000)"

lemma spaced_last: "spaced fs \<Longrightarrow> a \<in> set fs \<Longrightarrow> frame_epoch_ms a \<le> frame_epoch_ms (last fs)"
proof (induction fs)
  case (Cons f fs)
  show ?case
  proof (cases "fs = []")
    case False
    then have "last fs \<in> set fs" by simp
    then have "frame_epoch_ms f + 100 \<le> frame_epoch_ms (last fs)" using Cons.prems by simp
    then have "frame_epoch_ms f \<le> frame_epoch_ms (last fs)" by linarith
    with Cons False show ?thesis by (cases "a = f") simp_all
  qed (use Cons in simp)
qed simp

lemma samples_started: "samples_ok ep \<Longrightarrow> ep_started ep \<le> frame_epoch_ms (last (ep_samples ep))"
  using spaced_last [of "ep_samples ep" "hd (ep_samples ep)"] by (auto simp: samples_ok_def)

lemma spaced_snoc:
  assumes "spaced fs" "fs \<noteq> []" "frame_epoch_ms (last fs) + 100 \<le> frame_epoch_ms f"
  shows "spaced (fs @ [f])"
proof -
  have "frame_epoch_ms a \<le> frame_epoch_ms (last fs)" if "a \<in> set fs" for a
    using spaced_last [OF assms(1) that] .
  then show ?thesis using assms by (fastforce simp: sorted_wrt_append)
qed

text \<open>\<open>opened\<close> describes the arguments of \<open>extend_episode\<close>: an episode just opened or one that goes on.\<close>

definition extendable :: "EpisodeEngine \<Rightarrow> Episode \<Rightarrow> Frame \<Rightarrow> bool" where
  "extendable e ep f \<longleftrightarrow>
     frame_good f \<and> 0 \<le> frame_epoch_ms f \<and> \<not> suppressed e \<and> previous e = frame_epoch_ms f \<and> is_uuid (ep_id ep) \<and>
     (ep_samples ep = [] \<and> ep_started ep = frame_epoch_ms f \<and> retained e < 0 \<or>
      samples_ok ep \<and> ep_ended ep < frame_epoch_ms f \<and> frame_epoch_ms f \<le> ep_ended ep + 250 \<and>
      ep_ended ep < ep_started ep + 12000 \<and> retained e = frame_epoch_ms (last (ep_samples ep)))"

definition kept :: "EpisodeEngine \<Rightarrow> Episode \<Rightarrow> Frame \<Rightarrow> Episode" where
  "kept e ep f =
     (if (retained e < 0 \<or> frame_epoch_ms f - retained e \<ge> 100) \<and> length (ep_samples ep) < 120
      then ep\<lparr>ep_ended := frame_epoch_ms f, ep_samples := ep_samples ep @ [f]\<rparr>
      else ep\<lparr>ep_ended := frame_epoch_ms f\<rparr>)"

lemma kept_samples_ok:
  assumes "extendable e ep f"
  shows "samples_ok (kept e ep f)"
proof (cases "ep_samples ep = []")
  case True
  with assms show ?thesis by (auto simp: extendable_def kept_def samples_ok_def)
next
  case False
  then have *: "samples_ok ep" "ep_ended ep < frame_epoch_ms f" "retained e = frame_epoch_ms (last (ep_samples ep))"
    "frame_good f" "0 \<le> frame_epoch_ms f"
    using assms by (auto simp: extendable_def)
  then show ?thesis
    using False samples_started [OF *(1)] spaced_snoc [of "ep_samples ep" f] by (auto simp: kept_def samples_ok_def)
qed

lemma extend_episode_ok:
  assumes x: "extendable e ep f" and i: "extend_episode e ep f = (e', r)"
  shows "engine_ok e' \<and> (\<forall>ep'. r = Some ep' \<longrightarrow> episode_ok ep')"
proof -
  let ?k = "kept e ep f"
  have ok: "samples_ok ?k" "ep_ended ?k = frame_epoch_ms f" "ep_started ?k = ep_started ep"
    using kept_samples_ok [OF x] by (auto simp: kept_def)
  have terminal: "samples_ok (?k\<lparr>ep_terminal := t\<rparr>)" for t using ok(1) by (simp add: samples_ok_def)
  have bound: "frame_epoch_ms f < ep_started ep + 12250" using x by (auto simp: extendable_def)
  have ret: "(if (retained e < 0 \<or> frame_epoch_ms f - retained e \<ge> 100) \<and> length (ep_samples ep) < 120
      then frame_epoch_ms f else retained e) = frame_epoch_ms (last (ep_samples ?k))"
    using x by (auto simp: kept_def extendable_def)
  have prev: "previous e = frame_epoch_ms f" "\<not> suppressed e" using x by (auto simp: extendable_def)
  have step: "ep\<lparr>ep_ended := frame_epoch_ms f, ep_samples := (if (retained e < 0 \<or> frame_epoch_ms f - retained e \<ge> 100) \<and>
      length (ep_samples ep) < 120 then ep_samples ep @ [f] else ep_samples ep)\<rparr> = ?k"
    by (simp add: kept_def)
  show ?thesis
    using i ok terminal bound prev
    unfolding extend_episode_def Let_def step ret
    by (auto simp: engine_ok_def episode_ok_def split: if_splits)
qed

lemma advance_engine_ok:
  assumes f: "frame_good f" "0 \<le> frame_epoch_ms f" and u: "is_uuid uuid"
    and e: "previous e = frame_epoch_ms f"
      "case current e of None \<Rightarrow> True | Some ep \<Rightarrow> extendable e ep f"
    and i: "advance_engine e uuid f = (e', r)"
  shows "engine_ok e' \<and> (\<forall>ep'. r = Some ep' \<longrightarrow> episode_ok ep')"
proof (cases "current e")
  case (Some ep)
  then have x: "extendable e ep f" using e by simp
  then have "extend_episode e ep f = (e', r)"
    using i Some by (simp add: advance_engine_def extendable_def)
  with x show ?thesis by (rule extend_episode_ok)
next
  case None
  define e1 where "e1 = (if activation e < 0 then e\<lparr>activation := frame_epoch_ms f\<rparr> else e)\<lparr>retained := -1\<rparr>"
  let ?ep = "\<lparr>ep_id = uuid, ep_started = frame_epoch_ms f, ep_ended = frame_epoch_ms f, ep_samples = [], ep_terminal = []\<rparr>"
  have quiet: "engine_ok e'" if "current e' = None" using that by (simp add: engine_ok_def)
  show ?thesis
  proof (cases "suppressed e \<or> \<not> activating f \<or> frame_epoch_ms f - activation (e1\<lparr>retained := 0\<rparr>) < 500")
    case True
    then have "current e' = None" "r = None"
      using i None by (auto simp: advance_engine_def Let_def e1_def split: if_splits)
    with quiet show ?thesis by simp
  next
    case False
    then have "extend_episode e1 ?ep f = (e', r)"
      using i None by (auto simp: advance_engine_def Let_def e1_def split: if_splits)
    moreover have "extendable e1 ?ep f" using f u e False by (auto simp: extendable_def e1_def)
    ultimately show ?thesis using extend_episode_ok by blast
  qed
qed

lemma ingest_ok:
  assumes e: "engine_ok e" and f: "frame_good f" "0 \<le> frame_epoch_ms f" and u: "is_uuid uuid"
    and i: "ingest e uuid f = (e', r)"
  shows "engine_ok e' \<and> (\<forall>ep. r = Some ep \<longrightarrow> episode_ok ep)"
proof -
  let ?now = "frame_epoch_ms f"
  let ?e = "e\<lparr>previous := ?now, clear := (if clearing f then if clear e < 0 then ?now else clear e else -1)\<rparr>"
  have fin: "list_all isfinite (frame_values f)" using f by (simp add: frame_good_def)
  have aborted: "\<forall>ep. snd (abort_episode e ''INCOMPLETE_SOURCE_GAP'') = Some ep \<longrightarrow> episode_ok ep"
    using e by (auto simp: abort_episode_def engine_ok_def episode_ok_def samples_ok_def)
  consider (same) "0 \<le> previous e" "?now = previous e"
    | (gap) "0 \<le> previous e" "?now \<noteq> previous e" "?now < previous e \<or> ?now - previous e > 250"
    | (go) "previous e < 0 \<or> previous e < ?now \<and> ?now \<le> previous e + 250"
    by linarith
  then show ?thesis
  proof cases
    case same
    with i fin e show ?thesis by (auto simp: ingest_def)
  next
    case gap
    with i fin aborted show ?thesis
      by (auto simp: ingest_def Let_def abort_episode_def engine_ok_def initial_engine_def)
  next
    case go
    then have "advance_engine ?e uuid f = (e', r)" using i fin f by (auto simp: ingest_def Let_def)
    moreover have "case current ?e of None \<Rightarrow> True | Some ep \<Rightarrow> extendable ?e ep f"
    proof (cases "current e")
      case (Some ep)
      then have ep: "samples_ok ep" "\<not> suppressed e" "ep_ended ep = previous e" "ep_ended ep < ep_started ep + 12000"
        "retained e = frame_epoch_ms (last (ep_samples ep))"
        using e by (auto simp: engine_ok_def)
      with samples_started [OF ep(1)] have "0 \<le> previous e" by (auto simp: samples_ok_def)
      with go ep f Some show ?thesis by (auto simp: extendable_def samples_ok_def)
    qed simp
    ultimately show ?thesis using advance_engine_ok [OF f u, of ?e e' r] by simp
  qed
qed

lemma extract_frame_good:
  assumes "frame_good f"
  shows "\<exists>y. extract_frame x f = Some y \<and> ex_previous y = frame_epoch_ms f"
proof -
  have w: "list_all isfinite (wheel_speeds f)" "wheel_speeds f \<noteq> []"
    using frame_parts_finite [of f] assms by (auto simp: frame_good_def)
  have low: "\<not> dless (foldl dmin a us) (Fin 0)" if "\<not> dless a (Fin 0)" "list_all (\<lambda>v. \<not> dless v (Fin 0)) us" for a us
    using that by (induction us arbitrary: a) (auto simp: dmin_def)
  have "\<not> dless (fst (minmax (wheel_speeds f))) (Fin 0)"
    using assms w low by (cases "wheel_speeds f") (auto simp: minmax_def frame_good_def)
  then show ?thesis by (auto simp: extract_frame_def Let_def split: prod.splits)
qed

lemma extract_loop_total:
  assumes "\<forall>f\<in>set fs. ex_previous x < frame_epoch_ms f \<and> ep_started ep \<le> frame_epoch_ms f \<and> frame_epoch_ms f \<le> ep_ended ep"
    "list_all frame_good fs" "spaced fs"
  shows "\<exists>y. extract_loop ep x fs = Some y"
  using assms
proof (induction fs arbitrary: x)
  case (Cons f fs)
  then obtain y where y: "extract_frame x f = Some y" "ex_previous y = frame_epoch_ms f"
    using extract_frame_good [of f x] by auto
  have "\<not> frame_rejected ep (ex_previous x) f"
    using Cons.prems by (auto simp: frame_rejected_def frame_good_def)
  moreover have "\<exists>z. extract_loop ep y fs = Some z"
    by (rule Cons.IH) (use Cons.prems y in force)+
  ultimately show ?case using y by simp
qed simp

lemma samples_within:
  assumes "samples_ok ep" "f \<in> set (ep_samples ep)"
  shows "ep_started ep \<le> frame_epoch_ms f" "frame_epoch_ms f \<le> ep_ended ep" "-1 < frame_epoch_ms f"
proof -
  show u: "frame_epoch_ms f \<le> ep_ended ep"
    using spaced_last [of "ep_samples ep" f] assms by (auto simp: samples_ok_def)
  show l: "ep_started ep \<le> frame_epoch_ms f"
    using assms by (cases "ep_samples ep") (auto simp: samples_ok_def)
  then show "-1 < frame_epoch_ms f" using assms(1) by (simp add: samples_ok_def)
qed

lemma features_available:
  assumes ok: "episode_ok ep" and t: "ep_terminal ep \<noteq> ''INCOMPLETE_SOURCE_GAP''" and n: "20 \<le> length (ep_samples ep)"
  shows "\<exists>f. extract_features ep = Some (Some f) \<and> features_in_range f"
proof -
  have s: "samples_ok ep" using ok by (simp add: episode_ok_def)
  then have len: "length (ep_samples ep) \<le> 120" "\<forall>f\<in>set (ep_samples ep). length (frame_values f) = 15"
    by (auto simp: samples_ok_def list_all_iff frame_good_def)
  obtain x where "extract_loop ep \<lparr>ex_longitudinal = Fin 0, ex_lateral = Fin 0, ex_dispersion = Fin 0,
       ex_slipping = 0, ex_previous = -1\<rparr> (ep_samples ep) = Some x"
    using extract_loop_total [of "ep_samples ep" "\<lparr>ex_longitudinal = Fin 0, ex_lateral = Fin 0, ex_dispersion = Fin 0,
       ex_slipping = 0, ex_previous = -1\<rparr>" ep] samples_within [OF s] s
    by (auto simp: samples_ok_def)
  moreover have "ep_terminal ep = ''COMPLETE'' \<or> ep_terminal ep = ''TRUNCATED_MAX_DURATION''"
    using ok t by (auto simp: episode_ok_def)
  moreover obtain r where "extract_features ep = Some r" "\<forall>f. r = Some f \<longrightarrow> features_in_range f"
    using extract_features_range [OF len(2)] by blast
  ultimately show ?thesis
    using n len(1) by (auto simp: extract_features_def Let_def split: option.splits)
qed

section \<open>Properties\<close>

text \<open>Feature extraction never performs an undefined conversion to \<^verbatim>\<open>int\<close>, whatever finite or overflowing values
  the samples hold, and every feature it returns lies between 0 and 10000.\<close>

theorem extract_features_defined:
  assumes "\<forall>f\<in>set (ep_samples ep). length (frame_values f) = 15"
  shows "\<exists>r. extract_features ep = Some r \<and> (\<forall>f. r = Some f \<longrightarrow> features_in_range f)"
  using assms by (rule extract_features_range)

theorem extract_features_defined_witness:
  "\<exists>r. extract_features \<lparr>ep_id = ''x'', ep_started = 0, ep_ended = 9,
         ep_samples = [\<lparr>frame_values = replicate 15 (Fin 1), frame_epoch_ms = 3\<rparr>], ep_terminal = ''COMPLETE''\<rparr> = Some r"
  using extract_features_defined [of "\<lparr>ep_id = ''x'', ep_started = 0, ep_ended = 9, ep_samples = [\<lparr>frame_values = replicate 15 (Fin 1), frame_epoch_ms = 3\<rparr>],
     ep_terminal = ''COMPLETE''\<rparr>"] by auto

text \<open>Assessing keeps the invariant of the model: at most 128 distinct remembered sources, scores and
  confidence within 0 to 100, an improvement count below three that belongs to a better band.\<close>

theorem assess_preserves_model_ok:
  assumes "model_ok s"
  shows "model_ok (fst (assess s f n src))"
  using assms by (rule assess_keeps_ok)

theorem assess_preserves_model_ok_witness:
  "model_ok initial_model \<and>
   model_ok (fst (assess initial_model \<lparr>longitudinal = 100, lateral = 0, dispersion = 0, persistence = 0\<rparr> 40 ''x''))"
proof -
  have "model_ok initial_model" by (simp add: model_ok_def initial_model_def)
  with assess_preserves_model_ok [of initial_model] show ?thesis by blast
qed

text \<open>C22: an assessment is accepted exactly when the sample count is 20 to 120, the source is a new UUID and the
  features are in range; otherwise the model is unchanged. An accepted source is never assessed twice in a
  row, and load, score and confidence are within their ranges.\<close>

theorem assess_outcome:
  "case assess s f n src of
     (s', None) \<Rightarrow> s' = s \<and> (n < 20 \<or> 120 < n \<or> \<not> is_uuid src \<or> \<not> features_in_range f \<or> src \<in> set (recent s))
   | (s', Some a) \<Rightarrow>
       20 \<le> n \<and> n \<le> 120 \<and> is_uuid src \<and> features_in_range f \<and> src \<notin> set (recent s) \<and>
       snd (assess s' f n src) = None \<and> 0 \<le> as_load a \<and> as_load a \<le> 10000 \<and>
       0 \<le> as_score a \<and> as_score a \<le> 100 \<and> 50 \<le> as_confidence a \<and> as_confidence a \<le> 100 \<and>
       as_previous a = band s \<and> as_current a = band s' \<and> as_changed a = (band s \<noteq> band s')"
proof (cases rule: assess_cases [where s = s and f = f and n = n and src = src])
  case rejected
  then show ?thesis by auto
next
  case (accepted a)
  have "50 \<le> min 100 ((n * 100 + 20) div 40)" using accepted(1) by simp
  moreover have "src \<in> set (remember src (recent s))" by (cases "recent s") (auto simp: remember_def Let_def)
  ultimately show ?thesis
    using score_range [OF accepted(4)] unfolding accepted(6)
    by (simp add: accepted(1-5,7-12) assess_def [of "_\<lparr>recent := _\<rparr>"])
qed

theorem assess_outcome_witness:
  "snd (assess initial_model \<lparr>longitudinal = 0, lateral = 0, dispersion = 0, persistence = 0\<rparr> 19 ''x'') = None"
  using assess_outcome [where s = initial_model and n = 19 and src = "''x''"
    and f = "\<lparr>longitudinal = 0, lateral = 0, dispersion = 0, persistence = 0\<rparr>"]
  by (auto split: prod.splits option.splits)

text \<open>C10: after any sequence of assessments the band is the one the hysteresis rule prescribes for the accepted
  raw bands: worse at once, better only on the third equal result in a row.\<close>

theorem band_hysteresis:
  "case run_assess (initial_model, []) xs of (s, h) \<Rightarrow> band s = spec_band h"
proof -
  have "tracks [] initial_model" by (simp add: tracks_def initial_model_def)
  from run_assess_tracks [OF this] show ?thesis by (auto simp: tracks_def split: prod.splits)
qed

text \<open>C18: the engine keeps its invariant on every frame, and each episode it emits has an identifier, at most 120
  good samples at least 100 ms apart inside its bounds, and a duration that fits its terminal state: below
  12 s when complete, 12 s to 12.25 s when truncated.\<close>

theorem ingest_invariant:
  assumes "engine_ok e" "frame_good f" "0 \<le> frame_epoch_ms f" "is_uuid uuid" "ingest e uuid f = (e', r)"
  shows "engine_ok e' \<and> (\<forall>ep. r = Some ep \<longrightarrow> episode_ok ep)"
  using assms by (rule ingest_ok)

theorem ingest_invariant_witness:
  "engine_ok (fst (ingest initial_engine ''6ba7b810-9dad-11d1-80b4-00c04fd430c8''
     \<lparr>frame_values = replicate 15 (Fin 20), frame_epoch_ms = 1000\<rparr>))"
proof -
  let ?f = "\<lparr>frame_values = replicate 15 (Fin 20), frame_epoch_ms = 1000\<rparr>" and ?u = "''6ba7b810-9dad-11d1-80b4-00c04fd430c8''"
  have "engine_ok initial_engine" "frame_good ?f" "is_uuid ?u"
    by (simp add: engine_ok_def initial_engine_def, simp add: frame_good_def wheel_speeds_def list_all_iff, code_simp)
  with ingest_invariant [of initial_engine ?f ?u] show ?thesis
    by (cases "ingest initial_engine ?u ?f") auto
qed

text \<open>C21: a complete or truncated episode of at least 20 samples always yields features: nothing the engine
  emits is rejected by the extraction.\<close>

theorem episode_yields_features:
  assumes "engine_ok e" "frame_good f" "0 \<le> frame_epoch_ms f" "is_uuid uuid" "ingest e uuid f = (e', Some ep)"
    "ep_terminal ep \<noteq> ''INCOMPLETE_SOURCE_GAP''" "20 \<le> length (ep_samples ep)"
  shows "\<exists>g. extract_features ep = Some (Some g) \<and> features_in_range g"
  using ingest_ok [OF assms(1-5)] assms(6,7) features_available by blast

definition sample_frame :: "int \<Rightarrow> Frame" where
  "sample_frame t = \<lparr>frame_values = replicate 15 (Fin 1), frame_epoch_ms = t\<rparr>"

definition sample_engine :: EpisodeEngine where
  "sample_engine =
     \<lparr>current = Some \<lparr>ep_id = ''6ba7b810-9dad-11d1-80b4-00c04fd430c8'', ep_started = 1000, ep_ended = 2900,
        ep_samples = map (\<lambda>i. sample_frame (1000 + 100 * int i)) [0..<20], ep_terminal = []\<rparr>,
      activation = 500, clear = 1950, previous = 2900, retained = 2900, suppressed = False\<rparr>"

lemma sample_frame_good: "frame_good (sample_frame t)"
  by (simp add: frame_good_def sample_frame_def wheel_speeds_def list_all_iff)

lemma sample_engine_ok: "engine_ok sample_engine"
proof -
  have "is_uuid ''6ba7b810-9dad-11d1-80b4-00c04fd430c8''" by code_simp
  moreover have "[0..<20] = 0 # [1..<20]" "last [0..<20] = (19 :: nat)" by (simp_all add: upt_conv_Cons)
  moreover have "spaced (map (\<lambda>i. sample_frame (1000 + 100 * int i)) [0..<20])"
    by (simp add: sorted_wrt_map sample_frame_def) (rule sorted_wrt_mono_rel [OF _ sorted_wrt_upt], auto)
  ultimately show ?thesis
    by (simp add: engine_ok_def samples_ok_def sample_engine_def last_map hd_map sample_frame_good list_all_iff)
       (simp add: sample_frame_def)
qed

theorem episode_yields_features_witness:
  "\<exists>ep g. snd (ingest sample_engine ''x'' (sample_frame 3000)) = Some ep \<and> length (ep_samples ep) = 21 \<and>
     extract_features ep = Some (Some g)"
proof -
  let ?u = "''6ba7b810-9dad-11d1-80b4-00c04fd430c8''"
  have f: "frame_epoch_ms (sample_frame 3000) = 3000" "clearing (sample_frame 3000)"
    "list_all isfinite (frame_values (sample_frame 3000))"
    by (simp_all add: sample_frame_def clearing_def dle_def list_all_iff)
  obtain e' ep where r: "ingest sample_engine ?u (sample_frame 3000) = (e', Some ep)" "length (ep_samples ep) = 21"
      "ep_terminal ep = ''COMPLETE''" "snd (ingest sample_engine ''x'' (sample_frame 3000)) = Some ep"
    by (simp add: f ingest_def sample_engine_def advance_engine_def extend_episode_def clear_elapsed_def Let_def)
  have "is_uuid ?u" by code_simp
  from episode_yields_features [OF sample_engine_ok sample_frame_good _ this r(1)] r show ?thesis
    by (auto simp: sample_frame_def)
qed

end
