(* ===== verification/Files.thy ===== *)
theory Files
  imports Protocol
begin

text \<open>
  The file operations of \<^verbatim>\<open>src/state.cpp\<close> and \<^verbatim>\<open>src/runtime/posix.cpp\<close> over a model of the two
  directories of the state store. Every system call that changes a directory is one atomic step. A script
  decides for each step whether it succeeds, fails or is the point at which the process or the machine
  stops, so that a statement over all scripts covers every placement of failures and crashes. A step that
  has returned is durable: the code syncs a file before it renames it and a directory before it goes on.
\<close>

section \<open>Directories and faults\<close>

datatype place = Root | Outbox

record entry =
  entry_bytes :: string
  entry_private :: bool

type_synonym directory = "(string, entry) dict"

text \<open>
  \<open>Partial n\<close> and \<open>Interrupted\<close> concern \<^verbatim>\<open>write\<close>: the call wrote some of its bytes, or was interrupted
  by a signal. \<open>Crash s\<close> stops the program; \<open>s\<close> is what an unfinished write leaves in the file.
\<close>

datatype fault = Fine | Partial nat | Interrupted | Fail | Crash string

text \<open>\<open>memory\<close> is the member \<^verbatim>\<open>state_\<close> of the store object, which a crash loses and a throw keeps.\<close>

record world =
  dirs :: "place \<Rightarrow> directory"
  dir_ok :: "place \<Rightarrow> bool"
  script :: "fault list"
  memory :: json

datatype 'a outcome = Done 'a | Threw exn | Crashed

type_synonym 'a io = "world \<Rightarrow> 'a outcome \<times> world"

definition io_return :: "'a \<Rightarrow> 'a io" where
  "io_return x w = (Done x, w)"

definition io_throw :: "string \<Rightarrow> 'a io" where
  "io_throw e w = (Threw (RuntimeError e), w)"

definition io_bind :: "'a io \<Rightarrow> ('a \<Rightarrow> 'b io) \<Rightarrow> 'b io" where
  "io_bind m f w =
     (case m w of (Done x, w') \<Rightarrow> f x w' | (Threw e, w') \<Rightarrow> (Threw e, w') | (Crashed, w') \<Rightarrow> (Crashed, w'))"

definition io_lift :: "'a result \<Rightarrow> 'a io" where
  "io_lift r w = (case r of Inl e \<Rightarrow> (Threw e, w) | Inr x \<Rightarrow> (Done x, w))"

definition io_throw_if :: "bool \<Rightarrow> string \<Rightarrow> unit io" where
  "io_throw_if b e = (if b then io_throw e else io_return ())"

definition next_fault :: "world \<Rightarrow> fault \<times> world" where
  "next_fault w = (case script w of [] \<Rightarrow> (Fine, w) | f # fs \<Rightarrow> (f, w\<lparr>script := fs\<rparr>))"

definition put_file :: "place \<Rightarrow> string \<Rightarrow> string \<Rightarrow> world \<Rightarrow> world" where
  "put_file p n s w =
     w\<lparr>dirs := (dirs w)(p := dict_set n \<lparr>entry_bytes = s, entry_private = True\<rparr> (dirs w p))\<rparr>"

definition drop_file :: "place \<Rightarrow> string \<Rightarrow> world \<Rightarrow> world" where
  "drop_file p n w = w\<lparr>dirs := (dirs w)(p := dict_erase n (dirs w p))\<rparr>"

definition get_file :: "place \<Rightarrow> string \<Rightarrow> world \<Rightarrow> entry option" where
  "get_file p n w = dict_get (dirs w p) n"

text \<open>A system call with an effect: \<open>Done True\<close> when it succeeded.\<close>

definition syscall :: "(world \<Rightarrow> world) \<Rightarrow> bool io" where
  "syscall effect w =
     (case next_fault w of
        (Fail, w') \<Rightarrow> (Done False, w')
      | (Interrupted, w') \<Rightarrow> (Done False, w')
      | (Crash s, w') \<Rightarrow> (Crashed, w')
      | (Fine, w') \<Rightarrow> (Done True, effect w')
      | (Partial n, w') \<Rightarrow> (Done True, effect w'))"

definition get_memory :: "json io" where
  "get_memory w = (Done (memory w), w)"

definition set_memory :: "json \<Rightarrow> unit io" where
  "set_memory j w = (Done (), w\<lparr>memory := j\<rparr>)"

definition require_ok :: "bool io \<Rightarrow> string \<Rightarrow> unit io" where
  "require_ok m e = io_bind m (\<lambda>ok. io_throw_if (\<not> ok) e)"

section \<open>Reading\<close>

definition file_exists :: "place \<Rightarrow> string \<Rightarrow> bool io" where
  "file_exists p n w = (Done (get_file p n w \<noteq> None), w)"

definition read_file :: "place \<Rightarrow> string \<Rightarrow> nat \<Rightarrow> string io" where
  "read_file p n limit w =
     (case get_file p n w of
        None \<Rightarrow> (Threw (RuntimeError ''INPUT_FILE_UNAVAILABLE''), w)
      | Some f \<Rightarrow>
          if entry_bytes f = [] \<or> length (entry_bytes f) > limit
          then (Threw (RuntimeError ''INPUT_FILE_UNAVAILABLE''), w)
          else (Done (entry_bytes f), w))"

definition private_file :: "place \<Rightarrow> string \<Rightarrow> unit io" where
  "private_file p n w =
     (case get_file p n w of
        Some f \<Rightarrow> if entry_private f then (Done (), w) else (Threw (RuntimeError ''STATE_FILE_INVALID''), w)
      | None \<Rightarrow> (Threw (RuntimeError ''STATE_FILE_INVALID''), w))"

section \<open>Writing\<close>

text \<open>The loop around \<^verbatim>\<open>write\<close>: \<open>done\<close> has been written, \<open>rest\<close> is left.\<close>

function write_loop :: "place \<Rightarrow> string \<Rightarrow> string \<Rightarrow> string \<Rightarrow> bool io" where
  "write_loop p tmp done_bytes rest w =
     (if rest = [] then (Done True, w)
      else case script w of
        [] \<Rightarrow> (Done True, put_file p tmp (done_bytes @ rest) w)
      | f # fs \<Rightarrow>
          (let w' = w\<lparr>script := fs\<rparr> in
           case f of
             Fine \<Rightarrow> (Done True, put_file p tmp (done_bytes @ rest) w')
           | Interrupted \<Rightarrow> write_loop p tmp done_bytes rest w'
           | Fail \<Rightarrow> (Done False, w')
           | Crash s \<Rightarrow> (Crashed, put_file p tmp s w')
           | Partial n \<Rightarrow>
               if n = 0 then (Done False, w')
               else write_loop p tmp (done_bytes @ take n rest) (drop n rest)
                      (put_file p tmp (done_bytes @ take n rest) w')))"
  by pat_completeness auto
termination
  by (relation "measure (\<lambda>(p, tmp, d, r, w). length (script w))") (auto simp: put_file_def)

declare write_loop.simps [simp del]

definition next_name :: "string \<Rightarrow> string" where
  "next_name n = n @ ''.next''"

text \<open>
  Opening the temporary file: created when absent; an existing one may be reused only during a replay,
  and only if it is a private regular file, which is then truncated.
\<close>

definition open_temporary :: "place \<Rightarrow> string \<Rightarrow> bool \<Rightarrow> unit io" where
  "open_temporary p tmp replay w =
     (case get_file p tmp w of
        None \<Rightarrow> require_ok (syscall (put_file p tmp [])) ''STATE_WRITE_FAILED'' w
      | Some f \<Rightarrow>
          if \<not> replay then io_throw ''STATE_WRITE_FAILED'' w
          else if \<not> entry_private f then io_throw ''STATE_TEMPORARY_INVALID'' w
          else require_ok (syscall (put_file p tmp [])) ''STATE_TEMPORARY_INVALID'' w)"

definition rename_file :: "place \<Rightarrow> string \<Rightarrow> string \<Rightarrow> world \<Rightarrow> world" where
  "rename_file p old new w =
     (case get_file p old w of None \<Rightarrow> w | Some f \<Rightarrow> put_file p new (entry_bytes f) (drop_file p old w))"

text \<open>\<^verbatim>\<open>catch(...) { unlink(temporary); throw; }\<close>, where the result of \<^verbatim>\<open>unlink\<close> is ignored.\<close>

definition or_unlink :: "place \<Rightarrow> string \<Rightarrow> 'a io \<Rightarrow> 'a io" where
  "or_unlink p tmp m w =
     (case m w of
        (Threw e, w') \<Rightarrow>
          (case syscall (drop_file p tmp) w' of (Crashed, w'') \<Rightarrow> (Crashed, w'') | (_, w'') \<Rightarrow> (Threw e, w''))
      | r \<Rightarrow> r)"

definition write_durable_file :: "place \<Rightarrow> string \<Rightarrow> string \<Rightarrow> bool \<Rightarrow> unit io" where
  "write_durable_file p n bytes replay w =
     (if \<not> dir_ok w p then io_throw ''STATE_DIRECTORY_INVALID'' w
      else io_bind (open_temporary p (next_name n) replay) (\<lambda>_.
        or_unlink p (next_name n)
          (io_bind (require_ok (write_loop p (next_name n) [] bytes) ''STATE_WRITE_FAILED'') (\<lambda>_.
           io_bind (require_ok (syscall id) ''STATE_WRITE_FAILED'') (\<lambda>_.
           io_bind (require_ok (syscall (rename_file p (next_name n) n)) ''STATE_WRITE_FAILED'') (\<lambda>_.
           io_bind (require_ok (syscall id) ''STATE_WRITE_FAILED'') (\<lambda>_.
             require_ok (syscall id) ''STATE_WRITE_FAILED'')))))) w)"

definition durable_file :: "place \<Rightarrow> string \<Rightarrow> string \<Rightarrow> unit io" where
  "durable_file p n bytes = write_durable_file p n bytes False"

definition remove_durable :: "place \<Rightarrow> string \<Rightarrow> unit io" where
  "remove_durable p n =
     io_bind (require_ok (syscall (drop_file p n)) ''STATE_REMOVE_FAILED'') (\<lambda>_.
     io_bind (require_ok (syscall id) ''STATE_REMOVE_FAILED'') (\<lambda>_.
       require_ok (syscall id) ''STATE_REMOVE_FAILED''))"

section \<open>Contents of the directories\<close>

named_theorems io_simps \<open>unfolding of the operations on directories\<close>

lemmas io_core [io_simps] =
  io_return_def io_throw_def io_bind_def io_lift_def io_throw_if_def require_ok_def syscall_def next_fault_def
  get_memory_def set_memory_def

type_synonym contents = "place \<times> string \<Rightarrow> entry option"

definition contents :: "world \<Rightarrow> contents" where
  "contents w = (\<lambda>(p, n). get_file p n w)"

definition world_ok :: "world \<Rightarrow> bool" where
  "world_ok w \<longleftrightarrow> (\<forall>p. dict_ok (dirs w p) \<and> dir_ok w p)"

text \<open>\<open>holds c w\<close>: the directories are in order and hold exactly \<open>c\<close>.\<close>

definition holds :: "contents \<Rightarrow> world \<Rightarrow> bool" where
  "holds c w \<longleftrightarrow> world_ok w \<and> contents w = c"

abbreviation own :: "string \<Rightarrow> entry" where
  "own s \<equiv> \<lparr>entry_bytes = s, entry_private = True\<rparr>"

lemma get_file_holds: "holds c w \<Longrightarrow> get_file p n w = c (p, n)"
  by (auto simp: holds_def contents_def)

lemma holds_script [simp]: "holds c (w\<lparr>script := fs\<rparr>) \<longleftrightarrow> holds c w"
  by (simp add: holds_def contents_def world_ok_def get_file_def)

lemma holds_memory [simp]: "holds c (w\<lparr>memory := j\<rparr>) \<longleftrightarrow> holds c w"
  by (simp add: holds_def contents_def world_ok_def get_file_def)

lemma holds_put [intro]: "holds c w \<Longrightarrow> holds (c((p, n) \<mapsto> own s)) (put_file p n s w)"
  by (auto simp: holds_def contents_def world_ok_def get_file_def put_file_def fun_eq_iff)

lemma holds_drop [intro]: "holds c w \<Longrightarrow> holds (c((p, n) := None)) (drop_file p n w)"
  by (auto simp: holds_def contents_def world_ok_def get_file_def drop_file_def fun_eq_iff)

lemma holds_rename:
  "holds (c((p, a) \<mapsto> own s)) w \<Longrightarrow> a \<noteq> b \<Longrightarrow> holds (c((p, a) := None, (p, b) \<mapsto> own s)) (rename_file p a b w)"
proof -
  assume c: "holds (c((p, a) \<mapsto> own s)) w"
  have "holds (c((p, a) := None, (p, b) \<mapsto> own s)) (put_file p b s (drop_file p a w))"
    using holds_put [OF holds_drop [OF c, of p a], of p b s] by simp
  with c show ?thesis by (simp add: rename_file_def get_file_holds)
qed

lemma next_name_neq [simp]: "next_name n \<noteq> n" "n \<noteq> next_name n"
  by (simp_all add: next_name_def)

section \<open>Contracts of operations under every script\<close>

text \<open>
  \<open>spec P m Q E\<close>: from a world in \<open>P\<close>, whatever the script does, \<open>m\<close> either returns in \<open>Q\<close> or throws or
  stops in \<open>E\<close>. \<open>runs P m Q\<close>: with an empty script \<open>m\<close> returns, in \<open>Q\<close>.
\<close>

definition spec :: "(world \<Rightarrow> bool) \<Rightarrow> 'a io \<Rightarrow> ('a \<Rightarrow> world \<Rightarrow> bool) \<Rightarrow> (world \<Rightarrow> bool) \<Rightarrow> bool" where
  "spec P m Q E \<longleftrightarrow> (\<forall>w. P w \<longrightarrow> (case m w of (Done x, w') \<Rightarrow> Q x w' | (_, w') \<Rightarrow> E w'))"

definition runs :: "(world \<Rightarrow> bool) \<Rightarrow> 'a io \<Rightarrow> ('a \<Rightarrow> world \<Rightarrow> bool) \<Rightarrow> bool" where
  "runs P m Q \<longleftrightarrow>
     (\<forall>w. P w \<longrightarrow> script w = [] \<longrightarrow> (\<exists>x w'. m w = (Done x, w') \<and> Q x w' \<and> script w' = []))"

lemma specI:
  assumes "\<And>w. P w \<Longrightarrow> case m w of (Done x, w') \<Rightarrow> Q x w' | (_, w') \<Rightarrow> E w'"
  shows "spec P m Q E"
  using assms by (simp add: spec_def)

lemma specD: "spec P m Q E \<Longrightarrow> P w \<Longrightarrow> case m w of (Done x, w') \<Rightarrow> Q x w' | (_, w') \<Rightarrow> E w'"
  by (simp add: spec_def)

lemma spec_bind:
  assumes "spec P m R E" "\<And>x. spec (R x) (f x) Q E"
  shows "spec P (io_bind m f) Q E"
  using assms unfolding spec_def io_bind_def by (fastforce split: prod.splits outcome.splits)

lemma spec_weaken:
  assumes "spec P m Q E" "\<And>w. P' w \<Longrightarrow> P w" "\<And>x w. Q x w \<Longrightarrow> Q' x w" "\<And>w. E w \<Longrightarrow> E' w"
  shows "spec P' m Q' E'"
  using assms unfolding spec_def by (fastforce split: prod.splits outcome.splits)

lemma spec_pre_cases:
  "spec P m Q E \<Longrightarrow> spec P' m Q E \<Longrightarrow> spec (\<lambda>w. P w \<or> P' w) m Q E"
  by (auto simp: spec_def)

lemma spec_pre_ex: "(\<And>a. spec (P a) m Q E) \<Longrightarrow> spec (\<lambda>w. \<exists>a. P a w) m Q E"
  by (rule specI) (elim exE, rule specD)

lemma spec_return: "(\<And>w. P w \<Longrightarrow> Q x w) \<Longrightarrow> spec P (io_return x) Q E"
  by (simp add: spec_def io_return_def)

lemma spec_throw: "(\<And>w. P w \<Longrightarrow> E w) \<Longrightarrow> spec P (io_throw e) Q E"
  by (simp add: spec_def io_throw_def)

lemma spec_throw_if: "(\<And>w. P w \<Longrightarrow> E w) \<Longrightarrow> spec P (io_throw_if b e) (\<lambda>_ w. \<not> b \<and> P w) E"
  by (simp add: io_throw_if_def spec_throw spec_return)

lemma spec_lift: "(\<And>w. P w \<Longrightarrow> E w) \<Longrightarrow> spec P (io_lift r) (\<lambda>x w. r = Inr x \<and> P w) E"
  by (simp add: spec_def io_lift_def split: sum.splits)

lemma spec_syscall:
  assumes "\<And>w. holds c w \<Longrightarrow> holds d (eff w)" "\<And>w. holds c w \<Longrightarrow> E w"
  shows "spec (holds c) (require_ok (syscall eff) e) (\<lambda>_. holds d) E"
proof (rule specI)
  fix w
  assume w: "holds c w"
  then have "holds c (w\<lparr>script := fs\<rparr>)" for fs by simp
  then show "case require_ok (syscall eff) e w of (Done x, w') \<Rightarrow> holds d w' | (_, w') \<Rightarrow> E w'"
    using w assms by (auto simp: io_simps split: list.splits fault.splits)
qed

lemma spec_syscall_id: "(\<And>w. holds c w \<Longrightarrow> E w) \<Longrightarrow> spec (holds c) (require_ok (syscall id) e) (\<lambda>_. holds c) E"
  by (rule spec_syscall) auto

lemma runs_bind:
  assumes "runs P m R" "\<And>x. runs (R x) (f x) Q"
  shows "runs P (io_bind m f) Q"
  using assms unfolding runs_def io_bind_def by fastforce

lemma runs_weaken:
  assumes "runs P m Q" "\<And>w. P' w \<Longrightarrow> P w" "\<And>x w. Q x w \<Longrightarrow> Q' x w"
  shows "runs P' m Q'"
  using assms unfolding runs_def by meson

lemma runs_return: "(\<And>w. P w \<Longrightarrow> Q x w) \<Longrightarrow> runs P (io_return x) Q"
  by (simp add: runs_def io_return_def)

lemma runs_lift: "r = Inr x \<Longrightarrow> (\<And>w. P w \<Longrightarrow> Q x w) \<Longrightarrow> runs P (io_lift r) Q"
  by (simp add: runs_def io_lift_def)

lemma runs_syscall:
  assumes "\<And>w. holds c w \<Longrightarrow> holds d (eff w)" "\<And>w. script (eff w) = script w"
  shows "runs (holds c) (require_ok (syscall eff) e) (\<lambda>_. holds d)"
  using assms by (auto simp: runs_def io_simps)

lemma script_effects [simp]:
  "script (put_file p n s w) = script w" "script (drop_file p n w) = script w" "script (rename_file p a b w) = script w"
  "memory (put_file p n s w) = memory w" "memory (drop_file p n w) = memory w" "memory (rename_file p a b w) = memory w"
  by (auto simp: put_file_def drop_file_def rename_file_def split: option.splits)

section \<open>What a write leaves behind\<close>

lemma write_loop_spec:
  "spec (holds (c((p, tmp) \<mapsto> own done_bytes))) (write_loop p tmp done_bytes rest)
     (\<lambda>ok w. if ok then holds (c((p, tmp) \<mapsto> own (done_bytes @ rest))) w else \<exists>s. holds (c((p, tmp) \<mapsto> own s)) w)
     (\<lambda>w. \<exists>s. holds (c((p, tmp) \<mapsto> own s)) w)"
proof (rule specI)
  fix w
  assume "holds (c((p, tmp) \<mapsto> own done_bytes)) w"
  then show "case write_loop p tmp done_bytes rest w of
      (Done x, w') \<Rightarrow> if x then holds (c((p, tmp) \<mapsto> own (done_bytes @ rest))) w' else \<exists>s. holds (c((p, tmp) \<mapsto> own s)) w'
    | (_, w') \<Rightarrow> \<exists>s. holds (c((p, tmp) \<mapsto> own s)) w'"
  proof (induction p tmp done_bytes rest w rule: write_loop.induct)
    case (1 p tmp done_bytes rest w)
    have prem: "holds (c((p, tmp) \<mapsto> own done_bytes)) w" using "1.prems" .
    have put: "holds (c((p, tmp) \<mapsto> own s)) (put_file p tmp s (w\<lparr>script := fs\<rparr>))"
      "holds (c((p, tmp) \<mapsto> own s)) (put_file p tmp s w)" for s fs
      using holds_put [OF iffD2 [OF holds_script prem], of p tmp s fs] holds_put [OF prem, of p tmp s]
      by (simp_all only: fun_upd_upd)
    show ?case
    proof (cases "rest = []")
      case True
      with prem show ?thesis by (simp add: write_loop.simps)
    next
      case ne: False
      show ?thesis
      proof (cases "script w")
        case Nil
        with ne put show ?thesis by (simp add: write_loop.simps)
      next
        case (Cons f fs)
        have old: "\<exists>s. holds (c((p, tmp) \<mapsto> own s)) (w\<lparr>script := fs\<rparr>)" using prem by auto
        show ?thesis
        proof (cases f)
          case (Partial n)
          show ?thesis
          proof (cases "n = 0")
            case True
            with ne Cons Partial old show ?thesis by (subst write_loop.simps) auto
          next
            case False
            with ne Cons Partial "1.IH"(1) [OF ne Cons refl Partial False put(1), unfolded append_assoc append_take_drop_id]
            show ?thesis by (subst write_loop.simps) (simp split del: if_split)
          qed
        next
          case Interrupted
          with ne Cons "1.IH"(2) [OF ne Cons refl Interrupted iffD2 [OF holds_script prem]] show ?thesis
            by (subst write_loop.simps) simp
        qed (use ne Cons old put in \<open>auto simp: write_loop.simps\<close>)
      qed
    qed
  qed
qed

text \<open>
  After a write that did not return, the target holds its old or its new bytes, and the temporary file is
  as before, absent, or private with any bytes. Only a target still old can have a temporary file left.
\<close>

definition torn :: "contents \<Rightarrow> place \<Rightarrow> string \<Rightarrow> string \<Rightarrow> world \<Rightarrow> bool" where
  "torn c p n s w \<longleftrightarrow>
     holds c w \<or> (\<exists>t. holds (c((p, next_name n) \<mapsto> own t)) w) \<or> holds (c((p, next_name n) := None)) w \<or>
     holds (c((p, next_name n) := None, (p, n) \<mapsto> own s)) w"

lemma torn_unlink: "torn c p n s w \<Longrightarrow> torn c p n s (drop_file p (next_name n) w)"
  unfolding torn_def
  by (elim disjE exE; drule holds_drop [where p = p and n = "next_name n"])
     (auto simp: fun_upd_twist)

lemma torn_script [simp]: "torn c p n s (w\<lparr>script := fs\<rparr>) \<longleftrightarrow> torn c p n s w"
  by (simp add: torn_def)

lemma spec_or_unlink:
  assumes "spec P m Q (torn c p n s)"
  shows "spec P (or_unlink p (next_name n) m) Q (torn c p n s)"
proof (rule specI)
  fix w
  assume "P w"
  with assms have "case m w of (Done x, w') \<Rightarrow> Q x w' | (_, w') \<Rightarrow> torn c p n s w'" by (simp add: spec_def)
  then show "case or_unlink p (next_name n) m w of (Done x, w') \<Rightarrow> Q x w' | (_, w') \<Rightarrow> torn c p n s w'"
    by (auto simp: or_unlink_def syscall_def next_fault_def torn_unlink
        split: prod.splits outcome.splits list.splits fault.splits)
qed

lemma open_temporary_spec:
  "spec (holds c) (open_temporary p (next_name n) replay) (\<lambda>_. holds (c((p, next_name n) \<mapsto> own []))) (torn c p n s)"
proof (rule specI)
  fix w
  assume w: "holds c w"
  have *: "case require_ok (syscall (put_file p (next_name n) [])) e w of
      (Done x, w') \<Rightarrow> holds (c((p, next_name n) \<mapsto> own [])) w' | (_, w') \<Rightarrow> torn c p n s w'" for e
    by (rule specD [OF spec_syscall [OF holds_put] w]) (auto simp: torn_def)
  have "torn c p n s w" using w by (simp add: torn_def)
  with * show "case open_temporary p (next_name n) replay w of
      (Done x, w') \<Rightarrow> holds (c((p, next_name n) \<mapsto> own [])) w' | (_, w') \<Rightarrow> torn c p n s w'"
    by (auto simp: open_temporary_def io_throw_def split: option.splits)
qed

lemma write_all_spec:
  "spec (holds (c((p, next_name n) \<mapsto> own []))) (require_ok (write_loop p (next_name n) [] s) e)
     (\<lambda>_. holds (c((p, next_name n) \<mapsto> own s))) (torn c p n s)"
  unfolding require_ok_def
proof (rule spec_bind)
  show "spec (holds (c((p, next_name n) \<mapsto> own []))) (write_loop p (next_name n) [] s)
     (\<lambda>ok w. if ok then holds (c((p, next_name n) \<mapsto> own s)) w else \<exists>t. holds (c((p, next_name n) \<mapsto> own t)) w)
     (torn c p n s)"
    by (rule spec_weaken [OF write_loop_spec]) (auto simp: torn_def split: if_splits)
  show "spec (\<lambda>w. if ok then holds (c((p, next_name n) \<mapsto> own s)) w else \<exists>t. holds (c((p, next_name n) \<mapsto> own t)) w)
     (io_throw_if (\<not> ok) e) (\<lambda>_. holds (c((p, next_name n) \<mapsto> own s))) (torn c p n s)" for ok
    by (cases ok) (auto simp: io_throw_if_def torn_def intro!: spec_return spec_throw)
qed

lemma write_durable_spec:
  "spec (holds c) (write_durable_file p n s replay)
     (\<lambda>_. holds (c((p, next_name n) := None, (p, n) \<mapsto> own s))) (torn c p n s)"
proof -
  let ?t = "c((p, next_name n) \<mapsto> own s)" and ?d = "c((p, next_name n) := None, (p, n) \<mapsto> own s)"
  have T: "holds ?t w \<Longrightarrow> torn c p n s w" "holds ?d w \<Longrightarrow> torn c p n s w" for w
    by (auto simp: torn_def)
  have "spec (holds c) (io_bind (open_temporary p (next_name n) replay) (\<lambda>_.
        or_unlink p (next_name n)
          (io_bind (require_ok (write_loop p (next_name n) [] s) e) (\<lambda>_.
           io_bind (require_ok (syscall id) e) (\<lambda>_.
           io_bind (require_ok (syscall (rename_file p (next_name n) n)) e) (\<lambda>_.
           io_bind (require_ok (syscall id) e) (\<lambda>_. require_ok (syscall id) e)))))))
      (\<lambda>_. holds ?d) (torn c p n s)" for e
    by (rule spec_bind [OF open_temporary_spec] spec_or_unlink spec_bind [OF write_all_spec]
          spec_bind [OF spec_syscall_id] spec_bind [OF spec_syscall] spec_syscall_id holds_rename T | assumption | simp)+
  then show ?thesis
    unfolding spec_def write_durable_file_def by (auto simp: holds_def world_ok_def)
qed

lemma remove_durable_spec:
  "spec (holds c) (remove_durable p n) (\<lambda>_. holds (c((p, n) := None)))
     (\<lambda>w. holds c w \<or> holds (c((p, n) := None)) w)"
  unfolding remove_durable_def
  by (rule spec_bind [OF spec_syscall] spec_bind [OF spec_syscall_id] spec_syscall_id holds_drop | assumption | simp)+

text \<open>Without faults, a write returns unless a temporary file is in the way.\<close>

lemma write_durable_runs:
  assumes "c (p, next_name n) = None \<or> replay \<and> (\<exists>t. c (p, next_name n) = Some (own t))"
  shows "runs (holds c) (write_durable_file p n s replay) (\<lambda>_. holds (c((p, next_name n) := None, (p, n) \<mapsto> own s)))"
proof -
  have "\<exists>x w'. write_durable_file p n s replay w = (Done x, w') \<and> script w' = []" if "holds c w" "script w = []" for w
    using that assms
    by (auto simp: write_durable_file_def open_temporary_def or_unlink_def io_simps get_file_holds write_loop.simps
        holds_def world_ok_def split: option.splits)
  moreover have "holds (c((p, next_name n) := None, (p, n) \<mapsto> own s)) w'"
    if "holds c w" "write_durable_file p n s replay w = (Done x, w')" for w x w'
    using that write_durable_spec [of c p n s replay] by (fastforce simp: spec_def)
  ultimately show ?thesis unfolding runs_def by fastforce
qed

lemma remove_durable_runs: "runs (holds c) (remove_durable p n) (\<lambda>_. holds (c((p, n) := None)))"
  unfolding remove_durable_def
  by (rule runs_bind [OF runs_syscall] runs_syscall holds_drop | assumption | simp only: id_apply script_effects)+

end
