(* ===== verification/Store.thy ===== *)
theory Store
  imports Model Files
begin

text \<open>
  \<^verbatim>\<open>src/state.cpp\<close>: the durable state of the service and its outbox of undelivered messages. A commit
  first writes a journal, then replays it onto the state file and the outbox, then removes the journal;
  the constructor replays a journal it finds. Directory iteration is in the order of the names.
\<close>

section \<open>Validation of the state\<close>

definition NOT_READY :: exn where
  "NOT_READY = RuntimeError ''NOT_READY_STATE''"

definition has_field :: "json \<Rightarrow> string \<Rightarrow> bool result" where
  "has_field j k = emap (\<lambda>m. dict_has m k) (json_object j)"

definition at_array :: "json \<Rightarrow> string \<Rightarrow> json list result" where
  "at_array j k = ebind (json_at j k) json_array"

definition null_at :: "json \<Rightarrow> string \<Rightarrow> bool result" where
  "null_at j k = emap is_null (json_at j k)"

text \<open>\<^verbatim>\<open>a.at(k).string() != b.at(l).string()\<close>\<close>

definition strings_differ :: "json \<Rightarrow> string \<Rightarrow> json \<Rightarrow> string \<Rightarrow> bool result" where
  "strings_differ a k b l = ebind (at_string a k) (\<lambda>x. emap (\<lambda>y. x \<noteq> y) (at_string b l))"

definition check_request_metadata :: "string \<Rightarrow> json \<Rightarrow> unit result" where
  "check_request_metadata uid v =
     ebind (has_field v ''lastRequestMetadata'') (\<lambda>b. if \<not> b then Inr () else
     ebind (ebind (json_at v ''lastRequestMetadata'') parse_metadata_binding) (\<lambda>m.
     ebind (json_at v ''lastRequest'') (\<lambda>req.
       ethrow_if (eany [Inr (is_null req), Inr (unit_system_uid m \<noteq> uid),
                        emap (\<lambda>s. service_version m \<noteq> s) (at_string req ''serviceVersion'')]) NOT_READY)))"

fun check_gateway_states :: "string list \<Rightarrow> json list \<Rightarrow> unit result" where
  "check_gateway_states seen [] = Inr ()"
| "check_gateway_states seen (j # js) =
     ebind (json_string j) (\<lambda>v.
       if v \<notin> set [''RECEIVED'', ''APPLIED'', ''CLEARED'', ''REJECTED'', ''EXPIRED'', ''FAILED''] then Inl NOT_READY
       else if v \<in> set seen then Inl NOT_READY
       else check_gateway_states (v # seen) js)"

definition count_field :: "bool \<Rightarrow> nat" where
  "count_field b = (if b then 1 else 0)"

definition check_envelope :: "string \<Rightarrow> json \<Rightarrow> unit result" where
  "check_envelope uid v =
     ethrow_if (eany
       [ebind (json_object v) (\<lambda>m. Inr (length m \<noteq> 8 + count_field (dict_has m ''lastRequestMetadata'') +
                                            count_field (dict_has m ''demoReset''))),
        emap (\<lambda>n. n \<noteq> 1) (at_integer v ''schemaVersion''),
        emap (\<lambda>s. s \<noteq> uid) (at_string v ''unitSystemUid''),
        emap (\<lambda>s. \<not> is_uuid s) (at_string v ''producerEpoch''),
        emap (\<lambda>n. n < 1) (at_integer v ''nextAdvisorySequence''),
        emap (\<lambda>n. n < 0) (at_integer v ''lastPublishedAt''),
        emap (\<lambda>t. length t > 131072) (canonical v)]) NOT_READY"

definition check_reset_command :: "string \<Rightarrow> json \<Rightarrow> json \<Rightarrow> json \<Rightarrow> unit result" where
  "check_reset_command uid v reset command =
     ebind (ethrow_if (eany
       [emap (\<lambda>n. n \<noteq> 4) (object_size reset), emap (\<lambda>n. n \<noteq> 9) (object_size command),
        emap (\<lambda>n. n \<noteq> 1) (at_integer command ''schemaVersion''),
        emap (\<lambda>s. s \<noteq> uid) (at_string command ''unitSystemUid''),
        strings_differ command ''producerEpoch'' v ''producerEpoch'',
        emap (\<lambda>s. s \<noteq> ''RESET_DEMO_SCENARIO'') (at_string command ''operation''),
        emap (\<lambda>s. \<not> is_uuid s) (at_string command ''commandId''),
        emap (\<lambda>s. \<not> date_time s) (at_string command ''issuedAt''),
        emap (\<lambda>s. \<not> date_time s) (at_string command ''expiresAt'')]) NOT_READY) (\<lambda>_.
     ebind (ebind (json_at command ''serviceInstance'') parse_service_instance) (\<lambda>_.
     ebind (at_boolean reset ''delivered'') (\<lambda>_. Inr ())))"

fun check_same_fields :: "string list \<Rightarrow> json \<Rightarrow> json \<Rightarrow> exn \<Rightarrow> unit result" where
  "check_same_fields [] a b e = Inr ()"
| "check_same_fields (k # ks) a b e =
     ebind (ebind (json_at a k) canonical) (\<lambda>x.
     ebind (ebind (json_at b k) canonical) (\<lambda>y.
       if x \<noteq> y then Inl e else check_same_fields ks a b e))"

definition check_reset_ack :: "json \<Rightarrow> json \<Rightarrow> unit result" where
  "check_reset_ack reset command =
     ebind (json_at reset ''ack'') (\<lambda>ack.
     if \<not> is_null ack then
       ebind (ethrow_if (eany
         [emap (\<lambda>n. n \<noteq> 9) (object_size ack), strings_differ ack ''commandId'' command ''commandId'',
          emap (\<lambda>r. r \<noteq> ''CLEARED'' \<and> r \<noteq> ''FAILED'' \<and> r \<noteq> ''REJECTED'') (at_string ack ''result'')]) NOT_READY) (\<lambda>_.
       ebind (ethrow_if (eall
         [emap (\<lambda>r. r = ''REJECTED'') (at_string ack ''result''),
          eany [emap Not (null_at ack ''clearRequest''), emap Not (null_at ack ''gatewayStatus'')]]) NOT_READY) (\<lambda>_.
       check_same_fields [''schemaVersion'', ''unitSystemUid'', ''serviceVersion'', ''serviceInstance'', ''producerEpoch'']
         ack command NOT_READY))
     else ethrow_if (at_boolean reset ''delivered'') NOT_READY)"

text \<open>The state with the model it had before the reset, which is validated in turn.\<close>

definition previous_state :: "json \<Rightarrow> json \<Rightarrow> json result" where
  "previous_state v reset =
     ebind (json_object v) (\<lambda>obj.
     ebind (json_at reset ''previousModel'') (\<lambda>pm.
       let o1 = dict_set ''model'' pm (dict_erase ''demoReset'' obj)
       in ebind (ebind (dict_at o1 ''model'') (\<lambda>mdl. json_at mdl ''nextAdvisorySequence'')) (\<lambda>n.
            Inr (JObject (dict_erase ''lastRequestMetadata''
                  (dict_set ''lastRequest'' JNull (dict_set ''nextAdvisorySequence'' n o1)))))))"

definition check_demo_reset :: "(json \<Rightarrow> unit result) \<Rightarrow> string \<Rightarrow> json \<Rightarrow> unit result" where
  "check_demo_reset validate uid v =
     ebind (has_field v ''demoReset'') (\<lambda>b. if \<not> b then Inr () else
     ebind (json_at v ''demoReset'') (\<lambda>reset.
     ebind (json_at reset ''command'') (\<lambda>command.
     ebind (check_reset_command uid v reset command) (\<lambda>_.
     ebind (check_reset_ack reset command) (\<lambda>_.
     ebind (null_at reset ''previousModel'') (\<lambda>none.
       if none then Inr () else ebind (previous_state v reset) validate))))))"

definition check_last_request :: "json \<Rightarrow> unit result" where
  "check_last_request v =
     ebind (json_at v ''lastRequest'') (\<lambda>req. if is_null req then Inr () else
       ethrow_if (eany
         [strings_differ req ''producerEpoch'' v ''producerEpoch'',
          ebind (at_integer req ''sequence'') (\<lambda>s. emap (\<lambda>n. s \<ge> n) (at_integer v ''nextAdvisorySequence''))]) NOT_READY)"

fun check_recent :: "string list \<Rightarrow> json list \<Rightarrow> unit result" where
  "check_recent seen [] = Inr ()"
| "check_recent seen (j # js) =
     ebind (json_string j) (\<lambda>s.
       if \<not> is_uuid s \<or> s \<in> set seen then Inl NOT_READY else check_recent (s # seen) js)"

definition percent_invalid :: "json \<Rightarrow> string \<Rightarrow> bool result" where
  "percent_invalid m k = emap (\<lambda>n. n < 0 \<or> n > 100) (at_integer m k)"

definition check_model :: "json \<Rightarrow> unit result" where
  "check_model v =
     ebind (json_at v ''model'') (\<lambda>m. if is_null m then Inr () else
     ebind (ethrow_if (eany
       [emap (\<lambda>n. n \<noteq> 13) (object_size m), emap (\<lambda>n. n \<noteq> 1) (at_integer m ''schemaVersion''),
        emap (\<lambda>s. s \<noteq> ''tire-condition-demo-v1'') (at_string m ''modelId''),
        emap (\<lambda>s. \<not> is_sha256 s) (at_string m ''modelConfigSha256''),
        strings_differ m ''producerEpoch'' v ''producerEpoch'']) NOT_READY) (\<lambda>_.
     ebind (ebind (at_string m ''conditionBand'') parse_band) (\<lambda>_.
     ebind (ethrow_if (percent_invalid m ''conditionScore'') NOT_READY) (\<lambda>_.
     ebind (ethrow_if (percent_invalid m ''confidencePercent'') NOT_READY) (\<lambda>_.
     ebind (ethrow_if (emap (\<lambda>b. b \<noteq> ''NONE'' \<and> b \<noteq> ''GOOD'' \<and> b \<noteq> ''INSPECTION_RECOMMENDED'')
                        (at_string m ''betterBandCandidate'')) NOT_READY) (\<lambda>_.
     ebind (ethrow_if (eany
       [emap (\<lambda>s. \<not> is_uuid s) (at_string m ''lastAppliedSourceExerciseId''),
        emap (\<lambda>s. \<not> is_uuid s) (at_string m ''lastAssessmentId''),
        ebind (at_integer m ''nextAdvisorySequence'') (\<lambda>a. emap (\<lambda>b. a \<noteq> b) (at_integer v ''nextAdvisorySequence''))])
       NOT_READY) (\<lambda>_.
     ebind (ethrow_if (emap (\<lambda>n. n < 0 \<or> n > 3) (at_integer m ''betterBandEpisodeCount'')) NOT_READY) (\<lambda>_.
     ebind (at_array m ''recentSourceExerciseIds'') (\<lambda>recent_ids.
       if length recent_ids > 128 then Inl NOT_READY else check_recent [] recent_ids)))))))))"

text \<open>
  One round of the recursion; \<open>validate\<close> is the recursive call, reached only for a state from which
  \<^verbatim>\<open>demoReset\<close> was erased. Two rounds are therefore all of it: \<open>validate_state_unfold\<close> is the recursion of the code.
\<close>

definition validate_round :: "(json \<Rightarrow> unit result) \<Rightarrow> string \<Rightarrow> json \<Rightarrow> unit result" where
  "validate_round validate uid v =
     ebind (check_request_metadata uid v) (\<lambda>_.
     ebind (at_array v ''gatewayStates'') (\<lambda>states.
     ebind (check_gateway_states [] states) (\<lambda>_.
     ebind (check_envelope uid v) (\<lambda>_.
     ebind (check_demo_reset validate uid v) (\<lambda>_.
     ebind (check_last_request v) (\<lambda>_.
       check_model v))))))"

definition validate_state :: "string \<Rightarrow> json \<Rightarrow> unit result" where
  "validate_state uid = validate_round (validate_round (\<lambda>_. Inl OutOfFuel) uid) uid"

section \<open>The outbox\<close>

definition digest_matches :: "json \<Rightarrow> bool result" where
  "digest_matches msg =
     ebind (ebind (json_at msg ''content'') canonical) (\<lambda>c. emap (\<lambda>d. sha256_hex c = d) (at_string msg ''contentSha256''))"

definition is_blocked_name :: "string \<Rightarrow> bool" where
  "is_blocked_name n = (length n = 72 \<and> drop 64 n = ''.blocked'')"

definition is_message_name :: "string \<Rightarrow> bool" where
  "is_message_name n = (length n = 69 \<and> drop 64 n = ''.json'')"

definition message_name :: "string \<Rightarrow> string" where
  "message_name key = key @ ''.json''"

definition blocked_name :: "string \<Rightarrow> string" where
  "blocked_name key = key @ ''.blocked''"

definition queue_message_bad :: "string \<Rightarrow> string \<Rightarrow> string \<Rightarrow> json \<Rightarrow> bool result" where
  "queue_message_bad uid name text msg =
     eany [emap (\<lambda>s. s \<noteq> uid) (at_string msg ''unitSystemUid''), emap (\<lambda>t. t \<noteq> text) (canonical msg),
           emap (\<lambda>k. k \<noteq> take 64 name) (message_key msg), emap Not (digest_matches msg)]"

fun queue_loop :: "string \<Rightarrow> string list \<Rightarrow> nat \<Rightarrow> nat \<Rightarrow> (nat \<times> nat) io" where
  "queue_loop uid [] n bytes = io_return (n, bytes)"
| "queue_loop uid (name # names) n bytes =
     io_bind (private_file Outbox name) (\<lambda>_.
     io_bind (io_throw_if ((\<not> is_blocked_name name \<and> \<not> is_message_name name) \<or> \<not> is_sha256 (take 64 name))
               ''NOT_READY_STATE'') (\<lambda>_.
     if is_blocked_name name then
       io_bind (read_file Outbox name 64) (\<lambda>text.
       io_bind (file_exists Outbox (message_name (take 64 name))) (\<lambda>ex.
       io_bind (io_throw_if (text \<noteq> ''DELIVERY_CONFLICT'' \<or> \<not> ex) ''NOT_READY_STATE'') (\<lambda>_.
         queue_loop uid names n bytes)))
     else
       io_bind (read_file Outbox name 16384) (\<lambda>text.
       io_bind (io_lift (parse_json text 16384)) (\<lambda>msg.
       io_bind (io_lift (ethrow_if (queue_message_bad uid name text msg) NOT_READY)) (\<lambda>_.
         queue_loop uid names (n + 1) (bytes + length text))))))"

definition names_of :: "place \<Rightarrow> string list io" where
  "names_of p w = (Done (map fst (dirs w p)), w)"

definition validate_queue :: "string \<Rightarrow> unit io" where
  "validate_queue uid =
     io_bind (names_of Outbox) (\<lambda>names.
     io_bind (queue_loop uid names 0 0) (\<lambda>(n, bytes).
       io_throw_if (n > 256 \<or> bytes > 2097152) ''NOT_READY_STATE''))"

text \<open>\<^verbatim>\<open>extension() == ".json"\<close>: a name that is only \<^verbatim>\<open>.json\<close> has no extension.\<close>

definition json_extension :: "string \<Rightarrow> bool" where
  "json_extension n = (length n > 5 \<and> drop (length n - 5) n = ''.json'')"

definition queued :: "nat io" where
  "queued w = (Done (length (filter (\<lambda>e. json_extension (fst e)) (dirs w Outbox))), w)"

definition queued_bytes :: "nat io" where
  "queued_bytes w =
     (Done (sum_list (map (\<lambda>e. length (entry_bytes (snd e))) (filter (\<lambda>e. json_extension (fst e)) (dirs w Outbox)))), w)"

section \<open>Replaying the journal\<close>

fun check_messages :: "string \<Rightarrow> json list \<Rightarrow> unit result" where
  "check_messages uid [] = Inr ()"
| "check_messages uid (m # ms) =
     ebind (ethrow_if (eany
       [emap (\<lambda>s. s \<noteq> uid) (at_string m ''unitSystemUid''), emap Not (digest_matches m),
        emap (\<lambda>t. length t > 16384) (canonical m)]) NOT_READY) (\<lambda>_. check_messages uid ms)"

fun replay_messages :: "json list \<Rightarrow> unit io" where
  "replay_messages [] = io_return ()"
| "replay_messages (m # ms) =
     io_bind (io_lift (message_key m)) (\<lambda>key.
     io_bind (io_lift (canonical m)) (\<lambda>bytes.
     io_bind (file_exists Outbox (message_name key)) (\<lambda>ex.
     io_bind (if ex then
                io_bind (private_file Outbox (message_name key)) (\<lambda>_.
                io_bind (read_file Outbox (message_name key) 16384) (\<lambda>old.
                  io_throw_if (old \<noteq> bytes) ''NOT_READY_STATE''))
              else write_durable_file Outbox (message_name key) bytes True) (\<lambda>_.
       replay_messages ms))))"

definition replay :: "string \<Rightarrow> json \<Rightarrow> unit io" where
  "replay uid txn =
     io_bind (io_lift (ethrow_if (eany [emap (\<lambda>n. n \<noteq> 3) (object_size txn),
                                        emap (\<lambda>n. n \<noteq> 1) (at_integer txn ''schemaVersion'')]) NOT_READY)) (\<lambda>_.
     io_bind (io_lift (json_at txn ''state'')) (\<lambda>next.
     io_bind (io_lift (validate_state uid next)) (\<lambda>_.
     io_bind (io_lift (at_array txn ''messages'')) (\<lambda>msgs.
     io_bind (io_throw_if (length msgs > 4) ''NOT_READY_STATE'') (\<lambda>_.
     io_bind (io_lift (check_messages uid msgs)) (\<lambda>_.
     io_bind (io_lift (canonical next)) (\<lambda>text.
     io_bind (write_durable_file Root ''state.json'' text True) (\<lambda>_.
     io_bind (write_durable_file Root ''state.sha256'' (sha256_hex text) True) (\<lambda>_.
     io_bind (replay_messages msgs) (\<lambda>_.
     io_bind (io_lift (canonical txn)) (\<lambda>journal.
     io_bind (write_durable_file Root ''commit.sha256'' (sha256_hex journal) True) (\<lambda>_.
       set_memory next))))))))))))"

section \<open>Committing\<close>

fun accept_messages :: "json list \<Rightarrow> json list \<Rightarrow> nat \<Rightarrow> nat \<Rightarrow> bool \<Rightarrow> (json list \<times> bool) io" where
  "accept_messages [] accepted n bytes full = io_return (accepted, full)"
| "accept_messages (m # ms) accepted n bytes full =
     io_bind (io_lift (canonical m)) (\<lambda>encoded.
     io_bind (io_lift (message_key m)) (\<lambda>key.
     io_bind (io_throw_if (length encoded > 16384) ''MESSAGE_TOO_LARGE'') (\<lambda>_.
     io_bind (file_exists Outbox (message_name key)) (\<lambda>ex.
     if ex then
       io_bind (read_file Outbox (message_name key) 16384) (\<lambda>old.
       io_bind (io_throw_if (old \<noteq> encoded) ''DELIVERY_CONFLICT'') (\<lambda>_.
         accept_messages ms accepted n bytes full))
     else if n \<ge> 256 \<or> bytes + length encoded > 2097152 then accept_messages ms accepted n bytes True
     else accept_messages ms (accepted @ [m]) (n + 1) (bytes + length encoded) full))))"

definition transaction :: "json \<Rightarrow> json list \<Rightarrow> json" where
  "transaction next accepted =
     JObject (dict_init [(''schemaVersion'', JInt 1), (''state'', next), (''messages'', JArray accepted)] [])"

definition commit :: "string \<Rightarrow> json \<Rightarrow> json list \<Rightarrow> bool io" where
  "commit uid next messages =
     io_bind (io_lift (validate_state uid next)) (\<lambda>_.
     io_bind (validate_queue uid) (\<lambda>_.
     io_bind queued (\<lambda>n.
     io_bind queued_bytes (\<lambda>bytes.
     io_bind (accept_messages messages [] n bytes False) (\<lambda>(accepted, full).
     io_bind (io_lift (canonical (transaction next accepted))) (\<lambda>journal.
     io_bind (durable_file Root ''transaction.json'' journal) (\<lambda>_.
     io_bind (replay uid (transaction next accepted)) (\<lambda>_.
     io_bind (remove_durable Root ''transaction.json'') (\<lambda>_.
       io_return (\<not> full))))))))))"

section \<open>Opening the store\<close>

text \<open>\<open>epoch\<close> is the identifier \<^verbatim>\<open>random_uuid()\<close> returns for a new state.\<close>

definition initial_state :: "string \<Rightarrow> string \<Rightarrow> json" where
  "initial_state uid epoch =
     JObject (dict_init
       [(''schemaVersion'', JInt 1), (''unitSystemUid'', JString uid), (''producerEpoch'', JString epoch),
        (''nextAdvisorySequence'', JInt 1), (''model'', JNull), (''lastPublishedAt'', JInt 0),
        (''lastRequest'', JNull), (''gatewayStates'', JArray [])] [])"

definition prepare_directory :: "place \<Rightarrow> unit io" where
  "prepare_directory p = require_ok (syscall (\<lambda>w. w\<lparr>dir_ok := (dir_ok w)(p := True)\<rparr>)) ''STATE_DIRECTORY_INVALID''"

fun check_root_names :: "string list \<Rightarrow> unit io" where
  "check_root_names [] = io_return ()"
| "check_root_names (name # names) =
     io_bind (file_exists Root ''transaction.json'') (\<lambda>ex.
     let replay_temporary = (ex \<and> name \<in> set [''state.json.next'', ''state.sha256.next'', ''commit.sha256.next''])
     in io_bind (io_throw_if (name \<notin> set [''state.json'', ''state.sha256'', ''transaction.json'', ''commit.sha256''] \<and>
                              \<not> replay_temporary) ''NOT_READY_STATE'') (\<lambda>_.
        io_bind (private_file Root name) (\<lambda>_.
          check_root_names names)))"

definition recover_journal :: "string \<Rightarrow> unit io" where
  "recover_journal uid =
     io_bind (file_exists Root ''transaction.json'') (\<lambda>ex.
     if \<not> ex then io_return () else
     io_bind (read_file Root ''transaction.json'' 196608) (\<lambda>text.
     io_bind (io_lift (parse_json text 196608)) (\<lambda>txn.
     io_bind (replay uid txn) (\<lambda>_.
       remove_durable Root ''transaction.json''))))"

definition load_state :: "string \<Rightarrow> string \<Rightarrow> unit io" where
  "load_state uid epoch =
     io_bind (file_exists Root ''state.json'') (\<lambda>ex.
     if ex then
       io_bind (read_file Root ''state.json'' 131072) (\<lambda>text.
       io_bind (io_lift (parse_json text 131072)) set_memory)
     else
       io_bind (names_of Outbox) (\<lambda>names.
       io_bind (io_throw_if (names \<noteq> []) ''NOT_READY_STATE'') (\<lambda>_.
       io_bind (set_memory (initial_state uid epoch)) (\<lambda>_.
       io_bind (io_lift (canonical (initial_state uid epoch))) (\<lambda>text.
       io_bind (durable_file Root ''state.json'' text) (\<lambda>_.
         durable_file Root ''state.sha256'' (sha256_hex text)))))))"

definition open_store :: "string \<Rightarrow> string \<Rightarrow> unit io" where
  "open_store uid epoch =
     io_bind (prepare_directory Root) (\<lambda>_.
     io_bind (prepare_directory Outbox) (\<lambda>_.
     io_bind (names_of Root) (\<lambda>names.
     io_bind (check_root_names names) (\<lambda>_.
     io_bind (recover_journal uid) (\<lambda>_.
     io_bind (load_state uid epoch) (\<lambda>_.
     io_bind get_memory (\<lambda>state.
     io_bind (read_file Root ''state.sha256'' 64) (\<lambda>digest.
     io_bind (io_lift (canonical state)) (\<lambda>text.
     io_bind (io_throw_if (digest \<noteq> sha256_hex text) ''NOT_READY_STATE'') (\<lambda>_.
     io_bind (io_lift (validate_state uid state)) (\<lambda>_.
       validate_queue uid)))))))))))"

section \<open>Delivery\<close>

record Pending =
  pending_key :: string
  pending_bytes :: string

fun pending_loop :: "string list \<Rightarrow> Pending option io" where
  "pending_loop [] = io_return None"
| "pending_loop (name # names) =
     (let key = take (length name - 5) name
      in io_bind (file_exists Outbox (blocked_name key)) (\<lambda>blocked.
         if blocked then pending_loop names
         else io_bind (read_file Outbox name 16384) (\<lambda>text.
                io_return (Some \<lparr>pending_key = key, pending_bytes = text\<rparr>))))"

definition pending :: "Pending option io" where
  "pending = io_bind (names_of Outbox) (\<lambda>names. pending_loop (filter json_extension names))"

definition acknowledge :: "Pending \<Rightarrow> HttpResponse \<Rightarrow> bool io" where
  "acknowledge p response =
     (let name = message_name (pending_key p) in
      io_bind (file_exists Outbox name) (\<lambda>ex.
      io_bind (io_throw_if (\<not> is_sha256 (pending_key p) \<or> \<not> ex) ''OUTBOX_RECORD_MISMATCH'') (\<lambda>_.
      io_bind (read_file Outbox name 16384) (\<lambda>text.
      io_bind (io_throw_if (text \<noteq> pending_bytes p) ''OUTBOX_RECORD_MISMATCH'') (\<lambda>_.
        if matches_ack (pending_bytes p) response then
          io_bind (remove_durable Outbox name) (\<lambda>_. io_return True)
        else if http_status response \<noteq> 0 \<and> http_status response \<noteq> 200 \<and> http_status response \<noteq> 201 \<and>
                \<not> retryable_http (http_status response) then
          io_bind (durable_file Outbox (blocked_name (pending_key p)) ''DELIVERY_CONFLICT'') (\<lambda>_. io_return False)
        else io_return False)))))"

section \<open>The recursion of the validation\<close>

lemma previous_state_plain: "json_wf v \<Longrightarrow> previous_state v reset = Inr p \<Longrightarrow> has_field p ''demoReset'' = Inr False"
  by (cases v) (auto simp: previous_state_def has_field_def Let_def ebind_eq_Inr dict_has_def invalid_def)

lemma check_demo_reset_plain: "has_field p ''demoReset'' = Inr False \<Longrightarrow> check_demo_reset f uid p = Inr ()"
  by (simp add: check_demo_reset_def)

lemma validate_round_plain:
  "has_field p ''demoReset'' = Inr False \<Longrightarrow> validate_round f uid p = validate_round g uid p"
  by (simp add: validate_round_def check_demo_reset_plain)

lemma validate_state_unfold: "json_wf v \<Longrightarrow> validate_state uid v = validate_round (validate_state uid) uid v"
proof -
  assume wf: "json_wf v"
  have "validate_round (\<lambda>_. Inl OutOfFuel) uid p = validate_state uid p" if "previous_state v reset = Inr p" for reset p
    unfolding validate_state_def by (rule validate_round_plain) (rule previous_state_plain [OF wf that])
  then have "check_demo_reset (validate_round (\<lambda>_. Inl OutOfFuel) uid) uid v = check_demo_reset (validate_state uid) uid v"
    unfolding check_demo_reset_def ebind_def by (auto split: sum.splits)
  then show ?thesis by (subst validate_state_def) (simp add: validate_round_def)
qed

end
