(* ===== verification/Journal.thy ===== *)
theory Journal
  imports Store
begin

text \<open>
  The journal of the state store: when the outbox is valid, which contents a replay of the journal passes
  through under any script of failures and crashes, and that a replay which is not stopped completes it.
\<close>

section \<open>Operations that only read\<close>

definition reads :: "'a io \<Rightarrow> bool" where
  "reads m \<longleftrightarrow> (\<forall>w. snd (m w) = w \<and> fst (m w) \<noteq> Crashed)"

named_theorems reads_intros \<open>operations that only read\<close>

lemma readsI: "(\<And>w. snd (m w) = w \<and> fst (m w) \<noteq> Crashed) \<Longrightarrow> reads m"
  by (simp add: reads_def)

lemma reads_basic [reads_intros]:
  "reads (io_return x)" "reads (io_throw e)" "reads (io_lift r)" "reads (io_throw_if b e)"
  "reads (file_exists p n)" "reads (read_file p n limit)" "reads (private_file p n)" "reads (names_of p)"
  "reads queued" "reads queued_bytes" "reads get_memory"
  by (auto simp: reads_def io_simps file_exists_def read_file_def private_file_def names_of_def queued_def
      queued_bytes_def split: sum.splits option.splits)

lemma reads_bind [reads_intros]:
  assumes m: "reads m" and f: "\<And>x. reads (f x)"
  shows "reads (io_bind m f)"
proof (rule readsI)
  fix w
  obtain r where r: "m w = (r, w)" "r \<noteq> Crashed" using m by (metis reads_def prod.collapse)
  with f show "snd (io_bind m f w) = w \<and> fst (io_bind m f w) \<noteq> Crashed"
    by (cases r) (auto simp: io_bind_def reads_def)
qed

lemma reads_outcome:
  assumes "reads m"
  obtains (returns) x where "m w = (Done x, w)" | (throws) e where "m w = (Threw e, w)"
  using assms unfolding reads_def by (metis outcome.exhaust prod.collapse)

lemma spec_reads:
  assumes "reads m" "\<And>w. P w \<Longrightarrow> E w"
  shows "spec P m (\<lambda>x w. P w \<and> m w = (Done x, w)) E"
proof (rule specI)
  fix w
  assume "P w"
  then show "case m w of (Done x, w') \<Rightarrow> P w' \<and> m w' = (Done x, w') | (_, w') \<Rightarrow> E w'"
    using assms by (cases rule: reads_outcome [OF assms(1), of w]) auto
qed

lemma runs_reads:
  assumes "\<And>w. P w \<Longrightarrow> m w = (Done x, w)"
  shows "runs P m (\<lambda>y w. y = x \<and> P w)"
  using assms by (simp add: runs_def)

lemma reads_queue_loop [reads_intros]: "reads (queue_loop uid names n bytes)"
proof (induction names arbitrary: n bytes)
  case Nil
  show ?case by (simp add: reads_intros)
next
  case (Cons name names)
  then show ?case by (auto intro!: reads_intros)
qed

lemma reads_validate_queue [reads_intros]: "reads (validate_queue uid)"
  unfolding validate_queue_def by (intro reads_intros) (auto split: prod.splits intro!: reads_intros)

lemma reads_accept_messages [reads_intros]: "reads (accept_messages ms acc n bytes full)"
proof (induction ms arbitrary: acc n bytes full)
  case Nil
  show ?case by (simp add: reads_intros)
next
  case (Cons m ms)
  then show ?case by (auto intro!: reads_intros)
qed

lemma reads_pending [reads_intros]: "reads pending"
proof -
  have "reads (pending_loop names)" for names
    by (induction names) (auto intro!: reads_intros simp: Let_def)
  then show ?thesis unfolding pending_def by (intro reads_intros)
qed

lemma io_bind_reads:
  assumes "reads m" "io_bind m f w = (Done y, w')"
  obtains x where "m w = (Done x, w)" "f x w = (Done y, w')"
  using assms by (cases rule: reads_outcome [OF assms(1), of w]) (auto simp: io_bind_def)

section \<open>Validity of the outbox\<close>

lemma name_kinds: "is_blocked_name n \<Longrightarrow> \<not> is_message_name n"
  by (auto simp: is_blocked_name_def is_message_name_def)

definition message_fine :: "string \<Rightarrow> string \<Rightarrow> string \<Rightarrow> bool" where
  "message_fine uid n text \<longleftrightarrow>
     text \<noteq> [] \<and> length text \<le> 16384 \<and>
     (\<exists>msg. parse_json text 16384 = Inr msg \<and> queue_message_bad uid n text msg = Inr False)"

definition entry_fine :: "string \<Rightarrow> contents \<Rightarrow> string \<Rightarrow> entry \<Rightarrow> bool" where
  "entry_fine uid c n e \<longleftrightarrow>
     entry_private e \<and> is_sha256 (take 64 n) \<and>
     (is_blocked_name n \<and> entry_bytes e = ''DELIVERY_CONFLICT'' \<and> c (Outbox, message_name (take 64 n)) \<noteq> None \<or>
      is_message_name n \<and> message_fine uid n (entry_bytes e))"

definition messages_in :: "contents \<Rightarrow> string set" where
  "messages_in c = {n. is_message_name n \<and> c (Outbox, n) \<noteq> None}"

definition bytes_in :: "contents \<Rightarrow> nat" where
  "bytes_in c = (\<Sum>n\<in>messages_in c. length (entry_bytes (the (c (Outbox, n)))))"

definition queue_valid :: "string \<Rightarrow> contents \<Rightarrow> bool" where
  "queue_valid uid c \<longleftrightarrow>
     (\<forall>n e. c (Outbox, n) = Some e \<longrightarrow> entry_fine uid c n e) \<and> card (messages_in c) \<le> 256 \<and> bytes_in c \<le> 2097152"

lemma outbox_names:
  assumes "holds c w"
  shows "set (map fst (dirs w Outbox)) = {n. c (Outbox, n) \<noteq> None}" "distinct (map fst (dirs w Outbox))"
proof -
  have "dict_ok (dirs w Outbox)" using assms by (simp add: holds_def world_ok_def)
  then show "distinct (map fst (dirs w Outbox))"
    by (simp add: dict_ok_def strict_sorted_iff)
  have "c (Outbox, n) = dict_get (dirs w Outbox) n" for n
    using get_file_holds [OF assms, of Outbox n] by (simp add: get_file_def)
  then show "set (map fst (dirs w Outbox)) = {n. c (Outbox, n) \<noteq> None}"
    by (auto simp: dict_get_None)
qed

lemma finite_messages: "holds c w \<Longrightarrow> finite (messages_in c)"
proof -
  assume "holds c w"
  then have "finite {n. c (Outbox, n) \<noteq> None}" using outbox_names(1) [of c w] by (metis List.finite_set)
  then show ?thesis by (rule rev_finite_subset) (auto simp: messages_in_def)
qed

text \<open>The loop of \<open>validate_queue\<close> returns the totals exactly when every entry is fine.\<close>

definition loop_result :: "contents \<Rightarrow> string list \<Rightarrow> nat \<Rightarrow> nat \<Rightarrow> nat \<times> nat" where
  "loop_result c names n bytes =
     (n + length (filter is_message_name names),
      bytes + sum_list (map (\<lambda>n. length (entry_bytes (the (c (Outbox, n))))) (filter is_message_name names)))"

lemma queue_loop_done:
  assumes w: "holds c w" and names: "\<forall>n\<in>set names. c (Outbox, n) \<noteq> None"
  shows "queue_loop uid names n bytes w = (Done r, w) \<longleftrightarrow>
    (\<forall>m\<in>set names. entry_fine uid c m (the (c (Outbox, m)))) \<and> r = loop_result c names n bytes"
  using names
proof (induction names arbitrary: n bytes)
  case Nil
  show ?case by (auto simp: io_return_def loop_result_def)
next
  case (Cons name names)
  then obtain e where e: "c (Outbox, name) = Some e" by auto
  show ?case
  proof (cases "entry_fine uid c name e")
    case True
    then consider (blocked) "is_blocked_name name" "\<not> is_message_name name" "entry_bytes e = ''DELIVERY_CONFLICT''"
        "c (Outbox, message_name (take 64 name)) \<noteq> None" "entry_private e" "is_sha256 (take 64 name)"
      | (message) msg where "\<not> is_blocked_name name" "is_message_name name" "entry_private e" "is_sha256 (take 64 name)"
        "entry_bytes e \<noteq> []" "length (entry_bytes e) \<le> 16384" "parse_json (entry_bytes e) 16384 = Inr msg"
        "queue_message_bad uid name (entry_bytes e) msg = Inr False"
      using name_kinds by (auto simp: entry_fine_def message_fine_def)
    then show ?thesis
    proof cases
      case blocked
      then have "queue_loop uid (name # names) n bytes w = queue_loop uid names n bytes w"
        using w e by (auto simp: io_simps private_file_def read_file_def file_exists_def get_file_holds)
      with Cons True e blocked show ?thesis by (auto simp: loop_result_def)
    next
      case message
      then have "queue_loop uid (name # names) n bytes w = queue_loop uid names (n + 1) (bytes + length (entry_bytes e)) w"
        using w e by (auto simp: io_simps private_file_def read_file_def file_exists_def get_file_holds)
      with Cons True e message show ?thesis by (auto simp: loop_result_def)
    qed
  next
    case False
    then have "queue_loop uid (name # names) n bytes w \<noteq> (Done r, w)"
      using w e name_kinds [of name]
      by (auto simp: io_simps private_file_def read_file_def file_exists_def get_file_holds entry_fine_def message_fine_def
          ethrow_if_Inr split: sum.splits if_splits)
    with False e show ?thesis by auto
  qed
qed

lemma validate_queue_done:
  assumes w: "holds c w"
  shows "validate_queue uid w = (Done (), w) \<longleftrightarrow> queue_valid uid c"
proof -
  let ?names = "map fst (dirs w Outbox)"
  note N = outbox_names [OF w]
  have m: "set (filter is_message_name ?names) = messages_in c" using N(1) by (auto simp: messages_in_def)
  have d: "distinct (filter is_message_name ?names)" using N(2) by simp
  have res: "loop_result c ?names 0 0 = (card (messages_in c), bytes_in c)"
    using distinct_card [OF d] sum_list_distinct_conv_sum_set [OF d] m by (simp add: loop_result_def bytes_in_def)
  have ins: "\<forall>n\<in>set ?names. c (Outbox, n) \<noteq> None" unfolding N(1) by simp
  have all: "(\<forall>n\<in>set ?names. entry_fine uid c n (the (c (Outbox, n)))) \<longleftrightarrow>
    (\<forall>n e. c (Outbox, n) = Some e \<longrightarrow> entry_fine uid c n e)"
    unfolding N(1) by auto
  have v: "validate_queue uid w = io_bind (queue_loop uid ?names 0 0) (\<lambda>(n, bytes).
       io_throw_if (n > 256 \<or> bytes > 2097152) ''NOT_READY_STATE'') w"
    by (simp add: validate_queue_def names_of_def io_bind_def)
  consider (returns) x where "queue_loop uid ?names 0 0 w = (Done x, w)"
    | (throws) e where "queue_loop uid ?names 0 0 w = (Threw e, w)"
    using reads_outcome [OF reads_queue_loop] by metis
  then show ?thesis
  proof cases
    case (returns x)
    then have "(\<forall>n\<in>set ?names. entry_fine uid c n (the (c (Outbox, n))))" "x = (card (messages_in c), bytes_in c)"
      using queue_loop_done [OF w ins, of uid 0 0 x] res by simp_all
    then show ?thesis
      unfolding v queue_valid_def all [symmetric]
      using returns by (auto simp: io_bind_def io_throw_if_def io_return_def io_throw_def)
  next
    case (throws e)
    then have "\<not> (\<forall>n\<in>set ?names. entry_fine uid c n (the (c (Outbox, n))))"
      using queue_loop_done [OF w ins, of uid 0 0 "(card (messages_in c), bytes_in c)"] res by simp
    then show ?thesis
      unfolding v queue_valid_def all [symmetric] using throws by (simp add: io_bind_def)
  qed
qed

section \<open>Contracts with and without faults\<close>

text \<open>\<open>triple\<close>: the contract under every script, and termination with a result under the empty one.\<close>

definition triple :: "(world \<Rightarrow> bool) \<Rightarrow> 'a io \<Rightarrow> ('a \<Rightarrow> world \<Rightarrow> bool) \<Rightarrow> (world \<Rightarrow> bool) \<Rightarrow> bool" where
  "triple P m Q E \<longleftrightarrow> spec P m Q E \<and> runs P m Q"

lemma triple_bind:
  "triple P m R E \<Longrightarrow> (\<And>x. triple (R x) (f x) Q E) \<Longrightarrow> triple P (io_bind m f) Q E"
  unfolding triple_def by (blast intro: spec_bind runs_bind)

lemma triple_weaken:
  assumes "triple P m Q E" "\<And>w. P' w \<Longrightarrow> P w" "\<And>x w. Q x w \<Longrightarrow> Q' x w" "\<And>w. E w \<Longrightarrow> E' w"
  shows "triple P' m Q' E'"
  using assms spec_weaken [of P m Q E P' Q' E'] runs_weaken [of P m Q P' Q'] unfolding triple_def by blast

lemma triple_pre_ex: "(\<And>a. triple (P a) m Q E) \<Longrightarrow> triple (\<lambda>w. \<exists>a. P a w) m Q E"
  unfolding triple_def using spec_pre_ex [of P m Q E] by (auto simp: runs_def)

lemma triple_assume: "(A \<Longrightarrow> triple P m Q E) \<Longrightarrow> triple (\<lambda>w. A \<and> P w) m Q E"
  by (auto simp: triple_def spec_def runs_def)

lemma triple_False: "triple (\<lambda>w. False) m Q E"
  by (simp add: triple_def spec_def runs_def)

lemma triple_lift: "r = Inr x \<Longrightarrow> triple P (io_lift r) (\<lambda>y w. y = x \<and> P w) E"
  by (simp add: triple_def spec_def runs_def io_lift_def)

lemma triple_return: "(\<And>w. P w \<Longrightarrow> Q x w) \<Longrightarrow> triple P (io_return x) Q E"
  by (simp add: triple_def spec_return runs_return)

lemma triple_throw_if: "\<not> b \<Longrightarrow> triple P (io_throw_if b e) (\<lambda>_. P) E"
  by (simp add: io_throw_if_def triple_return)

lemma triple_reads: "(\<And>w. P w \<Longrightarrow> m w = (Done x, w)) \<Longrightarrow> triple P m (\<lambda>y w. y = x \<and> P w) E"
  by (simp add: triple_def spec_def runs_def)

lemma triple_write:
  assumes "c (p, next_name n) = None \<or> again \<and> (\<exists>t. c (p, next_name n) = Some (own t))"
  shows "triple (holds c) (write_durable_file p n s again)
    (\<lambda>_. holds (c((p, next_name n) := None, (p, n) \<mapsto> own s))) (torn c p n s)"
  using write_durable_spec write_durable_runs [of c p n again s] assms by (simp add: triple_def)

lemma triple_remove:
  "triple (holds c) (remove_durable p n) (\<lambda>_. holds (c((p, n) := None))) (\<lambda>w. holds c w \<or> holds (c((p, n) := None)) w)"
  using remove_durable_spec remove_durable_runs by (simp add: triple_def)

section \<open>Contents during a replay\<close>

definition name_of :: "json \<Rightarrow> string" where
  "name_of m = message_name (projr (message_key m))"

definition text_of :: "json \<Rightarrow> string" where
  "text_of m = projr (canonical m)"

text \<open>A message the outbox can take.\<close>

definition sendable :: "string \<Rightarrow> json \<Rightarrow> bool" where
  "sendable uid m \<longleftrightarrow>
     json_wf m \<and> json_depth m \<le> 22 \<and> canonical m = Inr (text_of m) \<and> length (text_of m) \<le> 16384 \<and>
     message_key m = Inr (projr (message_key m)) \<and>
     at_string m ''unitSystemUid'' = Inr uid \<and> digest_matches m = Inr True"

lemma sendable_name: "sendable uid m \<Longrightarrow> is_message_name (name_of m) \<and> is_sha256 (take 64 (name_of m))"
proof -
  assume "sendable uid m"
  then obtain t where "projr (message_key m) = sha256_hex t"
    unfolding sendable_def message_key_def by (metis emap_eq_Inr ebind_eq_Inr)
  then have "is_sha256 (projr (message_key m))" by (simp add: sha256_hex_is_sha256)
  then show ?thesis by (simp add: name_of_def message_name_def is_message_name_def is_sha256_def)
qed

lemma message_name_length: "is_message_name n \<Longrightarrow> length n = 69"
  by (simp add: is_message_name_def)

lemma next_name_not_message: "is_message_name n \<Longrightarrow> is_message_name m \<Longrightarrow> next_name n \<noteq> m"
  by (auto simp: is_message_name_def next_name_def)

definition outbox_between :: "json list \<Rightarrow> contents \<Rightarrow> contents \<Rightarrow> bool" where
  "outbox_between acc c0 c \<longleftrightarrow>
     (\<forall>n. n \<notin> name_of ` set acc \<longrightarrow> n \<notin> next_name ` name_of ` set acc \<longrightarrow> c (Outbox, n) = c0 (Outbox, n)) \<and>
     (\<forall>m\<in>set acc.
        c (Outbox, name_of m) = None \<and> (\<forall>e. c (Outbox, next_name (name_of m)) = Some e \<longrightarrow> entry_private e) \<or>
        c (Outbox, name_of m) = Some (own (text_of m)) \<and> c (Outbox, next_name (name_of m)) = None)"

definition core_names :: "string set" where
  "core_names = {''state.json'', ''state.sha256'', ''commit.sha256''}"

definition journaled :: "json \<Rightarrow> json list \<Rightarrow> contents \<Rightarrow> contents \<Rightarrow> bool" where
  "journaled nx acc c0 c \<longleftrightarrow>
     c (Root, ''transaction.json'') = Some (own (text_of (transaction nx acc))) \<and>
     (\<forall>n e. c (Root, n) = Some e \<longrightarrow>
        entry_private e \<and> (n = ''transaction.json'' \<or> n \<in> core_names \<or> n \<in> next_name ` core_names)) \<and>
     outbox_between acc c0 c"

text \<open>The arguments a journal is replayed with.\<close>

definition replayable :: "string \<Rightarrow> json \<Rightarrow> json list \<Rightarrow> bool" where
  "replayable uid nx acc \<longleftrightarrow>
     validate_state uid nx = Inr () \<and> canonical nx = Inr (text_of nx) \<and> json_wf nx \<and> json_depth nx \<le> 22 \<and>
     length acc \<le> 4 \<and> (\<forall>m\<in>set acc. sendable uid m) \<and> distinct (map name_of acc) \<and>
     canonical (transaction nx acc) = Inr (text_of (transaction nx acc))"

lemma private_own: "entry_private e \<Longrightarrow> e = own (entry_bytes e)"
  by (cases e) simp

lemma core_not_transaction [simp]:
  "''transaction.json'' \<notin> core_names" "next_name n \<in> core_names \<Longrightarrow> n \<notin> core_names"
  "n \<in> core_names \<Longrightarrow> n \<noteq> ''transaction.json''" "n \<in> core_names \<Longrightarrow> next_name n \<noteq> ''transaction.json''"
  "n \<in> core_names \<Longrightarrow> ''transaction.json'' \<noteq> n" "n \<in> core_names \<Longrightarrow> ''transaction.json'' \<noteq> next_name n"
  by (auto simp: core_names_def next_name_def)

lemma torn_cases:
  assumes "torn c p n s w"
    and "holds c w \<Longrightarrow> R" "\<And>t. holds (c((p, next_name n) \<mapsto> own t)) w \<Longrightarrow> R"
    and "holds (c((p, next_name n) := None)) w \<Longrightarrow> R"
    and "holds (c((p, next_name n) := None, (p, n) \<mapsto> own s)) w \<Longrightarrow> R"
  shows R
  using assms unfolding torn_def by blast

lemma journaled_core_write:
  assumes "journaled nx acc c0 c" "n \<in> core_names"
  shows "journaled nx acc c0 (c((Root, next_name n) \<mapsto> own t))" "journaled nx acc c0 (c((Root, next_name n) := None))"
    "journaled nx acc c0 (c((Root, next_name n) := None, (Root, n) \<mapsto> own t))"
  using assms by (auto simp: journaled_def outbox_between_def)

lemma journaled_core_torn:
  assumes "journaled nx acc c0 c" "n \<in> core_names" "torn c Root n s w"
  shows "\<exists>c'. journaled nx acc c0 c' \<and> holds c' w"
  using assms(3) by (rule torn_cases) (use assms(1,2) journaled_core_write in blast)+

lemma replay_names:
  assumes "replayable uid nx acc" "a \<in> set acc" "b \<in> set acc"
  shows "next_name (name_of a) \<noteq> name_of b" "name_of b \<noteq> next_name (name_of a)"
proof -
  have "is_message_name (name_of a)" "is_message_name (name_of b)"
    using assms sendable_name by (auto simp: replayable_def)
  then show "next_name (name_of a) \<noteq> name_of b" "name_of b \<noteq> next_name (name_of a)"
    using next_name_not_message by metis+
qed

lemma journaled_message_write:
  assumes j: "journaled nx acc c0 c" and m: "m \<in> set acc" "c (Outbox, name_of m) = None"
    and r: "replayable uid nx acc"
  shows "journaled nx acc c0 (c((Outbox, next_name (name_of m)) \<mapsto> own t))"
    "journaled nx acc c0 (c((Outbox, next_name (name_of m)) := None))"
    "journaled nx acc c0 (c((Outbox, next_name (name_of m)) := None, (Outbox, name_of m) \<mapsto> own (text_of m)))"
proof -
  note ne = replay_names [OF r]
  have inj: "name_of a = name_of b \<longleftrightarrow> a = b" if "a \<in> set acc" "b \<in> set acc" for a b
    using that r by (auto simp: replayable_def distinct_map inj_on_eq_iff)
  have nn: "next_name x = next_name y \<longleftrightarrow> x = y" for x y by (simp add: next_name_def)
  show "journaled nx acc c0 (c((Outbox, next_name (name_of m)) \<mapsto> own t))"
    "journaled nx acc c0 (c((Outbox, next_name (name_of m)) := None))"
    "journaled nx acc c0 (c((Outbox, next_name (name_of m)) := None, (Outbox, name_of m) \<mapsto> own (text_of m)))"
    using j m ne inj nn by (auto simp: journaled_def outbox_between_def)
qed

section \<open>A replay completes the journal\<close>

abbreviation in_journal :: "json \<Rightarrow> json list \<Rightarrow> contents \<Rightarrow> world \<Rightarrow> bool" where
  "in_journal nx acc c0 w \<equiv> \<exists>c. journaled nx acc c0 c \<and> holds c w"

text \<open>Part of the way through: the root holds \<open>r\<close> and the messages of \<open>D\<close> are in the outbox.\<close>

definition in_progress :: "json \<Rightarrow> json list \<Rightarrow> contents \<Rightarrow> (string \<Rightarrow> entry option) \<Rightarrow> json set \<Rightarrow> contents \<Rightarrow> bool" where
  "in_progress nx acc c0 r D c \<longleftrightarrow>
     journaled nx acc c0 c \<and> (\<forall>n. c (Root, n) = r n) \<and> D \<subseteq> set acc \<and> (\<forall>m\<in>D. c (Outbox, name_of m) \<noteq> None)"

lemma present_text:
  assumes "journaled nx acc c0 c" "m \<in> set acc" "c (Outbox, name_of m) \<noteq> None"
  shows "c (Outbox, name_of m) = Some (own (text_of m))"
  using assms by (auto simp: journaled_def outbox_between_def)

lemma write_message_triple:
  assumes r: "replayable uid nx acc" and m: "m \<in> set acc" and c: "in_progress nx acc c0 r D c"
    and none: "c (Outbox, name_of m) = None"
  shows "triple (holds c) (write_durable_file Outbox (name_of m) (text_of m) True)
    (\<lambda>_ w. \<exists>c. in_progress nx acc c0 r (insert m D) c \<and> holds c w) (in_journal nx acc c0)"
proof -
  have j: "journaled nx acc c0 c" using c by (simp add: in_progress_def)
  note W = journaled_message_write [OF j m none r]
  have tmp: "c (Outbox, next_name (name_of m)) = None \<or> True \<and> (\<exists>t. c (Outbox, next_name (name_of m)) = Some (own t))"
    using j m none private_own unfolding journaled_def outbox_between_def
    by (metis (no_types, lifting) not_Some_eq)
  show ?thesis
  proof (rule triple_weaken [OF triple_write [where c = c and p = Outbox and n = "name_of m" and again = True, OF tmp]])
    fix x :: unit and w
    let ?c = "c((Outbox, next_name (name_of m)) := None, (Outbox, name_of m) \<mapsto> own (text_of m))"
    assume "holds ?c w"
    moreover have "in_progress nx acc c0 r (insert m D) ?c"
      using c W(3) m replay_names [OF r m] by (auto simp: in_progress_def)
    ultimately show "\<exists>c. in_progress nx acc c0 r (insert m D) c \<and> holds c w" by blast
  next
    fix w
    assume "torn c Outbox (name_of m) (text_of m) w"
    then show "in_journal nx acc c0 w"
      by (rule torn_cases) (use j W in blast)+
  qed
qed

lemma replay_message_triple:
  assumes r: "replayable uid nx acc" and m: "m \<in> set acc"
  shows "triple (\<lambda>w. \<exists>c. in_progress nx acc c0 r D c \<and> holds c w)
    (io_bind (file_exists Outbox (name_of m)) (\<lambda>ex.
       if ex then
         io_bind (private_file Outbox (name_of m)) (\<lambda>_.
         io_bind (read_file Outbox (name_of m) 16384) (\<lambda>old. io_throw_if (old \<noteq> text_of m) ''NOT_READY_STATE''))
       else write_durable_file Outbox (name_of m) (text_of m) True))
    (\<lambda>_ w. \<exists>c. in_progress nx acc c0 r (insert m D) c \<and> holds c w) (in_journal nx acc c0)"
proof (rule triple_pre_ex, rule triple_assume)
  fix c
  assume c: "in_progress nx acc c0 r D c"
  have s: "sendable uid m" using r m by (simp add: replayable_def)
  show "triple (holds c) (io_bind (file_exists Outbox (name_of m)) (\<lambda>ex.
       if ex then
         io_bind (private_file Outbox (name_of m)) (\<lambda>_.
         io_bind (read_file Outbox (name_of m) 16384) (\<lambda>old. io_throw_if (old \<noteq> text_of m) ''NOT_READY_STATE''))
       else write_durable_file Outbox (name_of m) (text_of m) True))
    (\<lambda>_ w. \<exists>c. in_progress nx acc c0 r (insert m D) c \<and> holds c w) (in_journal nx acc c0)"
  proof (cases "c (Outbox, name_of m)")
    case None
    have "triple (holds c) (file_exists Outbox (name_of m)) (\<lambda>ex w. ex = False \<and> holds c w) (in_journal nx acc c0)"
      by (rule triple_reads) (simp add: file_exists_def get_file_holds None)
    then show ?thesis
      by (rule triple_bind) (auto intro!: triple_assume triple_False write_message_triple [OF r m c None])
  next
    case (Some e)
    then have e: "c (Outbox, name_of m) = Some (own (text_of m))"
      using present_text [of nx acc c0 c m] c m by (auto simp: in_progress_def)
    have ne: "text_of m \<noteq> []" "length (text_of m) \<le> 16384"
      using s canonical_nonempty by (auto simp: sendable_def)
    have "in_progress nx acc c0 r (insert m D) c" using c e m by (auto simp: in_progress_def)
    then show ?thesis
      using ne by (auto simp: triple_def spec_def runs_def io_simps file_exists_def private_file_def read_file_def
          get_file_holds e)
  qed
qed

lemma io_bind_assoc: "io_bind (io_bind m f) g = io_bind m (\<lambda>x. io_bind (f x) g)"
  by (rule ext) (auto simp: io_bind_def split: prod.splits outcome.splits)

lemma io_bind_lift: "r = Inr x \<Longrightarrow> io_bind (io_lift r) f = f x"
  by (rule ext) (simp add: io_bind_def io_lift_def)

lemma replay_messages_triple:
  assumes r: "replayable uid nx acc" and "set ms \<subseteq> set acc"
  shows "triple (\<lambda>w. \<exists>c. in_progress nx acc c0 r D c \<and> holds c w) (replay_messages ms)
    (\<lambda>_ w. \<exists>c. in_progress nx acc c0 r (set ms \<union> D) c \<and> holds c w) (in_journal nx acc c0)"
  using assms(2)
proof (induction ms arbitrary: D)
  case Nil
  show ?case by (auto intro!: triple_return)
next
  case (Cons m ms)
  then have m: "m \<in> set acc" by simp
  have "sendable uid m" using r m by (simp add: replayable_def)
  then have "message_key m = Inr (projr (message_key m))" "canonical m = Inr (text_of m)"
    by (simp_all add: sendable_def)
  then have eq: "replay_messages (m # ms) = io_bind (io_bind (file_exists Outbox (name_of m)) (\<lambda>ex.
       if ex then
         io_bind (private_file Outbox (name_of m)) (\<lambda>_.
         io_bind (read_file Outbox (name_of m) 16384) (\<lambda>old. io_throw_if (old \<noteq> text_of m) ''NOT_READY_STATE''))
       else write_durable_file Outbox (name_of m) (text_of m) True)) (\<lambda>_. replay_messages ms)"
    unfolding replay_messages.simps name_of_def by (simp only: io_bind_lift io_bind_assoc)
  have "triple (\<lambda>w. \<exists>c. in_progress nx acc c0 r (insert m D) c \<and> holds c w) (replay_messages ms)
    (\<lambda>_ w. \<exists>c. in_progress nx acc c0 r (set (m # ms) \<union> D) c \<and> holds c w) (in_journal nx acc c0)"
    using Cons.IH [of "insert m D"] Cons.prems by simp
  then show ?case unfolding eq by (rule triple_bind [OF replay_message_triple [OF r m]])
qed


lemma transaction_eq:
  "transaction nx acc = JObject [(''messages'', JArray acc), (''schemaVersion'', JInt 1), (''state'', nx)]"
  by (simp add: transaction_def dict_emplace_def less_list_code less_char_def dict_has_def)

lemma check_messages_sendable: "\<forall>m\<in>set ms. sendable uid m \<Longrightarrow> check_messages uid ms = Inr ()"
  by (induction ms) (auto simp: sendable_def ethrow_if_def)

text \<open>A replayable journal passes every check of \<open>replay\<close>, which leaves its writes.\<close>

lemma replay_writes:
  assumes "replayable uid nx acc"
  shows "replay uid (transaction nx acc) =
    io_bind (write_durable_file Root ''state.json'' (text_of nx) True) (\<lambda>_.
    io_bind (write_durable_file Root ''state.sha256'' (sha256_hex (text_of nx)) True) (\<lambda>_.
    io_bind (replay_messages acc) (\<lambda>_.
    io_bind (write_durable_file Root ''commit.sha256'' (sha256_hex (text_of (transaction nx acc))) True) (\<lambda>_.
      set_memory nx))))"
proof -
  have r: "validate_state uid nx = Inr ()" "canonical nx = Inr (text_of nx)" "\<not> 4 < length acc"
    "check_messages uid acc = Inr ()" "canonical (transaction nx acc) = Inr (text_of (transaction nx acc))"
    using assms check_messages_sendable by (auto simp: replayable_def)
  have t: "ethrow_if (eany [emap (\<lambda>n. n \<noteq> 3) (object_size (transaction nx acc)),
        emap (\<lambda>n. n \<noteq> 1) (at_integer (transaction nx acc) ''schemaVersion'')]) NOT_READY = Inr ()"
    "json_at (transaction nx acc) ''state'' = Inr nx" "at_array (transaction nx acc) ''messages'' = Inr acc"
    by (simp_all add: transaction_eq ethrow_if_def object_size_def at_integer_def at_array_def json_at_def dict_at_def)
  have ok: "io_bind (io_throw_if False e) f = f ()" for e f
    by (rule ext) (simp add: io_simps)
  show ?thesis
    unfolding replay_def by (simp only: io_bind_lift [OF t(1)] io_bind_lift [OF t(2)] io_bind_lift [OF t(3)]
        io_bind_lift [OF r(1)] io_bind_lift [OF r(2)] io_bind_lift [OF r(4)] io_bind_lift [OF r(5)] r(3) ok)
qed

lemma write_core_triple:
  assumes n: "n \<in> core_names"
  shows "triple (\<lambda>w. \<exists>c. in_progress nx acc c0 r D c \<and> holds c w) (write_durable_file Root n t True)
    (\<lambda>_ w. \<exists>c. in_progress nx acc c0 (r(next_name n := None, n \<mapsto> own t)) D c \<and> holds c w) (in_journal nx acc c0)"
proof (rule triple_pre_ex, rule triple_assume)
  fix c
  assume c: "in_progress nx acc c0 r D c"
  then have j: "journaled nx acc c0 c" by (simp add: in_progress_def)
  then have tmp: "c (Root, next_name n) = None \<or> True \<and> (\<exists>t. c (Root, next_name n) = Some (own t))"
    using private_own unfolding journaled_def by (metis (no_types, lifting) not_Some_eq)
  have "in_progress nx acc c0 (r(next_name n := None, n \<mapsto> own t)) D (c((Root, next_name n) := None, (Root, n) \<mapsto> own t))"
    using c journaled_core_write(3) [OF j n] by (auto simp: in_progress_def)
  then show "triple (holds c) (write_durable_file Root n t True)
    (\<lambda>_ w. \<exists>c. in_progress nx acc c0 (r(next_name n := None, n \<mapsto> own t)) D c \<and> holds c w) (in_journal nx acc c0)"
    by (intro triple_weaken [OF triple_write [where c = c and p = Root and n = n and again = True, OF tmp]])
       (auto intro: journaled_core_torn [OF j n])
qed

text \<open>The contents after the commit of \<open>nx\<close> and the accepted messages.\<close>

definition committed_root :: "json \<Rightarrow> json list \<Rightarrow> string \<Rightarrow> entry option" where
  "committed_root nx acc =
     [''state.json'' \<mapsto> own (text_of nx), ''state.sha256'' \<mapsto> own (sha256_hex (text_of nx)),
      ''commit.sha256'' \<mapsto> own (sha256_hex (text_of (transaction nx acc)))]"

definition with_messages :: "json list \<Rightarrow> (string \<Rightarrow> entry option) \<Rightarrow> string \<Rightarrow> entry option" where
  "with_messages acc out = out ++ map_of (map (\<lambda>m. (name_of m, own (text_of m))) acc)"

definition committed :: "json \<Rightarrow> json list \<Rightarrow> contents \<Rightarrow> contents" where
  "committed nx acc c0 =
     (\<lambda>(p, n). case p of Root \<Rightarrow> committed_root nx acc n | Outbox \<Rightarrow> with_messages acc (\<lambda>n. c0 (Outbox, n)) n)"

definition journal_of :: "json \<Rightarrow> json list \<Rightarrow> entry" where
  "journal_of nx acc = own (text_of (transaction nx acc))"

lemma with_messages_outside: "n \<notin> name_of ` set acc \<Longrightarrow> with_messages acc out n = out n"
  by (force simp: with_messages_def map_add_def map_of_eq_None_iff split: option.splits dest: map_of_SomeD)

lemma with_messages_inside:
  "distinct (map name_of acc) \<Longrightarrow> m \<in> set acc \<Longrightarrow> with_messages acc out (name_of m) = Some (own (text_of m))"
  unfolding with_messages_def by (rule map_add_find_right, rule map_of_is_SomeI) (auto simp: comp_def)

lemma progress_committed:
  assumes r: "replayable uid nx acc" and fresh: "\<forall>m\<in>set acc. c0 (Outbox, next_name (name_of m)) = None"
    and c: "in_progress nx acc c0 r (set acc) c"
    and root: "r ''state.json'' = Some (own (text_of nx))" "r ''state.sha256'' = Some (own (sha256_hex (text_of nx)))"
      "r ''commit.sha256'' = Some (own (sha256_hex (text_of (transaction nx acc))))"
      "\<forall>n\<in>next_name ` core_names. r n = None"
  shows "c = (committed nx acc c0)((Root, ''transaction.json'') \<mapsto> journal_of nx acc)"
proof -
  have j: "journaled nx acc c0 c" and rn: "c (Root, n) = r n" for n using c by (auto simp: in_progress_def)
  have here: "c (Outbox, name_of m) = Some (own (text_of m)) \<and> c (Outbox, next_name (name_of m)) = None"
    if "m \<in> set acc" for m
    using that c by (fastforce simp: in_progress_def journaled_def outbox_between_def)
  have d: "distinct (map name_of acc)" using r by (simp add: replayable_def)
  have out: "c (Outbox, n) = with_messages acc (\<lambda>n. c0 (Outbox, n)) n" for n
  proof (cases "n \<in> name_of ` set acc")
    case True
    then show ?thesis using here with_messages_inside [OF d] by auto
  next
    case False
    then show ?thesis
      using here j fresh unfolding journaled_def outbox_between_def
      by (cases "n \<in> next_name ` name_of ` set acc") (auto simp: with_messages_outside)
  qed
  have "c (Root, n) = ((committed_root nx acc)(''transaction.json'' \<mapsto> journal_of nx acc)) n" for n
  proof (cases "n = ''transaction.json'' \<or> n \<in> core_names")
    case True
    then show ?thesis using j root by (auto simp: core_names_def rn committed_root_def journaled_def journal_of_def)
  next
    case False
    then have "c (Root, n) = None" using j root(4) rn by (fastforce simp: journaled_def)
    with False show ?thesis by (auto simp: committed_root_def core_names_def)
  qed
  with out show ?thesis
    by (auto simp: fun_eq_iff committed_def split: place.splits)
qed

lemma journal_progress: "journaled nx acc c0 c \<Longrightarrow> in_progress nx acc c0 (\<lambda>n. c (Root, n)) {} c"
  by (simp add: in_progress_def)

lemma replay_triple:
  assumes r: "replayable uid nx acc" and fresh: "\<forall>m\<in>set acc. c0 (Outbox, next_name (name_of m)) = None"
  shows "triple (in_journal nx acc c0) (replay uid (transaction nx acc))
    (\<lambda>_ w. memory w = nx \<and> holds ((committed nx acc c0)((Root, ''transaction.json'') \<mapsto> journal_of nx acc)) w)
    (in_journal nx acc c0)"
proof -
  let ?a = "own (text_of nx)" and ?b = "own (sha256_hex (text_of nx))"
  let ?d = "own (sha256_hex (text_of (transaction nx acc)))"
  let ?r2 = "\<lambda>r. r(next_name ''state.json'' := None, ''state.json'' \<mapsto> ?a, next_name ''state.sha256'' := None, ''state.sha256'' \<mapsto> ?b)"
  let ?r3 = "\<lambda>r. (?r2 r)(next_name ''commit.sha256'' := None, ''commit.sha256'' \<mapsto> ?d)"
  let ?at = "\<lambda>r D w. \<exists>c. in_progress nx acc c0 r D c \<and> holds c w"
  have core: "''state.json'' \<in> core_names" "''state.sha256'' \<in> core_names" "''commit.sha256'' \<in> core_names"
    by (simp_all add: core_names_def)
  have end_: "triple (?at (?r3 r) (set acc)) (set_memory nx)
    (\<lambda>_ w. memory w = nx \<and> holds ((committed nx acc c0)((Root, ''transaction.json'') \<mapsto> journal_of nx acc)) w)
    (in_journal nx acc c0)" for r
  proof (rule triple_pre_ex, rule triple_assume)
    fix c
    assume "in_progress nx acc c0 (?r3 r) (set acc) c"
    then have "c = (committed nx acc c0)((Root, ''transaction.json'') \<mapsto> journal_of nx acc)"
      by (rule progress_committed [OF assms]) (auto simp: core_names_def next_name_def)
    then show "triple (holds c) (set_memory nx)
      (\<lambda>_ w. memory w = nx \<and> holds ((committed nx acc c0)((Root, ''transaction.json'') \<mapsto> journal_of nx acc)) w)
      (in_journal nx acc c0)"
      by (simp add: triple_def spec_def runs_def set_memory_def)
  qed
  have main: "triple (?at r {}) (replay uid (transaction nx acc))
    (\<lambda>_ w. memory w = nx \<and> holds ((committed nx acc c0)((Root, ''transaction.json'') \<mapsto> journal_of nx acc)) w)
    (in_journal nx acc c0)" for r
    unfolding replay_writes [OF r]
    using replay_messages_triple [OF r subset_refl, where D = "{}"] end_ core
    by (intro triple_bind [OF write_core_triple] triple_bind [OF replay_messages_triple [OF r subset_refl]]) auto
  have "triple (\<lambda>w. \<exists>r. ?at r {} w) (replay uid (transaction nx acc))
    (\<lambda>_ w. memory w = nx \<and> holds ((committed nx acc c0)((Root, ''transaction.json'') \<mapsto> journal_of nx acc)) w)
    (in_journal nx acc c0)"
    by (rule triple_pre_ex) (rule main)
  then show ?thesis
    by (rule triple_weaken) (use journal_progress in blast)+
qed

end
