(* ===== verification/Recovery.thy ===== *)
theory Recovery
  imports Journal
begin

text \<open>
  The state store survives failures: what a commit leaves behind under any script of failures and crashes,
  and what opening the store makes of it.
\<close>

section \<open>A store at rest\<close>

definition clean_store :: "string \<Rightarrow> json \<Rightarrow> contents \<Rightarrow> bool" where
  "clean_store uid st c \<longleftrightarrow>
     c (Root, ''state.json'') = Some (own (text_of st)) \<and>
     c (Root, ''state.sha256'') = Some (own (sha256_hex (text_of st))) \<and>
     (\<forall>n e. c (Root, n) = Some e \<longrightarrow> entry_private e \<and> n \<in> core_names) \<and>
     canonical st = Inr (text_of st) \<and> json_wf st \<and> json_depth st \<le> 24 \<and> validate_state uid st = Inr () \<and>
     queue_valid uid c"

lemma validate_state_size:
  assumes "validate_state uid v = Inr ()"
  obtains t where "canonical v = Inr t" "length t \<le> 131072"
proof -
  have "check_envelope uid v = Inr ()"
    using assms by (auto simp: validate_state_def validate_round_def result_simps)
  then show ?thesis
    using that unfolding check_envelope_def ethrow_if_Inr eany_False by (auto simp: result_simps not_less)
qed

lemma text_of_state:
  "validate_state uid v = Inr () \<Longrightarrow> canonical v = Inr (text_of v) \<and> length (text_of v) \<le> 131072 \<and> text_of v \<noteq> []"
  by (elim validate_state_size) (auto simp: text_of_def dest: canonical_nonempty)

lemma check_root_names_ok:
  assumes w: "holds c w"
    and fine: "\<forall>n\<in>set names. (\<exists>e. c (Root, n) = Some e \<and> entry_private e) \<and>
      (n = ''transaction.json'' \<or> n \<in> core_names \<or> c (Root, ''transaction.json'') \<noteq> None \<and> n \<in> next_name ` core_names)"
  shows "check_root_names names w = (Done (), w)"
  using fine
proof (induction names)
  case Nil
  show ?case by (simp add: io_return_def)
next
  case (Cons n names)
  then obtain e where e: "c (Root, n) = Some e" "entry_private e" by auto
  have "n = ''transaction.json'' \<or> n \<in> core_names \<or> c (Root, ''transaction.json'') \<noteq> None \<and> n \<in> next_name ` core_names"
    using Cons.prems by simp
  then have ok: "n \<in> set [''state.json'', ''state.sha256'', ''transaction.json'', ''commit.sha256''] \<or>
     c (Root, ''transaction.json'') \<noteq> None \<and> n \<in> set [''state.json.next'', ''state.sha256.next'', ''commit.sha256.next'']"
    by (auto simp: core_names_def next_name_def)
  from Cons have "check_root_names names w = (Done (), w)" by simp
  moreover have "private_file Root n w = (Done (), w)" using e w by (simp add: private_file_def get_file_holds)
  moreover have "file_exists Root ''transaction.json'' w = (Done (c (Root, ''transaction.json'') \<noteq> None), w)"
    using w by (simp add: file_exists_def get_file_holds)
  ultimately show ?case using ok by (auto simp: io_simps Let_def simp del: set_simps)
qed

lemma root_names:
  assumes "holds c w"
  shows "set (map fst (dirs w Root)) = {n. c (Root, n) \<noteq> None}"
proof -
  have "c (Root, n) = dict_get (dirs w Root) n" for n
    using get_file_holds [OF assms, of Root n] by (simp add: get_file_def)
  then show ?thesis by (auto simp: dict_get_None)
qed

lemma prepare_triple: "(\<And>w. holds c w \<Longrightarrow> E w) \<Longrightarrow> triple (holds c) (prepare_directory p) (\<lambda>_. holds c) E"
  unfolding triple_def prepare_directory_def
  by (intro conjI spec_syscall runs_syscall) (auto simp: holds_def world_ok_def contents_def get_file_def)

text \<open>The end of the constructor, from contents without a journal.\<close>

definition finish_open :: "string \<Rightarrow> string \<Rightarrow> unit io" where
  "finish_open uid epoch =
     io_bind (load_state uid epoch) (\<lambda>_.
     io_bind get_memory (\<lambda>state.
     io_bind (read_file Root ''state.sha256'' 64) (\<lambda>digest.
     io_bind (io_lift (canonical state)) (\<lambda>text.
     io_bind (io_throw_if (digest \<noteq> sha256_hex text) ''NOT_READY_STATE'') (\<lambda>_.
     io_bind (io_lift (validate_state uid state)) (\<lambda>_.
       validate_queue uid))))))"

lemma open_store_stages:
  "open_store uid epoch =
     io_bind (prepare_directory Root) (\<lambda>_.
     io_bind (prepare_directory Outbox) (\<lambda>_.
     io_bind (io_bind (names_of Root) check_root_names) (\<lambda>_.
     io_bind (recover_journal uid) (\<lambda>_.
       finish_open uid epoch))))"
  by (simp only: open_store_def finish_open_def io_bind_assoc)

lemma sha256_hex_length: "length (sha256_hex t) = 64"
  using sha256_hex_is_sha256 [of t] by (simp add: is_sha256_def)

lemma finish_open_clean:
  assumes c: "clean_store uid st c" and w: "holds c w"
  shows "finish_open uid epoch w = (Done (), w\<lparr>memory := st\<rparr>)"
proof -
  have can: "canonical st = Inr (text_of st)" "length (text_of st) \<le> 131072" "text_of st \<noteq> []"
    "validate_state uid st = Inr ()"
    using c text_of_state by (auto simp: clean_store_def)
  then have p: "parse_json (text_of st) 131072 = Inr st"
    using c by (intro parse_canonical) (auto simp: clean_store_def)
  have files: "get_file Root ''state.json'' w = Some (own (text_of st))"
    "get_file Root ''state.sha256'' w = Some (own (sha256_hex (text_of st)))"
    using c w by (auto simp: clean_store_def get_file_holds)
  let ?w = "w\<lparr>memory := st\<rparr>"
  have load: "load_state uid epoch w = (Done (), ?w)"
    using files(1) can p by (simp add: load_state_def io_simps file_exists_def read_file_def)
  have "sha256_hex (text_of st) \<noteq> []" using sha256_hex_length [of "text_of st"] by fastforce
  moreover have "get_file Root ''state.sha256'' ?w = Some (own (sha256_hex (text_of st)))"
    using files(2) by (simp add: get_file_def)
  ultimately have read: "read_file Root ''state.sha256'' 64 ?w = (Done (sha256_hex (text_of st)), ?w)"
    by (simp add: read_file_def sha256_hex_length)
  have queue: "validate_queue uid ?w = (Done (), ?w)"
    using validate_queue_done [of c ?w uid] c w by (simp add: clean_store_def)
  show ?thesis
    using can by (simp add: finish_open_def io_bind_def load read queue get_memory_def io_lift_def io_throw_if_def io_return_def)
qed

lemma open_clean_triple:
  assumes c: "clean_store uid st c"
  shows "triple (holds c) (open_store uid epoch) (\<lambda>_ w. memory w = st \<and> holds c w) (holds c)"
proof -
  have names: "triple (holds c) (io_bind (names_of Root) check_root_names) (\<lambda>_. holds c) (holds c)"
  proof (rule triple_weaken [OF triple_reads [where x = "()"]])
    fix w
    assume w: "holds c w"
    have "check_root_names (map fst (dirs w Root)) w = (Done (), w)"
      using c by (intro check_root_names_ok [OF w]) (auto simp only: root_names [OF w] clean_store_def)
    then show "io_bind (names_of Root) check_root_names w = (Done (), w)"
      by (simp add: io_bind_def names_of_def)
  qed auto
  have journal: "triple (holds c) (recover_journal uid) (\<lambda>_. holds c) (holds c)"
  proof (rule triple_weaken [OF triple_reads [where x = "()"]])
    fix w
    assume w: "holds c w"
    have "c (Root, ''transaction.json'') = None"
      using c core_not_transaction(1) unfolding clean_store_def by (metis not_Some_eq)
    with w show "recover_journal uid w = (Done (), w)"
      by (simp add: recover_journal_def io_simps file_exists_def get_file_holds)
  qed auto
  have "triple (holds c) (finish_open uid epoch) (\<lambda>_ w. memory w = st \<and> holds c w) (holds c)"
    using finish_open_clean [OF c] by (simp add: triple_def spec_def runs_def)
  then show ?thesis
    unfolding open_store_stages
    by (intro triple_bind [OF prepare_triple] triple_bind [OF names] triple_bind [OF journal])
qed


section \<open>The text of the journal\<close>

definition total_length :: "json list \<Rightarrow> nat" where
  "total_length ms = sum_list (map (\<lambda>m. length (text_of m)) ms)"

lemma length_join: "length (join ts) \<le> sum_list (map length ts) + length ts"
proof (cases ts)
  case (Cons t us)
  have "length (concat (map (\<lambda>u. CHR '','' # u) us)) = sum_list (map length us) + length us"
    by (induction us) auto
  with Cons show ?thesis by simp
qed simp

lemma emapM_texts: "\<forall>m\<in>set ms. canonical m = Inr (text_of m) \<Longrightarrow> emapM canonical ms = Inr (map text_of ms)"
  by (induction ms) auto

lemma journal_text:
  assumes "canonical nx = Inr (text_of nx)" "\<forall>m\<in>set acc. canonical m = Inr (text_of m)"
  shows "canonical (transaction nx acc) = Inr (text_of (transaction nx acc))"
    "length (text_of (transaction nx acc)) \<le> length (text_of nx) + total_length acc + length acc + 45"
proof -
  let ?a = "''['' @ join (map text_of acc) @ '']''"
  let ?q = "\<lambda>k. CHR 0x22 # k @ [CHR 0x22]"
  let ?t = "''{'' @ join [?q ''messages'' @ '':'' @ ?a, ?q ''schemaVersion'' @ '':'' @ ''1'', ?q ''state'' @ '':'' @ text_of nx] @ ''}''"
  have q: "quote_json k = Inr (?q k)" "ascii_key k" if "k \<in> {''messages'', ''schemaVersion'', ''state''}" for k
    using that by (auto, code_simp+)
  have one: "show_int 1 = ''1''" by code_simp
  have "canonical (JArray acc) = Inr ?a"
    by (simp only: canonical_array emapM_texts [OF assms(2)] emap_simps)
  then have arr: "canonical_items ''['' acc = Inr ?a" by simp
  have t: "canonical (transaction nx acc) = Inr ?t"
    using assms by (simp add: transaction_eq canonical_object field_text_def q one arr)
  then show "canonical (transaction nx acc) = Inr (text_of (transaction nx acc))"
    by (simp add: text_of_def)
  have "length ?t \<le> length (text_of nx) + total_length acc + length acc + 45"
    using length_join [of "map text_of acc"] by (simp add: total_length_def comp_def)
  then show "length (text_of (transaction nx acc)) \<le> length (text_of nx) + total_length acc + length acc + 45"
    using t by (simp add: text_of_def)
qed


lemma journal_shape:
  assumes "replayable uid nx acc"
  shows "json_wf (transaction nx acc)" "json_depth (transaction nx acc) \<le> 24"
proof -
  have s: "\<forall>m\<in>set acc. json_wf m \<and> json_depth m \<le> 22" using assms by (simp add: replayable_def sendable_def)
  have "dict_ok [(''messages'', JArray acc), (''schemaVersion'', JInt 1), (''state'', nx)]"
    by (simp add: dict_ok_def less_list_code less_char_def)
  with s show "json_wf (transaction nx acc)"
    using assms by (simp add: transaction_eq list_all_iff replayable_def)
  have "json_depth (JArray acc) \<le> 23" using s by (simp add: foldr_max_le)
  then show "json_depth (transaction nx acc) \<le> 24"
    using assms by (simp add: transaction_eq replayable_def)
qed

section \<open>Opening a store with a journal\<close>

lemma fresh_names:
  assumes "queue_valid uid c" "sendable uid m"
  shows "c (Outbox, next_name (name_of m)) = None"
proof (rule ccontr)
  assume "c (Outbox, next_name (name_of m)) \<noteq> None"
  then have "is_blocked_name (next_name (name_of m)) \<or> is_message_name (next_name (name_of m))"
    using assms(1) by (auto simp: queue_valid_def entry_fine_def)
  moreover have "length (next_name (name_of m)) = 74"
    using sendable_name [OF assms(2)] by (auto simp: is_message_name_def next_name_def)
  ultimately show False by (auto simp: is_blocked_name_def is_message_name_def)
qed

lemma remove_keeps_memory: "memory (snd (remove_durable p n w)) = memory w"
  by (auto simp: remove_durable_def io_simps split: list.splits fault.splits)

lemma remove_memory_triple:
  "triple (\<lambda>w. memory w = j \<and> holds c w) (remove_durable p n) (\<lambda>_ w. memory w = j \<and> holds (c((p, n) := None)) w)
     (\<lambda>w. holds c w \<or> holds (c((p, n) := None)) w)"
proof -
  have "spec (\<lambda>w. memory w = j \<and> holds c w) (remove_durable p n) (\<lambda>_ w. memory w = j \<and> holds (c((p, n) := None)) w)
     (\<lambda>w. holds c w \<or> holds (c((p, n) := None)) w)"
  proof (rule specI)
    fix w
    assume w: "memory w = j \<and> holds c w"
    then have "case remove_durable p n w of (Done x, w') \<Rightarrow> holds (c((p, n) := None)) w' |
       (_, w') \<Rightarrow> holds c w' \<or> holds (c((p, n) := None)) w'"
      using remove_durable_spec [of c p n] by (simp add: spec_def)
    with w remove_keeps_memory [of p n w]
    show "case remove_durable p n w of (Done x, w') \<Rightarrow> memory w' = j \<and> holds (c((p, n) := None)) w' |
       (_, w') \<Rightarrow> holds c w' \<or> holds (c((p, n) := None)) w'"
      by (auto split: prod.splits outcome.splits)
  qed
  moreover have "runs (\<lambda>w. memory w = j \<and> holds c w) (remove_durable p n) (\<lambda>_ w. memory w = j \<and> holds (c((p, n) := None)) w)"
    unfolding runs_def
  proof (intro allI impI)
    fix w
    assume w: "memory w = j \<and> holds c w" "script w = []"
    then obtain x w' where "remove_durable p n w = (Done x, w') \<and> holds (c((p, n) := None)) w' \<and> script w' = []"
      using remove_durable_runs [of c p n] unfolding runs_def by blast
    with w remove_keeps_memory [of p n w]
    show "\<exists>x w'. remove_durable p n w = (Done x, w') \<and> (memory w' = j \<and> holds (c((p, n) := None)) w') \<and> script w' = []"
      by auto
  qed
  ultimately show ?thesis by (simp add: triple_def)
qed

text \<open>After the replay, the journal is the only thing left to remove.\<close>

lemma committed_journal_free [simp]: "committed nx acc c0 (Root, ''transaction.json'') = None"
  by (simp add: committed_def committed_root_def)

lemma finish_replay:
  assumes r: "replayable uid nx acc" and fresh: "\<forall>m\<in>set acc. c0 (Outbox, next_name (name_of m)) = None"
  shows "triple (in_journal nx acc c0)
    (io_bind (replay uid (transaction nx acc)) (\<lambda>_. remove_durable Root ''transaction.json''))
    (\<lambda>_ w. memory w = nx \<and> holds (committed nx acc c0) w) (\<lambda>w. in_journal nx acc c0 w \<or> holds (committed nx acc c0) w)"
proof -
  let ?c = "(committed nx acc c0)((Root, ''transaction.json'') \<mapsto> journal_of nx acc)"
  have removed: "?c((Root, ''transaction.json'') := None) = committed nx acc c0"
    by (rule ext) simp
  have j: "journaled nx acc c0 ?c"
  proof -
    have d: "distinct (map name_of acc)" using r by (simp add: replayable_def)
    have "with_messages acc (\<lambda>n. c0 (Outbox, n)) (next_name (name_of m)) = None" if "m \<in> set acc" for m
      using that fresh replay_names [OF r] by (subst with_messages_outside) auto
    then have "outbox_between acc c0 ?c"
      using with_messages_inside [OF d] with_messages_outside
      by (auto simp: outbox_between_def committed_def)
    then show ?thesis
      by (auto simp: journaled_def committed_def committed_root_def core_names_def journal_of_def split: if_splits)
  qed
  have first: "triple (in_journal nx acc c0) (replay uid (transaction nx acc)) (\<lambda>_ w. memory w = nx \<and> holds ?c w)
    (\<lambda>w. in_journal nx acc c0 w \<or> holds (committed nx acc c0) w)"
    by (rule triple_weaken [OF replay_triple [OF assms]]) auto
  have second: "triple (\<lambda>w. memory w = nx \<and> holds ?c w) (remove_durable Root ''transaction.json'')
    (\<lambda>_ w. memory w = nx \<and> holds (committed nx acc c0) w) (\<lambda>w. in_journal nx acc c0 w \<or> holds (committed nx acc c0) w)"
    using remove_memory_triple [of nx ?c Root "''transaction.json''", unfolded removed]
    by (rule triple_weaken) (use j in blast)+
  show ?thesis by (rule triple_bind [OF first second])
qed


lemma open_journal_triple:
  assumes r: "replayable uid nx acc" and fresh: "\<forall>m\<in>set acc. c0 (Outbox, next_name (name_of m)) = None"
    and size: "length (text_of (transaction nx acc)) \<le> 196608" and clean: "clean_store uid nx (committed nx acc c0)"
  shows "triple (in_journal nx acc c0) (open_store uid epoch)
    (\<lambda>_ w. memory w = nx \<and> holds (committed nx acc c0) w) (\<lambda>w. in_journal nx acc c0 w \<or> holds (committed nx acc c0) w)"
    (is "triple ?J _ ?Q ?E")
proof -
  have can: "canonical (transaction nx acc) = Inr (text_of (transaction nx acc))"
    using r by (simp add: replayable_def)
  have parse: "parse_json (text_of (transaction nx acc)) 196608 = Inr (transaction nx acc)"
    by (rule parse_canonical [OF can journal_shape [OF r] size])
  have prepare: "triple ?J (prepare_directory p) (\<lambda>_. ?J) ?E" for p
  proof (rule triple_pre_ex, rule triple_assume)
    fix c
    assume "journaled nx acc c0 c"
    then show "triple (holds c) (prepare_directory p) (\<lambda>_. ?J) ?E"
      by (intro triple_weaken [OF prepare_triple [where E = ?E]]) auto
  qed
  have names: "triple ?J (io_bind (names_of Root) check_root_names) (\<lambda>_. ?J) ?E"
  proof (rule triple_weaken [OF triple_reads [where x = "()"]])
    fix w
    assume "?J w"
    then obtain c where c: "journaled nx acc c0 c" and w: "holds c w" by blast
    have "check_root_names (map fst (dirs w Root)) w = (Done (), w)"
      using c by (intro check_root_names_ok [OF w]) (auto simp only: root_names [OF w] journaled_def)
    then show "io_bind (names_of Root) check_root_names w = (Done (), w)"
      by (simp add: io_bind_def names_of_def)
  qed auto
  have eq: "recover_journal uid w = io_bind (replay uid (transaction nx acc)) (\<lambda>_. remove_durable Root ''transaction.json'') w"
    if "?J w" for w
  proof -
    have "get_file Root ''transaction.json'' w = Some (own (text_of (transaction nx acc)))"
      using that by (auto simp: journaled_def get_file_holds)
    then show ?thesis
      using parse size canonical_nonempty [OF can]
      by (simp add: recover_journal_def io_bind_def file_exists_def read_file_def io_lift_def)
  qed
  then have recover: "triple ?J (recover_journal uid) ?Q ?E"
    using finish_replay [OF r fresh] by (simp add: triple_def spec_def runs_def)
  have "triple (?Q x) (finish_open uid epoch) ?Q ?E" for x
    using finish_open_clean [OF clean] by (simp add: triple_def spec_def runs_def)
  then show ?thesis
    unfolding open_store_stages
    by (intro triple_bind [OF prepare] triple_bind [OF names] triple_bind [OF recover])
qed

section \<open>The outbox after a commit\<close>

lemma sendable_fine:
  assumes "sendable uid m"
  shows "message_fine uid (name_of m) (text_of m)"
proof -
  have "parse_json (text_of m) 16384 = Inr m"
    using assms by (intro parse_canonical) (auto simp: sendable_def)
  moreover obtain key where key: "message_key m = Inr key" "name_of m = message_name key"
    using assms by (metis name_of_def sendable_def)
  have "take 64 (name_of m) = key"
    using sendable_name [OF assms] key by (simp add: is_message_name_def message_name_def)
  then have "queue_message_bad uid (name_of m) (text_of m) m = Inr False"
    using assms key by (simp add: queue_message_bad_def sendable_def)
  ultimately show ?thesis
    using assms canonical_nonempty by (auto simp: message_fine_def sendable_def)
qed

lemma committed_outbox [simp]: "committed nx acc c0 (Outbox, n) = with_messages acc (\<lambda>n. c0 (Outbox, n)) n"
  by (simp add: committed_def)

lemma with_messages_keeps: "out n \<noteq> None \<Longrightarrow> with_messages acc out n \<noteq> None"
  by (auto simp: with_messages_def)

lemma committed_totals:
  assumes fin: "finite (messages_in c0)" and d: "distinct (map name_of acc)"
    and new: "\<forall>m\<in>set acc. c0 (Outbox, name_of m) = None \<and> is_message_name (name_of m)"
  shows "card (messages_in (committed nx acc c0)) = card (messages_in c0) + length acc"
    "bytes_in (committed nx acc c0) = bytes_in c0 + total_length acc"
proof -
  let ?N = "name_of ` set acc" and ?f = "\<lambda>c n. length (entry_bytes (the (c (Outbox, n))))"
  have "committed nx acc c0 (Outbox, n) \<noteq> None \<longleftrightarrow> n \<in> ?N \<or> c0 (Outbox, n) \<noteq> None" for n
    by (cases "n \<in> ?N") (auto simp: with_messages_inside [OF d] with_messages_outside)
  then have split: "messages_in (committed nx acc c0) = messages_in c0 \<union> ?N"
    unfolding messages_in_def using new by blast
  have disjoint: "messages_in c0 \<inter> ?N = {}" using new by (auto simp: messages_in_def)
  have inj: "inj_on name_of (set acc)" and dacc: "distinct acc" using d by (simp_all add: distinct_map)
  show "card (messages_in (committed nx acc c0)) = card (messages_in c0) + length acc"
    unfolding split using card_Un_disjoint [OF fin _ disjoint] card_image [OF inj] distinct_card [OF dacc] by simp
  have "(\<Sum>n\<in>messages_in c0. ?f (committed nx acc c0) n) = bytes_in c0"
    unfolding bytes_in_def
  proof (rule sum.cong [OF refl])
    fix n
    assume "n \<in> messages_in c0"
    with disjoint have "n \<notin> ?N" by blast
    then show "?f (committed nx acc c0) n = ?f c0 n" by (simp add: with_messages_outside)
  qed
  moreover have "(\<Sum>n\<in>?N. ?f (committed nx acc c0) n) = total_length acc"
    using with_messages_inside [OF d] sum_list_distinct_conv_sum_set [OF dacc, of "\<lambda>m. length (text_of m)"]
    by (simp add: sum.reindex [OF inj] total_length_def)
  ultimately show "bytes_in (committed nx acc c0) = bytes_in c0 + total_length acc"
    unfolding bytes_in_def [of "committed nx acc c0"] split by (subst sum.union_disjoint [OF fin _ disjoint]) auto
qed

lemma committed_clean:
  assumes r: "replayable uid nx acc" and q: "queue_valid uid c0" and fin: "finite (messages_in c0)"
    and new: "\<forall>m\<in>set acc. c0 (Outbox, name_of m) = None"
    and room: "card (messages_in c0) + length acc \<le> 256" "bytes_in c0 + total_length acc \<le> 2097152"
  shows "clean_store uid nx (committed nx acc c0)"
proof -
  have s: "\<forall>m\<in>set acc. sendable uid m" and d: "distinct (map name_of acc)" using r by (auto simp: replayable_def)
  have "entry_fine uid (committed nx acc c0) n e" if e: "committed nx acc c0 (Outbox, n) = Some e" for n e
  proof (cases "n \<in> name_of ` set acc")
    case True
    then obtain m where "m \<in> set acc" "n = name_of m" by blast
    moreover from this e have "e = own (text_of m)" by (simp add: with_messages_inside [OF d])
    ultimately show ?thesis using s sendable_fine sendable_name by (auto simp: entry_fine_def)
  next
    case False
    with e have "c0 (Outbox, n) = Some e" by (simp add: with_messages_outside)
    then have "entry_fine uid c0 n e" using q by (simp add: queue_valid_def)
    then show ?thesis using with_messages_keeps by (auto simp: entry_fine_def)
  qed
  moreover have "\<forall>m\<in>set acc. c0 (Outbox, name_of m) = None \<and> is_message_name (name_of m)"
    using new s sendable_name by blast
  ultimately have "queue_valid uid (committed nx acc c0)"
    using room committed_totals [OF fin d] by (simp add: queue_valid_def)
  then show ?thesis
    using r by (auto simp: clean_store_def replayable_def committed_def committed_root_def core_names_def split: if_splits)
qed

end
