(* ===== verification/Atomicity.thy ===== *)
theory Atomicity
  imports Recovery
begin

text \<open>
  A commit is all or nothing. From a store at rest, a commit that returns has put the new state and the
  accepted messages on disk; a commit that is stopped anywhere leaves contents from which opening the store
  yields the old state and outbox or the new ones, except for one point: a stop while the journal itself is
  being written leaves its temporary file, and the store then refuses to open.
\<close>

section \<open>Which messages a commit accepts\<close>

definition stored :: "contents \<Rightarrow> json \<Rightarrow> bool" where
  "stored c m \<longleftrightarrow> (\<exists>e. c (Outbox, name_of m) = Some e \<and> entry_bytes e = text_of m)"

definition accepts :: "contents \<Rightarrow> json list \<Rightarrow> json list \<Rightarrow> bool \<Rightarrow> bool" where
  "accepts c ms new full \<longleftrightarrow>
     set new \<subseteq> set ms \<and> length new \<le> length ms \<and> (distinct (map name_of ms) \<longrightarrow> distinct (map name_of new)) \<and>
     (\<forall>m\<in>set new. c (Outbox, name_of m) = None) \<and> (\<not> full \<longrightarrow> (\<forall>m\<in>set ms. m \<in> set new \<or> stored c m))"

definition fits :: "nat \<Rightarrow> nat \<Rightarrow> json list \<Rightarrow> bool" where
  "fits n bytes ms \<longleftrightarrow> n + length ms \<le> 256 \<and> bytes + total_length ms \<le> 2097152"

lemma fits_Nil [simp]: "fits n bytes [] \<longleftrightarrow> n \<le> 256 \<and> bytes \<le> 2097152"
  by (simp add: fits_def total_length_def)

lemma fits_Cons [simp]: "fits n bytes (m # ms) \<longleftrightarrow> fits (n + 1) (bytes + length (text_of m)) ms"
  by (auto simp: fits_def total_length_def)

lemma fits_start: "fits n bytes ms \<Longrightarrow> fits n bytes []"
  by (simp add: fits_def total_length_def)

definition conflict :: "contents \<Rightarrow> json list \<Rightarrow> bool" where
  "conflict c ms \<longleftrightarrow> (\<exists>m\<in>set ms. c (Outbox, name_of m) \<noteq> None \<and> \<not> stored c m)"

lemma accept_step:
  assumes w: "holds c w" and q: "queue_valid uid c" and s: "sendable uid m"
  shows "accept_messages (m # ms) acc n bytes full w =
    (case c (Outbox, name_of m) of
       Some e \<Rightarrow> if entry_bytes e = text_of m then accept_messages ms acc n bytes full w
                 else (Threw (RuntimeError ''DELIVERY_CONFLICT''), w)
     | None \<Rightarrow> if n \<ge> 256 \<or> bytes + length (text_of m) > 2097152 then accept_messages ms acc n bytes True w
               else accept_messages ms (acc @ [m]) (n + 1) (bytes + length (text_of m)) full w)"
proof -
  obtain key where key: "message_key m = Inr key" "message_name key = name_of m"
    using s by (metis name_of_def sendable_def)
  have t: "canonical m = Inr (text_of m)" "length (text_of m) \<le> 16384" using s by (auto simp: sendable_def)
  show ?thesis
  proof (cases "c (Outbox, name_of m)")
    case None
    with key t w show ?thesis
      by (simp add: io_bind_def io_lift_def io_throw_if_def io_return_def file_exists_def get_file_holds)
  next
    case (Some e)
    then have "entry_fine uid c (name_of m) e" using q by (simp add: queue_valid_def)
    then have "entry_bytes e \<noteq> []" "length (entry_bytes e) \<le> 16384"
      using sendable_name [OF s] name_kinds by (auto simp: entry_fine_def message_fine_def)
    with Some key t w show ?thesis
      by (simp add: io_simps file_exists_def read_file_def get_file_holds)
  qed
qed

definition accept_result :: "contents \<Rightarrow> json list \<Rightarrow> json list \<Rightarrow> nat \<Rightarrow> nat \<Rightarrow> bool \<Rightarrow> (json list \<times> bool) outcome \<Rightarrow> bool" where
  "accept_result c ms acc n bytes full r \<longleftrightarrow>
     r = Threw (RuntimeError ''DELIVERY_CONFLICT'') \<and> conflict c ms \<or>
     (\<exists>new f. r = Done (acc @ new, full \<or> f) \<and> accepts c ms new f \<and>
        (fits n bytes [] \<longrightarrow> fits n bytes new) \<and> (fits n bytes ms \<longrightarrow> \<not> f))"

lemma accept_result_cases:
  assumes "accept_result c ms acc n bytes full r"
    and "r = Threw (RuntimeError ''DELIVERY_CONFLICT'') \<Longrightarrow> conflict c ms \<Longrightarrow> R"
    and "\<And>new f. r = Done (acc @ new, full \<or> f) \<Longrightarrow> accepts c ms new f \<Longrightarrow>
      (fits n bytes [] \<Longrightarrow> fits n bytes new) \<Longrightarrow> (fits n bytes ms \<Longrightarrow> \<not> f) \<Longrightarrow> R"
  shows R
  using assms unfolding accept_result_def by blast

lemma accept_resultI:
  assumes "accepts c ms new f" "fits n bytes [] \<Longrightarrow> fits n bytes new" "fits n bytes ms \<Longrightarrow> \<not> f"
  shows "accept_result c ms acc n bytes full (Done (acc @ new, full \<or> f))"
  unfolding accept_result_def using assms by blast

lemma accept_result_stored:
  assumes "accept_result c ms acc n bytes full r" "stored c m"
  shows "accept_result c (m # ms) acc n bytes full r"
  using assms(1)
proof (rule accept_result_cases)
  fix new f
  assume *: "r = Done (acc @ new, full \<or> f)" "accepts c ms new f" "fits n bytes [] \<Longrightarrow> fits n bytes new" "fits n bytes ms \<Longrightarrow> \<not> f"
  have "accepts c (m # ms) new f" using *(2) assms(2) by (auto simp: accepts_def)
  moreover have "fits n bytes (m # ms) \<Longrightarrow> fits n bytes ms" by (auto simp: fits_def total_length_def)
  ultimately show ?thesis unfolding *(1) using *(3,4) by (blast intro: accept_resultI)
qed (auto simp: accept_result_def conflict_def)

lemma accept_result_full:
  assumes "accept_result c ms acc n bytes True r" "n \<ge> 256 \<or> bytes + length (text_of m) > 2097152"
  shows "accept_result c (m # ms) acc n bytes full r"
  using assms(1)
proof (rule accept_result_cases)
  fix new f
  assume *: "r = Done (acc @ new, True \<or> f)" "accepts c ms new f" "fits n bytes [] \<Longrightarrow> fits n bytes new"
  have "accepts c (m # ms) new True" using *(2) by (auto simp: accepts_def)
  moreover have "\<not> fits n bytes (m # ms)" using assms(2) by (auto simp: fits_def total_length_def)
  ultimately have "accept_result c (m # ms) acc n bytes full (Done (acc @ new, full \<or> True))"
    using *(3) by (blast intro: accept_resultI)
  then show ?thesis using *(1) by simp
qed (auto simp: accept_result_def conflict_def)

lemma accept_result_new:
  assumes "accept_result c ms (acc @ [m]) (n + 1) (bytes + length (text_of m)) full r"
    and "\<not> (n \<ge> 256 \<or> bytes + length (text_of m) > 2097152)" "c (Outbox, name_of m) = None"
  shows "accept_result c (m # ms) acc n bytes full r"
  using assms(1)
proof (rule accept_result_cases)
  fix new f
  assume *: "r = Done ((acc @ [m]) @ new, full \<or> f)" "accepts c ms new f"
    "fits (n + 1) (bytes + length (text_of m)) [] \<Longrightarrow> fits (n + 1) (bytes + length (text_of m)) new"
    "fits (n + 1) (bytes + length (text_of m)) ms \<Longrightarrow> \<not> f"
  have "accepts c (m # ms) (m # new) f" using *(2) assms(3) by (auto simp: accepts_def)
  moreover have "fits (n + 1) (bytes + length (text_of m)) []" using assms(2) by simp
  ultimately have "accept_result c (m # ms) acc n bytes full (Done (acc @ (m # new), full \<or> f))"
    using *(3,4) by (intro accept_resultI) auto
  then show ?thesis using *(1) by simp
qed (auto simp: accept_result_def conflict_def)

lemma accept_outcome:
  assumes w: "holds c w" and q: "queue_valid uid c" and s: "\<forall>m\<in>set ms. sendable uid m"
  shows "\<exists>r. accept_messages ms acc n bytes full w = (r, w) \<and> accept_result c ms acc n bytes full r"
  using s
proof (induction ms arbitrary: acc n bytes full)
  case Nil
  have "accept_result c [] acc n bytes full (Done (acc @ [], full \<or> False))"
    by (rule accept_resultI) (auto simp: accepts_def)
  then show ?case by (simp add: io_return_def)
next
  case (Cons m ms)
  then have m: "sendable uid m" and ms: "\<forall>m\<in>set ms. sendable uid m" by simp_all
  note step = accept_step [OF w q m, of ms acc n bytes full]
  show ?case
  proof (cases "c (Outbox, name_of m)")
    case None
    show ?thesis
    proof (cases "n \<ge> 256 \<or> bytes + length (text_of m) > 2097152")
      case True
      then show ?thesis using Cons.IH [OF ms, of acc n bytes True] accept_result_full [OF _ True]
        by (simp only: step None option.case if_True) blast
    next
      case False
      then show ?thesis
        using Cons.IH [OF ms, of "acc @ [m]" "n + 1" "bytes + length (text_of m)" full] accept_result_new [where c = c and m = m, OF _ False None]
        by (simp only: step None option.case if_False) blast
    qed
  next
    case (Some e)
    show ?thesis
    proof (cases "entry_bytes e = text_of m")
      case True
      then have "stored c m" using Some by (simp add: stored_def)
      then show ?thesis
        using Cons.IH [OF ms, of acc n bytes full] accept_result_stored True
        by (simp only: step Some option.case refl if_True) blast
    next
      case False
      with Some have "conflict c (m # ms)" by (simp add: conflict_def stored_def)
      with False Some show ?thesis unfolding accept_result_def by (simp only: step option.case if_False) blast
    qed
  qed
qed


section \<open>A commit under every script\<close>

lemma dict_get_distinct: "distinct (map fst m) \<Longrightarrow> e \<in> set m \<Longrightarrow> dict_get m (fst e) = Some (snd e)"
  by (induction m) force+

lemma queue_extension:
  assumes "queue_valid uid c" "c (Outbox, n) \<noteq> None"
  shows "json_extension n \<longleftrightarrow> is_message_name n"
proof -
  have "is_blocked_name n \<or> is_message_name n" using assms by (auto simp: queue_valid_def entry_fine_def)
  moreover have "drop 67 n = drop 3 (drop 64 n)" by simp
  ultimately show ?thesis
    unfolding is_blocked_name_def is_message_name_def json_extension_def by (elim disjE conjE) simp_all
qed

lemma queue_counts:
  assumes w: "holds c w" and q: "queue_valid uid c"
  shows "queued w = (Done (card (messages_in c)), w)" "queued_bytes w = (Done (bytes_in c), w)"
proof -
  let ?d = "filter (\<lambda>e. json_extension (fst e)) (dirs w Outbox)"
  note N = outbox_names [OF w]
  note ext = queue_extension [OF q]
  have fd: "map fst ?d = filter json_extension (map fst (dirs w Outbox))" by (simp add: filter_map comp_def)
  have names: "set (map fst ?d) = messages_in c"
    unfolding fd set_filter N(1) messages_in_def using ext by auto
  have d: "distinct (map fst ?d)"
    using N(2) by (simp add: distinct_map_filter)
  show "queued w = (Done (card (messages_in c)), w)"
    using distinct_card [OF d] names by (simp add: queued_def)
  have "length (entry_bytes (snd e)) = length (entry_bytes (the (c (Outbox, fst e))))" if "e \<in> set ?d" for e
  proof -
    have "dict_get (dirs w Outbox) (fst e) = Some (snd e)"
      using that N(2) by (auto simp: dict_get_distinct)
    then have "c (Outbox, fst e) = Some (snd e)" using get_file_holds [OF w, of Outbox "fst e"] by (simp add: get_file_def)
    then show ?thesis by simp
  qed
  then have "sum_list (map (\<lambda>e. length (entry_bytes (snd e))) ?d) =
      sum_list (map (\<lambda>n. length (entry_bytes (the (c (Outbox, n))))) (map fst ?d))"
    by (auto simp: comp_def intro!: arg_cong [where f = sum_list])
  then show "queued_bytes w = (Done (bytes_in c), w)"
    using sum_list_distinct_conv_sum_set [OF d] names by (simp add: queued_bytes_def bytes_in_def)
qed


definition commit_tail :: "string \<Rightarrow> json \<Rightarrow> json list \<Rightarrow> bool \<Rightarrow> bool io" where
  "commit_tail uid nx acc full =
     io_bind (io_lift (canonical (transaction nx acc))) (\<lambda>journal.
     io_bind (durable_file Root ''transaction.json'' journal) (\<lambda>_.
     io_bind (io_bind (replay uid (transaction nx acc)) (\<lambda>_. remove_durable Root ''transaction.json'')) (\<lambda>_.
       io_return (\<not> full))))"

text \<open>What the program promises about the arguments of a commit: its own states and messages are such.\<close>

definition commit_ready :: "string \<Rightarrow> json \<Rightarrow> json list \<Rightarrow> bool" where
  "commit_ready uid nx ms \<longleftrightarrow>
     validate_state uid nx = Inr () \<and> json_wf nx \<and> json_depth nx \<le> 22 \<and>
     length ms \<le> 4 \<and> (\<forall>m\<in>set ms. sendable uid m) \<and> distinct (map name_of ms) \<and>
     length (text_of nx) + total_length ms + 49 \<le> 196608"

lemma commit_start:
  assumes w: "holds c w" and q: "queue_valid uid c" and v: "validate_state uid nx = Inr ()"
  shows "commit uid nx ms w =
    io_bind (accept_messages ms [] (card (messages_in c)) (bytes_in c) False)
      (\<lambda>(acc, full). commit_tail uid nx acc full) w"
proof -
  have "validate_queue uid w = (Done (), w)" using validate_queue_done [OF w] q by simp
  then show ?thesis
    by (simp add: commit_def commit_tail_def io_bind_assoc io_bind_lift [OF v] queue_counts [OF w q] io_bind_def [of _ _ w]
        case_prod_unfold)
qed

lemma total_length_sub:
  "distinct xs \<Longrightarrow> set xs \<subseteq> set ys \<Longrightarrow> total_length xs \<le> total_length ys"
proof -
  assume d: "distinct xs" and sub: "set xs \<subseteq> set ys"
  have "total_length xs = (\<Sum>m\<in>set xs. length (text_of m))"
    unfolding total_length_def by (rule sum_list_distinct_conv_sum_set [OF d])
  also have "\<dots> \<le> (\<Sum>m\<in>set ys. length (text_of m))" by (rule sum_mono2) (use sub in auto)
  also have "\<dots> \<le> total_length ys"
    unfolding total_length_def by (induction ys) (auto simp: sum.insert_if)
  finally show ?thesis .
qed

lemma accepted_replayable:
  assumes "commit_ready uid nx ms" "accepts c ms acc f"
  shows "replayable uid nx acc" "length (text_of (transaction nx acc)) \<le> 196608"
proof -
  have a: "set acc \<subseteq> set ms" "length acc \<le> 4" "distinct (map name_of acc)" "\<forall>m\<in>set acc. sendable uid m"
    using assms by (auto simp: accepts_def commit_ready_def)
  have nx: "canonical nx = Inr (text_of nx)" using assms(1) text_of_state by (auto simp: commit_ready_def)
  have ms: "\<forall>m\<in>set acc. canonical m = Inr (text_of m)" using a(4) by (simp add: sendable_def)
  note J = journal_text [OF nx ms]
  show "replayable uid nx acc"
    using assms(1) a nx J(1) by (simp add: replayable_def commit_ready_def)
  have "total_length acc \<le> total_length ms" using a by (intro total_length_sub) (auto simp: distinct_map)
  then show "length (text_of (transaction nx acc)) \<le> 196608"
    using J(2) a(2) assms(1) by (simp add: commit_ready_def)
qed

text \<open>What a commit that did not return can have left behind.\<close>

definition interrupted :: "json \<Rightarrow> json list \<Rightarrow> contents \<Rightarrow> world \<Rightarrow> bool" where
  "interrupted nx acc c w \<longleftrightarrow>
     holds c w \<or> (\<exists>t. holds (c((Root, ''transaction.json.next'') \<mapsto> own t)) w) \<or> in_journal nx acc c w \<or>
     holds (committed nx acc c) w"

lemma commit_tail_triple:
  assumes c: "clean_store uid st c" and ready: "commit_ready uid nx ms" and a: "accepts c ms acc f"
  shows "triple (holds c) (commit_tail uid nx acc full)
    (\<lambda>ok w. ok = (\<not> full) \<and> memory w = nx \<and> holds (committed nx acc c) w) (interrupted nx acc c)"
proof -
  note R = accepted_replayable [OF ready a]
  have s: "\<forall>m\<in>set acc. sendable uid m" and can: "canonical (transaction nx acc) = Inr (text_of (transaction nx acc))"
    using R(1) by (auto simp: replayable_def)
  have fresh: "\<forall>m\<in>set acc. c (Outbox, next_name (name_of m)) = None"
    using s c fresh_names by (auto simp: clean_store_def)
  let ?j = "c((Root, ''transaction.json.next'') := None, (Root, ''transaction.json'') \<mapsto> own (text_of (transaction nx acc)))"
  have nn: "next_name ''transaction.json'' = ''transaction.json.next''" by (simp add: next_name_def)
  have none: "c (Root, ''transaction.json.next'') = None"
  proof (cases "c (Root, ''transaction.json.next'')")
    case (Some e)
    then have "''transaction.json.next'' \<in> core_names" using c by (simp add: clean_store_def)
    then show ?thesis by (simp add: core_names_def)
  qed
  have j: "journaled nx acc c ?j"
    using c a fresh by (auto simp: journaled_def outbox_between_def accepts_def clean_store_def)
  have written: "triple (holds c) (durable_file Root ''transaction.json'' (text_of (transaction nx acc)))
    (\<lambda>_. in_journal nx acc c) (interrupted nx acc c)"
    unfolding durable_file_def
  proof (rule triple_weaken [OF triple_write])
    show "c (Root, next_name ''transaction.json'') = None \<or> False \<and> (\<exists>t. c (Root, next_name ''transaction.json'') = Some (own t))"
      using none by (simp add: nn)
    fix w
    assume "torn c Root ''transaction.json'' (text_of (transaction nx acc)) w"
    moreover have "c((Root, ''transaction.json.next'') := None) = c" using none by (simp add: fun_upd_idem)
    ultimately show "interrupted nx acc c w"
      using j by (elim torn_cases) (auto simp: interrupted_def nn)
  qed (use j in \<open>auto simp: nn\<close>)
  have rest: "triple (in_journal nx acc c)
    (io_bind (replay uid (transaction nx acc)) (\<lambda>_. remove_durable Root ''transaction.json''))
    (\<lambda>_ w. memory w = nx \<and> holds (committed nx acc c) w) (interrupted nx acc c)"
    by (rule triple_weaken [OF finish_replay [OF R(1) fresh]]) (auto simp: interrupted_def)
  show ?thesis
    unfolding commit_tail_def io_bind_lift [OF can]
    by (rule triple_bind [OF written], rule triple_bind [OF rest], rule triple_return) simp
qed


lemma commit_cases:
  assumes c: "clean_store uid st c" and w: "holds c w" and ready: "commit_ready uid nx ms"
  obtains (conflict) "commit uid nx ms w = (Threw (RuntimeError ''DELIVERY_CONFLICT''), w)" "conflict c ms"
  | (accepted) acc full where "commit uid nx ms w = commit_tail uid nx acc full w" "accepts c ms acc full"
      "clean_store uid nx (committed nx acc c)" "fits (card (messages_in c)) (bytes_in c) ms \<Longrightarrow> \<not> full"
proof -
  have q: "queue_valid uid c" and v: "validate_state uid nx = Inr ()" and s: "\<forall>m\<in>set ms. sendable uid m"
    using c ready by (auto simp: clean_store_def commit_ready_def)
  note start = commit_start [OF w q v, of ms]
  obtain r where r: "accept_messages ms [] (card (messages_in c)) (bytes_in c) False w = (r, w)"
    "accept_result c ms [] (card (messages_in c)) (bytes_in c) False r"
    using accept_outcome [OF w q s] by blast
  from r(2) show thesis
  proof (rule accept_result_cases)
    assume "r = Threw (RuntimeError ''DELIVERY_CONFLICT'')" "conflict c ms"
    with r(1) start show thesis by (intro conflict) (simp_all add: io_bind_def)
  next
    fix new f
    assume *: "r = Done ([] @ new, False \<or> f)" "accepts c ms new f"
      "fits (card (messages_in c)) (bytes_in c) [] \<Longrightarrow> fits (card (messages_in c)) (bytes_in c) new"
      "fits (card (messages_in c)) (bytes_in c) ms \<Longrightarrow> \<not> f"
    have "fits (card (messages_in c)) (bytes_in c) new" using *(3) q by (simp add: queue_valid_def)
    then have "clean_store uid nx (committed nx new c)"
      using *(2) accepted_replayable [OF ready *(2)] q finite_messages [OF w]
      by (intro committed_clean) (auto simp: fits_def accepts_def)
    moreover have "commit uid nx ms w = commit_tail uid nx new f w"
      using r(1) start *(1) by (simp add: io_bind_def)
    ultimately show thesis using *(2,4) by (intro accepted) auto
  qed
qed

section \<open>Opening after a stop\<close>

text \<open>\<open>reopens uid w j c\<close>: started again without further faults, the store opens with state \<open>j\<close> and contents \<open>c\<close>.\<close>

definition restarted :: "world \<Rightarrow> world" where
  "restarted w = w\<lparr>script := []\<rparr>"

definition reopens :: "string \<Rightarrow> world \<Rightarrow> json \<Rightarrow> contents \<Rightarrow> bool" where
  "reopens uid w j c \<longleftrightarrow>
     (\<forall>epoch. \<exists>w'. open_store uid epoch (restarted w) = (Done (), w') \<and> memory w' = j \<and> holds c w')"

definition refuses :: "string \<Rightarrow> world \<Rightarrow> bool" where
  "refuses uid w \<longleftrightarrow>
     (\<forall>epoch. \<exists>w'. open_store uid epoch (restarted w) = (Threw NOT_READY, w') \<and> contents w' = contents w)"

lemma reopensI:
  assumes "\<And>epoch. triple P (open_store uid epoch) (\<lambda>_ w. memory w = j \<and> holds c w) E" "P (restarted w)"
  shows "reopens uid w j c"
  unfolding reopens_def
proof
  fix epoch
  show "\<exists>w'. open_store uid epoch (restarted w) = (Done (), w') \<and> memory w' = j \<and> holds c w'"
    using assms(1) [of epoch] assms(2) unfolding triple_def runs_def restarted_def by fastforce
qed

lemma clean_reopens: "clean_store uid st c \<Longrightarrow> holds c w \<Longrightarrow> reopens uid w st c"
  by (rule reopensI [OF open_clean_triple]) (simp_all add: restarted_def)

lemma check_root_names_refuses:
  assumes w: "holds c w" and all: "\<forall>n\<in>set names. \<exists>e. c (Root, n) = Some e \<and> entry_private e"
    and bad: "''transaction.json.next'' \<in> set names"
  shows "check_root_names names w = (Threw NOT_READY, w)"
  using all bad
proof (induction names)
  case (Cons n names)
  then obtain e where e: "c (Root, n) = Some e" "entry_private e" by auto
  show ?case
  proof (cases "n = ''transaction.json.next''")
    case True
    then show ?thesis by (simp add: io_simps Let_def file_exists_def NOT_READY_def)
  next
    case False
    with Cons have "check_root_names names w = (Threw NOT_READY, w)" by simp
    then show ?thesis
      using e w by (simp add: io_simps Let_def file_exists_def private_file_def get_file_holds NOT_READY_def)
  qed
qed simp

lemma torn_journal_refuses:
  assumes c: "clean_store uid st c" and w: "holds (c((Root, ''transaction.json.next'') \<mapsto> own t)) w"
  shows "refuses uid w"
  unfolding refuses_def
proof
  fix epoch
  let ?c = "c((Root, ''transaction.json.next'') \<mapsto> own t)"
  let ?w = "(restarted w)\<lparr>dir_ok := (dir_ok w)(Root := True, Outbox := True)\<rparr>"
  have h: "holds ?c ?w" using w by (auto simp: restarted_def holds_def world_ok_def contents_def get_file_def)
  have "check_root_names (map fst (dirs ?w Root)) ?w = (Threw NOT_READY, ?w)"
    using c by (intro check_root_names_refuses [OF h]; unfold root_names [OF h]) (auto simp: clean_store_def)
  then have "open_store uid epoch (restarted w) = (Threw NOT_READY, ?w)"
    by (simp add: open_store_stages prepare_directory_def io_simps restarted_def names_of_def)
  moreover have "contents ?w = contents w" by (simp add: contents_def get_file_def restarted_def)
  ultimately show "\<exists>w'. open_store uid epoch (restarted w) = (Threw NOT_READY, w') \<and> contents w' = contents w" by blast
qed


lemma journal_reopens:
  assumes c: "clean_store uid st c" and ready: "commit_ready uid nx ms" and a: "accepts c ms acc f"
    and clean: "clean_store uid nx (committed nx acc c)" and w: "in_journal nx acc c w"
  shows "reopens uid w nx (committed nx acc c)"
    and "case open_store uid epoch w of
        (Done _, w') \<Rightarrow> memory w' = nx \<and> holds (committed nx acc c) w'
      | (_, w') \<Rightarrow> in_journal nx acc c w' \<or> holds (committed nx acc c) w'"
proof -
  note R = accepted_replayable [OF ready a]
  have fresh: "\<forall>m\<in>set acc. c (Outbox, next_name (name_of m)) = None"
    using R(1) c fresh_names by (auto simp: clean_store_def replayable_def)
  note T = open_journal_triple [OF R(1) fresh R(2) clean]
  show "reopens uid w nx (committed nx acc c)"
    using w by (intro reopensI [OF T]) (auto simp: restarted_def)
  show "case open_store uid epoch w of
        (Done _, w') \<Rightarrow> memory w' = nx \<and> holds (committed nx acc c) w'
      | (_, w') \<Rightarrow> in_journal nx acc c w' \<or> holds (committed nx acc c) w'"
    using specD [OF conjunct1 [OF T [unfolded triple_def]] w] .
qed

lemma interrupted_reopens:
  assumes c: "clean_store uid st c" and ready: "commit_ready uid nx ms" and a: "accepts c ms acc f"
    and clean: "clean_store uid nx (committed nx acc c)" and w: "interrupted nx acc c w"
  shows "reopens uid w st c \<or> reopens uid w nx (committed nx acc c) \<or>
    refuses uid w \<and> (\<exists>t. holds (c((Root, ''transaction.json.next'') \<mapsto> own t)) w)"
  using w unfolding interrupted_def
  using clean_reopens [OF c, of w] clean_reopens [OF clean, of w] torn_journal_refuses [OF c, of _ w]
    journal_reopens(1) [OF c ready a clean, of w]
  by blast

lemma accepts_nothing: "accepts c ms [] True"
  by (simp add: accepts_def)

section \<open>A concrete store\<close>

definition demo_uid :: string where "demo_uid = ''unit-7''"

definition demo_epoch :: string where "demo_epoch = ''3f2504e0-4f89-41d3-9a0c-0305e82c3301''"

definition demo_state :: json where "demo_state = initial_state demo_uid demo_epoch"

definition demo_message :: json where
  "demo_message = JObject
     [(''content'', JObject []),
      (''contentSha256'', JString (sha256_hex ''{}'')),
      (''messageType'', JString ''TIRE_FUNCTION_STATUS''), (''statusId'', JString ''s''),
      (''unitSystemUid'', JString demo_uid)]"

definition demo_world :: "fault list \<Rightarrow> world" where
  "demo_world faults =
     \<lparr>dirs = (\<lambda>p. case p of Root \<Rightarrow> [(''state.json'', own (text_of demo_state)),
                                         (''state.sha256'', own (sha256_hex (text_of demo_state)))] | Outbox \<Rightarrow> []),
      dir_ok = (\<lambda>_. True), script = faults, memory = demo_state\<rparr>"

lemma demo_state_text:
  "canonical demo_state = Inr (text_of demo_state)" "length (text_of demo_state) < 300" "json_wf demo_state"
  "json_depth demo_state \<le> 22"
  by code_simp+

lemma lower_hex_plain: "is_lower_hex c \<Longrightarrow> plain_char c"
  by (auto simp: plain_char_def is_lower_hex_def is_digit_def)

lemma demo_message_text:
  "canonical demo_message = Inr (text_of demo_message)" "length (text_of demo_message) < 300" "json_wf demo_message"
  "json_depth demo_message \<le> 22"
proof -
  let ?d = "sha256_hex ''{}''"
  have d: "quote_json ?d = Inr (chr 34 # ?d @ [chr 34])" "length ?d = 64"
    using sha256_hex_is_sha256 [of "''{}''"]
    by (auto simp: is_sha256_def list_all_iff intro!: quote_json_plain lower_hex_plain)
  have k: "quote_json ''content'' = Inr (chr 34 # ''content'' @ [chr 34])"
    "quote_json ''contentSha256'' = Inr (chr 34 # ''contentSha256'' @ [chr 34])"
    "quote_json ''messageType'' = Inr (chr 34 # ''messageType'' @ [chr 34])"
    "quote_json ''statusId'' = Inr (chr 34 # ''statusId'' @ [chr 34])"
    "quote_json ''unitSystemUid'' = Inr (chr 34 # ''unitSystemUid'' @ [chr 34])"
    "quote_json ''TIRE_FUNCTION_STATUS'' = Inr (chr 34 # ''TIRE_FUNCTION_STATUS'' @ [chr 34])"
    "quote_json ''s'' = Inr (chr 34 # ''s'' @ [chr 34])" "quote_json ''unit-7'' = Inr (chr 34 # ''unit-7'' @ [chr 34])"
    "ascii_key ''content''" "ascii_key ''contentSha256''" "ascii_key ''messageType''" "ascii_key ''statusId''"
    "ascii_key ''unitSystemUid''"
    by code_simp+
  have "\<exists>t. canonical demo_message = Inr t \<and> length t < 300"
    using d k by (simp add: demo_message_def demo_uid_def)
  then show "canonical demo_message = Inr (text_of demo_message)" "length (text_of demo_message) < 300"
    by (auto simp: text_of_def)
  show "json_wf demo_message" "json_depth demo_message \<le> 22"
    by (simp_all add: demo_message_def dict_ok_def less_list_code less_char_def)
qed

lemma demo_state_fields:
  "demo_state = JObject
     [(''gatewayStates'', JArray []), (''lastPublishedAt'', JInt 0), (''lastRequest'', JNull), (''model'', JNull),
      (''nextAdvisorySequence'', JInt 1), (''producerEpoch'', JString demo_epoch), (''schemaVersion'', JInt 1),
      (''unitSystemUid'', JString demo_uid)]"
  by code_simp

lemma demo_state_valid: "validate_state demo_uid demo_state = Inr ()"
proof -
  have env: "check_envelope demo_uid demo_state = Inr ()"
  proof -
    have "is_uuid demo_epoch" by code_simp
    then show ?thesis
      unfolding check_envelope_def ethrow_if_Inr eany_False
      using demo_state_text(1,2)
      by (simp add: result_simps demo_state_fields [symmetric])
         (simp add: demo_state_fields count_field_def dict_has_def at_integer_def at_string_def json_at_def dict_at_def)
  qed
  have "check_request_metadata demo_uid demo_state = Inr ()" "at_array demo_state ''gatewayStates'' = Inr []"
    "check_demo_reset v demo_uid demo_state = Inr ()" "check_last_request demo_state = Inr ()"
    "check_model demo_state = Inr ()" for v
    by (simp_all add: demo_state_fields check_request_metadata_def has_field_def dict_has_def at_array_def json_at_def
        dict_at_def check_demo_reset_def check_last_request_def check_model_def is_null_def)
  then show ?thesis by (simp add: validate_state_def validate_round_def env)
qed

lemma demo_sendable: "sendable demo_uid demo_message"
proof -
  let ?k = "JArray [JString demo_uid, JString ''TIRE_FUNCTION_STATUS'', JString ''s'']"
  have "digest_matches demo_message = Inr True" "at_string demo_message ''unitSystemUid'' = Inr demo_uid"
    by (simp_all add: digest_matches_def demo_message_def json_at_def dict_at_def at_string_def)
  moreover have "\<not> isl (canonical ?k)" by code_simp
  moreover have "key_json demo_message = Inr ?k"
    by (simp add: key_json_def demo_message_def json_at_def dict_at_def at_string_def key_field_def)
  ultimately have "\<exists>k. message_key demo_message = Inr k"
    by (cases "canonical ?k") (simp_all add: message_key_def)
  moreover note \<open>digest_matches demo_message = Inr True\<close> \<open>at_string demo_message ''unitSystemUid'' = Inr demo_uid\<close>
  ultimately show ?thesis using demo_message_text by (auto simp: sendable_def)
qed

definition demo_contents :: contents where
  "demo_contents = contents (demo_world [])"

lemma demo_holds: "holds demo_contents (demo_world faults)"
  by (auto simp: holds_def world_ok_def demo_world_def demo_contents_def contents_def get_file_def dict_ok_def
      less_list_code less_char_def split: place.splits)

lemma demo_empty: "demo_contents (Outbox, n) = None" "messages_in demo_contents = {}" "bytes_in demo_contents = 0"
  by (simp_all add: messages_in_def bytes_in_def demo_contents_def contents_def get_file_def demo_world_def)

lemma demo_clean: "clean_store demo_uid demo_state demo_contents"
proof -
  have "queue_valid demo_uid demo_contents" by (simp add: queue_valid_def demo_empty)
  moreover have root: "demo_contents (Root, n) = (if n = ''state.json'' then Some (own (text_of demo_state))
      else if n = ''state.sha256'' then Some (own (sha256_hex (text_of demo_state))) else None)" for n
    by (simp add: demo_contents_def contents_def get_file_def demo_world_def)
  ultimately show ?thesis
    using demo_state_text demo_state_valid by (auto simp: clean_store_def core_names_def split: if_splits)
qed

lemma demo_ready: "commit_ready demo_uid demo_state [demo_message]"
  using demo_state_text demo_message_text demo_state_valid demo_sendable
  by (simp add: commit_ready_def total_length_def)

lemma demo_accepts: "accepts demo_contents [demo_message] [demo_message] False"
  by (simp add: accepts_def demo_empty)

lemma demo_committed_clean: "clean_store demo_uid demo_state (committed demo_state [demo_message] demo_contents)"
  using demo_message_text(2) demo_clean
  by (intro committed_clean accepted_replayable(1) [OF demo_ready demo_accepts])
     (auto simp: demo_empty total_length_def clean_store_def)

section \<open>Properties\<close>

text \<open>C1: From a store at rest, a commit of a valid state and messages either returns, and then the new state
  is current and on disk together with the accepted messages, all of them if it returned true; or it is
  stopped by a failure or a crash at any point, and then the store opens again with exactly the old state and
  outbox or exactly the new ones. The only other outcome is a stop while the journal is written: its
  temporary file is left, the old contents are intact, and the store refuses to open.\<close>

theorem commit_all_or_nothing:
  assumes "clean_store uid st c" "holds c w" "commit_ready uid nx ms"
  shows "\<exists>acc. set acc \<subseteq> set ms \<and>
    (case commit uid nx ms w of
       (Done ok, w') \<Rightarrow> memory w' = nx \<and> holds (committed nx acc c) w' \<and> clean_store uid nx (committed nx acc c) \<and>
         (ok \<longrightarrow> (\<forall>m\<in>set ms. m \<in> set acc \<or> stored c m))
     | (_, w') \<Rightarrow> reopens uid w' st c \<or> reopens uid w' nx (committed nx acc c) \<or>
         refuses uid w' \<and> (\<exists>t. holds (c((Root, ''transaction.json.next'') \<mapsto> own t)) w'))"
  using assms
proof (cases rule: commit_cases)
  case conflict
  with clean_reopens [OF assms(1,2)] show ?thesis by (auto intro!: exI [where x = "[]"])
next
  case (accepted acc full)
  have "case commit_tail uid nx acc full w of
      (Done ok, w') \<Rightarrow> ok = (\<not> full) \<and> memory w' = nx \<and> holds (committed nx acc c) w'
    | (_, w') \<Rightarrow> interrupted nx acc c w'"
    using specD [OF conjunct1 [OF commit_tail_triple [OF assms(1,3) accepted(2), unfolded triple_def]] assms(2)] .
  then show ?thesis
    using accepted(2,3) interrupted_reopens [OF assms(1,3) accepted(2,3)] unfolding accepted(1)
    by (intro exI [where x = acc]) (auto simp: accepts_def split: prod.splits outcome.splits)
qed

theorem commit_all_or_nothing_witness:
  "\<exists>acc. set acc \<subseteq> set [demo_message] \<and>
    (case commit demo_uid demo_state [demo_message] (demo_world [Fine, Partial 9, Crash ''x'']) of
       (Done ok, w') \<Rightarrow> memory w' = demo_state \<and> holds (committed demo_state acc demo_contents) w' \<and>
         clean_store demo_uid demo_state (committed demo_state acc demo_contents) \<and>
         (ok \<longrightarrow> (\<forall>m\<in>set [demo_message]. m \<in> set acc \<or> stored demo_contents m))
     | (_, w') \<Rightarrow> reopens demo_uid w' demo_state demo_contents \<or>
         reopens demo_uid w' demo_state (committed demo_state acc demo_contents) \<or>
         refuses demo_uid w' \<and> (\<exists>t. holds (demo_contents((Root, ''transaction.json.next'') \<mapsto> own t)) w'))"
  by (rule commit_all_or_nothing [OF demo_clean demo_holds demo_ready])

text \<open>C2: Recovery is itself restartable: when opening the store finds the journal of a commit and is stopped
  at any point, opening it again completes the commit.\<close>

theorem recovery_restartable:
  assumes "clean_store uid st c" "commit_ready uid nx ms" "accepts c ms acc f"
    and "clean_store uid nx (committed nx acc c)" "journaled nx acc c c'" "holds c' w"
  shows "case open_store uid epoch w of
      (Done _, w') \<Rightarrow> memory w' = nx \<and> holds (committed nx acc c) w'
    | (_, w') \<Rightarrow> reopens uid w' nx (committed nx acc c)"
proof -
  have w: "in_journal nx acc c w" using assms(5,6) by blast
  show ?thesis
    using journal_reopens(2) [OF assms(1-4) w, of epoch] journal_reopens(1) [OF assms(1-4)] clean_reopens [OF assms(4)]
    by (fastforce split: prod.splits outcome.splits)
qed

theorem recovery_restartable_witness:
  "case open_store demo_uid demo_epoch
      (put_file Root ''transaction.json'' (text_of (transaction demo_state [demo_message])) (demo_world [Fine, Fail])) of
      (Done _, w') \<Rightarrow> memory w' = demo_state \<and> holds (committed demo_state [demo_message] demo_contents) w'
    | (_, w') \<Rightarrow> reopens demo_uid w' demo_state (committed demo_state [demo_message] demo_contents)"
proof -
  let ?t = "text_of (transaction demo_state [demo_message])"
  have j: "journaled demo_state [demo_message] demo_contents (demo_contents((Root, ''transaction.json'') \<mapsto> own ?t))"
    using demo_clean by (auto simp: journaled_def outbox_between_def demo_empty clean_store_def)
  show ?thesis
    by (rule recovery_restartable [OF demo_clean demo_ready demo_accepts demo_committed_clean j holds_put [OF demo_holds]])
qed

text \<open>C4: Without failures, a commit whose messages do not conflict with the outbox and fit into it returns
  true and stores the new state and every message.\<close>

theorem commit_completes:
  assumes "clean_store uid st c" "holds c w" "commit_ready uid nx ms" "script w = []" "\<not> conflict c ms"
    and "fits (card (messages_in c)) (bytes_in c) ms"
  shows "\<exists>w'. commit uid nx ms w = (Done True, w') \<and> memory w' = nx \<and> clean_store uid nx (contents w') \<and>
    (\<forall>m\<in>set ms. stored (contents w') m) \<and> (\<forall>n. c (Outbox, n) \<noteq> None \<longrightarrow> contents w' (Outbox, n) = c (Outbox, n))"
  using assms(1-3)
proof (cases rule: commit_cases)
  case (accepted acc full)
  obtain w' where w': "commit_tail uid nx acc full w = (Done (\<not> full), w')" "memory w' = nx" "holds (committed nx acc c) w'"
    using commit_tail_triple [OF assms(1,3) accepted(2)] assms(2,4) unfolding triple_def runs_def by blast
  have con: "contents w' = committed nx acc c" using w'(3) by (simp add: holds_def)
  have d: "distinct (map name_of acc)" using accepted(2) assms(3) by (simp add: accepts_def commit_ready_def)
  have old: "committed nx acc c (Outbox, n) = c (Outbox, n)" if "c (Outbox, n) \<noteq> None" for n
    using that accepted(2) by (auto simp: accepts_def intro!: with_messages_outside)
  have "stored (committed nx acc c) m" if "m \<in> set ms" for m
  proof (cases "m \<in> set acc")
    case True
    then show ?thesis by (simp add: stored_def with_messages_inside [OF d])
  next
    case False
    then have "stored c m" using that accepted(2,4) assms(6) by (auto simp: accepts_def)
    then show ?thesis using old [of "name_of m"] by (auto simp: stored_def)
  qed
  moreover have "\<not> full" by (rule accepted(4) [OF assms(6)])
  ultimately show ?thesis
    using w'(1,2) accepted(1,3) old by (intro exI [where x = w']) (simp add: con)
qed (use assms(5) in simp)

theorem commit_completes_witness:
  "\<exists>w'. commit demo_uid demo_state [demo_message] (demo_world []) = (Done True, w') \<and> stored (contents w') demo_message"
proof -
  have "script (demo_world []) = []" by (simp add: demo_world_def)
  moreover have "\<not> conflict demo_contents [demo_message]" by (simp add: conflict_def demo_empty)
  moreover have "fits (card (messages_in demo_contents)) (bytes_in demo_contents) [demo_message]"
    using demo_message_text(2) by (simp add: demo_empty)
  ultimately show ?thesis
    using commit_completes [OF demo_clean demo_holds demo_ready] by (meson list.set_intros(1))
qed

text \<open>C20: A stop while the journal is being written makes the store refuse to open until its temporary file is
  removed by hand: whatever bytes that file holds, every later start throws and changes nothing.\<close>

theorem torn_journal_blocks_start:
  assumes "clean_store uid st c" "holds c w"
  shows "\<exists>w'. open_store uid epoch (restarted (put_file Root ''transaction.json.next'' t w)) = (Threw NOT_READY, w') \<and>
    contents w' = c((Root, ''transaction.json.next'') \<mapsto> own t)"
proof -
  have h: "holds (c((Root, ''transaction.json.next'') \<mapsto> own t)) (put_file Root ''transaction.json.next'' t w)"
    by (rule holds_put) (rule assms(2))
  then have "contents (put_file Root ''transaction.json.next'' t w) = c((Root, ''transaction.json.next'') \<mapsto> own t)"
    by (simp add: holds_def)
  then show ?thesis using torn_journal_refuses [OF assms(1) h] unfolding refuses_def by metis
qed

theorem torn_journal_blocks_start_witness:
  "\<exists>w'. open_store demo_uid demo_epoch (restarted (put_file Root ''transaction.json.next'' ''x'' (demo_world []))) = (Threw NOT_READY, w')"
  using torn_journal_blocks_start [OF demo_clean demo_holds, of demo_epoch "''x''"] by blast

end
