(* ===== verification/Runs.thy ===== *)
theory Runs
  imports Main
begin

text \<open>
  Runs of the objects of the service. A step takes a state to a state and hands out a list of results; a run is a
  sequence of steps with all their results in order. The locales are the contracts under which a fact about one step is
  a fact about every run: an invariant, a simulation by another object, and a queue that loses nothing unconfirmed.
\<close>

section \<open>Runs\<close>

inductive trace :: "('s \<Rightarrow> 'o list \<Rightarrow> 's \<Rightarrow> bool) \<Rightarrow> 's \<Rightarrow> 'o list \<Rightarrow> 's \<Rightarrow> bool" for step s where
  trace_none: "trace step s [] s"
| trace_more: "trace step s (outs @ out) s''" if "trace step s outs s'" "step s' out s''"

lemma trace_one: "step s out s' \<Longrightarrow> trace step s out s'"
  using trace_more [OF trace_none] by fastforce

lemma trace_trans: "trace step b outs c \<Longrightarrow> trace step a prior b \<Longrightarrow> trace step a (prior @ outs) c"
proof (induction rule: trace.induct)
  case (trace_more outs s' out s'')
  then have "trace step a ((prior @ outs) @ out) s''" by (blast intro: trace.trace_more)
  then show ?case by simp
qed simp

section \<open>Invariants\<close>

text \<open>The invariant relates the results so far to the state.\<close>

locale run_invariant =
  fixes step :: "'s \<Rightarrow> 'o list \<Rightarrow> 's \<Rightarrow> bool" and inv :: "'o list \<Rightarrow> 's \<Rightarrow> bool"
  assumes kept: "inv outs s \<Longrightarrow> step s out s' \<Longrightarrow> inv (outs @ out) s'"
begin

lemma throughout: "trace step s outs s' \<Longrightarrow> inv [] s \<Longrightarrow> inv outs s'"
  by (induction rule: trace.induct) (auto intro: kept)

end

text \<open>Steps without results: a property that every step keeps, and a measure of progress that no step lowers.\<close>

locale step_invariant =
  fixes step :: "'s \<Rightarrow> 's \<Rightarrow> bool" and inv :: "'s \<Rightarrow> bool"
  assumes step_keeps: "step s s' \<Longrightarrow> inv s \<Longrightarrow> inv s'"
begin

lemma always: "step\<^sup>*\<^sup>* s s' \<Longrightarrow> inv s \<Longrightarrow> inv s'"
  by (induction rule: rtranclp_induct) (auto intro: step_keeps)

end

locale step_progress =
  fixes step :: "'s \<Rightarrow> 's \<Rightarrow> bool" and level :: "'s \<Rightarrow> 'l :: preorder"
  assumes raises: "step s s' \<Longrightarrow> level s \<le> level s'"

sublocale step_progress \<subseteq> above: step_invariant step "\<lambda>s. l \<le> level s" for l
  by unfold_locales (auto intro: raises order_trans)

context step_progress begin

lemma never_falls: "step\<^sup>*\<^sup>* s s' \<Longrightarrow> level s \<le> level s'"
  by (erule above.always) simp

end

section \<open>Simulations\<close>

text \<open>
  The object is built on another one, which it changes by runs only and whose results it hands out: what is invariant for
  every run of the inner object is invariant for every run of the outer one.
\<close>

locale simulation =
  fixes step :: "'s \<Rightarrow> 'o list \<Rightarrow> 's \<Rightarrow> bool" and inner :: "'t \<Rightarrow> 'o list \<Rightarrow> 't \<Rightarrow> bool" and abs :: "'s \<Rightarrow> 't"
  assumes simulated: "step s out s' \<Longrightarrow> trace inner (abs s) out (abs s')"
begin

lemma runs_inner: "trace step s outs s' \<Longrightarrow> trace inner (abs s) outs (abs s')"
  by (induction rule: trace.induct) (auto intro: trace_none trace_trans simulated)

lemma inherits: "run_invariant inner I \<Longrightarrow> I [] (abs s) \<Longrightarrow> trace step s outs s' \<Longrightarrow> I outs (abs s')"
  using run_invariant.throughout [OF _ runs_inner] by blast

end

section \<open>Queues\<close>

text \<open>
  A queue whose steps hand out the keys that were confirmed. The law is about one step on a valid queue; over a run,
  whatever is no longer held was confirmed.
\<close>

locale confirmed_queue =
  fixes step :: "'s \<Rightarrow> 'k list \<Rightarrow> 's \<Rightarrow> bool" and valid :: "'s \<Rightarrow> bool" and held :: "'s \<Rightarrow> 'k set"
  assumes step_valid: "valid s \<Longrightarrow> step s out s' \<Longrightarrow> valid s'"
    and step_confirms: "valid s \<Longrightarrow> step s out s' \<Longrightarrow> distinct out \<and> set out \<subseteq> held s \<and> held s' = held s - set out"

sublocale confirmed_queue \<subseteq> since: run_invariant step
  "\<lambda>outs s. valid s \<and> distinct outs \<and> set outs \<subseteq> q \<and> held s = q - set outs" for q
proof
  fix outs s out s'
  assume i: "valid s \<and> distinct outs \<and> set outs \<subseteq> q \<and> held s = q - set outs" and st: "step s out s'"
  from step_confirms [OF _ st] i have "distinct out \<and> set out \<subseteq> held s \<and> held s' = held s - set out" by blast
  with i step_valid [OF _ st]
  show "valid s' \<and> distinct (outs @ out) \<and> set (outs @ out) \<subseteq> q \<and> held s' = q - set (outs @ out)" by auto
qed

context confirmed_queue begin

lemma nothing_lost:
  assumes "trace step s outs s'" "valid s"
  shows "valid s' \<and> distinct outs \<and> set outs \<subseteq> held s \<and> held s' = held s - set outs"
  using since.throughout [OF assms(1), of "held s"] assms(2) by simp

end

end
