(* ===== verification/Delivery.thy ===== *)
theory Delivery
  imports Atomicity Runs
begin

text \<open>
  Delivery from the outbox: which message is pending, and what an answer of the backend does to it.
\<close>

section \<open>The pending message\<close>

abbreviation blocked_in :: "contents \<Rightarrow> string \<Rightarrow> bool" where
  "blocked_in c key \<equiv> c (Outbox, blocked_name key) \<noteq> None"

definition entry_text :: "contents \<Rightarrow> string \<Rightarrow> string" where
  "entry_text c n = entry_bytes (the (c (Outbox, n)))"

fun first_unblocked :: "contents \<Rightarrow> string list \<Rightarrow> Pending option" where
  "first_unblocked c [] = None"
| "first_unblocked c (n # ns) =
     (if blocked_in c (take 64 n) then first_unblocked c ns
      else Some \<lparr>pending_key = take 64 n, pending_bytes = entry_text c n\<rparr>)"

lemma message_entry:
  assumes "queue_valid uid c" "n \<in> messages_in c"
  obtains e where "c (Outbox, n) = Some e" "entry_private e" "is_sha256 (take 64 n)" "message_fine uid n (entry_bytes e)"
    "n = message_name (take 64 n)"
proof -
  obtain e where e: "c (Outbox, n) = Some e" and m: "is_message_name n" using assms(2) by (auto simp: messages_in_def)
  then have "entry_fine uid c n e" using assms(1) by (simp add: queue_valid_def)
  moreover have "n = message_name (take 64 n)"
    using m append_take_drop_id [of 64 n] by (simp add: is_message_name_def message_name_def)
  ultimately show thesis using that e m name_kinds by (auto simp: entry_fine_def)
qed

lemma pending_loop_eq:
  assumes w: "holds c w" and q: "queue_valid uid c" and names: "set names \<subseteq> messages_in c"
  shows "pending_loop names w = (Done (first_unblocked c names), w)"
  using names
proof (induction names)
  case Nil
  show ?case by (simp add: io_return_def)
next
  case (Cons n names)
  then have "n \<in> messages_in c" by simp
  then obtain e where e: "c (Outbox, n) = Some e" "message_fine uid n (entry_bytes e)" "n = message_name (take 64 n)"
    "length n = 69"
    using message_entry [OF q] by (metis (mono_tags, lifting) mem_Collect_eq message_name_length messages_in_def)
  have len: "length n - 5 = 64" using e(4) by simp
  show ?case
  proof (cases "blocked_in c (take 64 n)")
    case True
    with Cons w show ?thesis by (simp add: len io_simps Let_def file_exists_def get_file_holds)
  next
    case False
    with e w show ?thesis
      by (auto simp: len io_simps Let_def file_exists_def read_file_def get_file_holds message_fine_def entry_text_def)
  qed
qed

lemma message_names:
  assumes w: "holds c w" and q: "queue_valid uid c"
  shows "set (filter json_extension (map fst (dirs w Outbox))) = messages_in c"
    "sorted (filter json_extension (map fst (dirs w Outbox)))"
proof -
  note N = outbox_names [OF w]
  show "set (filter json_extension (map fst (dirs w Outbox))) = messages_in c"
    unfolding set_filter N(1) messages_in_def using queue_extension [OF q] by auto
  have "dict_ok (dirs w Outbox)" using w by (simp add: holds_def world_ok_def)
  then show "sorted (filter json_extension (map fst (dirs w Outbox)))"
    by (intro sorted_filter [where f = id, simplified]) (simp add: dict_ok_def strict_sorted_iff)
qed

definition pending_of :: "contents \<Rightarrow> Pending option" where
  "pending_of c = first_unblocked c (sorted_list_of_set (messages_in c))"

lemma pending_eq:
  assumes w: "holds c w" and q: "queue_valid uid c"
  shows "pending w = (Done (pending_of c), w)"
proof -
  let ?ns = "filter json_extension (map fst (dirs w Outbox))"
  note M = message_names [OF w q]
  have "distinct ?ns" using outbox_names(2) [OF w] by simp
  then have "?ns = sorted_list_of_set (messages_in c)"
    using M sorted_list_of_set.idem_if_sorted_distinct [of ?ns] by simp
  moreover have "pending_loop ?ns w = (Done (first_unblocked c ?ns), w)"
    by (rule pending_loop_eq [OF w q]) (simp only: M(1) subset_refl)
  ultimately show ?thesis by (simp add: pending_def io_bind_def names_of_def pending_of_def)
qed

lemma first_unblocked_None: "first_unblocked c ns = None \<longleftrightarrow> (\<forall>n\<in>set ns. blocked_in c (take 64 n))"
  by (induction ns) auto

lemma first_unblocked_Some:
  assumes "first_unblocked c ns = Some p" "sorted ns"
  shows "\<exists>n\<in>set ns. pending_key p = take 64 n \<and> pending_bytes p = entry_text c n \<and> \<not> blocked_in c (take 64 n) \<and>
    (\<forall>m\<in>set ns. m < n \<longrightarrow> blocked_in c (take 64 m))"
  using assms
proof (induction ns)
  case (Cons n ns)
  show ?case
  proof (cases "blocked_in c (take 64 n)")
    case True
    with Cons obtain k where "k \<in> set ns" "pending_key p = take 64 k" "pending_bytes p = entry_text c k"
      "\<not> blocked_in c (take 64 k)" "\<forall>m\<in>set ns. m < k \<longrightarrow> blocked_in c (take 64 m)" by auto
    with True show ?thesis by auto
  next
    case False
    with Cons.prems show ?thesis by auto
  qed
qed simp


lemma pending_message:
  assumes q: "queue_valid uid c" and fin: "finite (messages_in c)" and p: "pending_of c = Some p"
  obtains n e where "n \<in> messages_in c" "n = message_name (pending_key p)" "is_sha256 (pending_key p)"
    "c (Outbox, n) = Some e" "entry_bytes e = pending_bytes p" "message_fine uid n (pending_bytes p)"
    "\<not> blocked_in c (pending_key p)" "\<forall>m\<in>messages_in c. m < n \<longrightarrow> blocked_in c (take 64 m)"
proof -
  obtain n where n: "n \<in> messages_in c" "pending_key p = take 64 n" "pending_bytes p = entry_text c n"
    "\<not> blocked_in c (take 64 n)" "\<forall>m\<in>messages_in c. m < n \<longrightarrow> blocked_in c (take 64 m)"
    using first_unblocked_Some [OF p [unfolded pending_of_def]] fin by auto
  then show thesis using message_entry [OF q n(1)] that by (metis entry_text_def option.sel)
qed

section \<open>Answers of the backend\<close>

definition permanent :: "HttpResponse \<Rightarrow> bool" where
  "permanent r \<longleftrightarrow> http_status r \<noteq> 0 \<and> http_status r \<noteq> 200 \<and> http_status r \<noteq> 201 \<and> \<not> retryable_http (http_status r)"

text \<open>The contents after the answer was handled.\<close>

definition answered :: "Pending \<Rightarrow> HttpResponse \<Rightarrow> contents \<Rightarrow> contents" where
  "answered p r c =
     (if matches_ack (pending_bytes p) r then c((Outbox, message_name (pending_key p)) := None)
      else if permanent r then c((Outbox, blocked_name (pending_key p)) \<mapsto> own ''DELIVERY_CONFLICT'')
      else c)"

lemma blocked_next_absent:
  assumes "queue_valid uid c" "is_sha256 key"
  shows "c (Outbox, next_name (blocked_name key)) = None"
proof (rule ccontr)
  assume "c (Outbox, next_name (blocked_name key)) \<noteq> None"
  then have "is_blocked_name (next_name (blocked_name key)) \<or> is_message_name (next_name (blocked_name key))"
    using assms(1) by (auto simp: queue_valid_def entry_fine_def)
  then show False
    using assms(2) by (auto simp: is_blocked_name_def is_message_name_def next_name_def blocked_name_def is_sha256_def)
qed

lemma message_blocked_names: "is_sha256 key \<Longrightarrow> blocked_name key \<noteq> message_name k \<and> message_name k \<noteq> next_name (blocked_name key)"
  by (auto simp: blocked_name_def message_name_def next_name_def is_sha256_def dest!: arg_cong [where f = rev])

lemma acknowledge_triple:
  assumes q: "queue_valid uid c" and fin: "finite (messages_in c)" and p: "pending_of c = Some p"
  shows "triple (holds c) (acknowledge p r) (\<lambda>ok w. ok = matches_ack (pending_bytes p) r \<and> holds (answered p r c) w)
    (\<lambda>w. if matches_ack (pending_bytes p) r then holds c w \<or> holds (answered p r c) w
         else if permanent r then torn c Outbox (blocked_name (pending_key p)) ''DELIVERY_CONFLICT'' w
         else holds c w)"
    (is "triple _ _ ?Q ?E")
proof (rule pending_message [OF q fin p])
  fix n e
  assume n: "n = message_name (pending_key p)" "is_sha256 (pending_key p)" "c (Outbox, n) = Some e"
    "entry_bytes e = pending_bytes p" "message_fine uid n (pending_bytes p)"
  have none: "c (Outbox, next_name (blocked_name (pending_key p))) = None"
    by (rule blocked_next_absent [OF q n(2)])
  have eq: "acknowledge p r w =
      (if matches_ack (pending_bytes p) r then io_bind (remove_durable Outbox n) (\<lambda>_. io_return True)
       else if permanent r then io_bind (durable_file Outbox (blocked_name (pending_key p)) ''DELIVERY_CONFLICT'') (\<lambda>_. io_return False)
       else io_return False) w" if "holds c w" for w
    using that n by (simp add: acknowledge_def Let_def io_bind_def [of _ _ w] file_exists_def read_file_def io_throw_if_def
        io_return_def get_file_holds message_fine_def permanent_def)
  have "triple (holds c) (if matches_ack (pending_bytes p) r then io_bind (remove_durable Outbox n) (\<lambda>_. io_return True)
       else if permanent r then io_bind (durable_file Outbox (blocked_name (pending_key p)) ''DELIVERY_CONFLICT'') (\<lambda>_. io_return False)
       else io_return False) ?Q ?E"
  proof (cases "matches_ack (pending_bytes p) r")
    case True
    then have "triple (holds c) (io_bind (remove_durable Outbox n) (\<lambda>_. io_return True)) ?Q ?E"
      by (intro triple_bind [OF triple_weaken [OF triple_remove [of c Outbox n]]] triple_return)
         (auto simp: answered_def n(1) fun_upd_def)
    with True show ?thesis by simp
  next
    case False
    let ?b = "blocked_name (pending_key p)"
    have upd: "c((Outbox, next_name ?b) := None, (Outbox, ?b) \<mapsto> own t) = c((Outbox, ?b) \<mapsto> own t)" for t
      using none by (simp add: fun_upd_idem)
    have ans: "answered p r c = c((Outbox, ?b) \<mapsto> own ''DELIVERY_CONFLICT'')" if "permanent r"
      using that False by (simp add: answered_def)
    have "triple (holds c) (durable_file Outbox ?b ''DELIVERY_CONFLICT'') (\<lambda>_. holds (answered p r c)) ?E" if "permanent r"
      unfolding durable_file_def ans [OF that] using that False none upd
      by (intro triple_weaken [OF triple_write [of c Outbox ?b False "''DELIVERY_CONFLICT''"]]) auto
    then have "triple (holds c) (io_bind (durable_file Outbox ?b ''DELIVERY_CONFLICT'') (\<lambda>_. io_return False)) ?Q ?E" if "permanent r"
      by (rule triple_bind) (use that False in \<open>auto intro!: triple_return\<close>)
    with False show ?thesis by (auto simp: answered_def intro!: triple_return)
  qed
  then show ?thesis using eq by (simp add: triple_def spec_def runs_def)
qed

lemma messages_answered:
  assumes "is_sha256 (pending_key p)"
  shows "messages_in (answered p r c) = (if matches_ack (pending_bytes p) r then messages_in c - {message_name (pending_key p)} else messages_in c)"
proof -
  have "\<not> is_message_name (blocked_name (pending_key p))"
    using assms by (simp add: is_message_name_def blocked_name_def is_sha256_def)
  then show ?thesis by (auto simp: messages_in_def answered_def)
qed

lemma answered_valid:
  assumes q: "queue_valid uid c" and fin: "finite (messages_in c)" and p: "pending_of c = Some p"
  shows "queue_valid uid (answered p r c)"
proof (rule pending_message [OF q fin p])
  fix n e
  let ?c = "answered p r c"
  assume n: "n \<in> messages_in c" "n = message_name (pending_key p)" "is_sha256 (pending_key p)" "c (Outbox, n) = Some e"
    "\<not> blocked_in c (pending_key p)"
  note M = messages_answered [OF n(3), of r c]
  have sub: "messages_in ?c \<subseteq> messages_in c" by (auto simp: M)
  have same: "entry_text ?c m = entry_text c m" if "m \<in> messages_in ?c" for m
    using that M n(3) message_blocked_names [of "pending_key p"]
    by (auto simp: entry_text_def answered_def messages_in_def is_message_name_def blocked_name_def is_sha256_def)
  have "bytes_in ?c = (\<Sum>m\<in>messages_in ?c. length (entry_text c m))"
    unfolding bytes_in_def using same by (intro sum.cong) (auto simp: entry_text_def)
  also have "\<dots> \<le> bytes_in c"
    unfolding bytes_in_def entry_text_def by (rule sum_mono2 [OF fin sub]) simp
  finally have bytes: "bytes_in ?c \<le> 2097152" using q by (simp add: queue_valid_def)
  have card: "card (messages_in ?c) \<le> 256" using card_mono [OF fin sub] q by (simp add: queue_valid_def)
  have "entry_fine uid ?c m f" if f: "?c (Outbox, m) = Some f" for m f
  proof (cases "m = blocked_name (pending_key p) \<and> f = own ''DELIVERY_CONFLICT'' \<and> \<not> matches_ack (pending_bytes p) r")
    case True
    then show ?thesis
      using n message_blocked_names [OF n(3)]
      by (auto simp: entry_fine_def is_blocked_name_def blocked_name_def is_sha256_def answered_def)
  next
    case False
    then have old: "c (Outbox, m) = Some f" using f by (auto simp: answered_def split: if_splits)
    then have fine: "entry_fine uid c m f" using q by (simp add: queue_valid_def)
    have "?c (Outbox, message_name (take 64 m)) \<noteq> None" if "is_blocked_name m" "c (Outbox, message_name (take 64 m)) \<noteq> None"
    proof -
      have m: "m = blocked_name (take 64 m)"
        using that(1) append_take_drop_id [of 64 m] by (simp add: is_blocked_name_def blocked_name_def)
      then have "take 64 m \<noteq> pending_key p" using old n(5) by auto
      then show ?thesis using that(2) by (auto simp: answered_def message_name_def)
    qed
    with fine show ?thesis by (auto simp: entry_fine_def)
  qed
  with card bytes show ?thesis by (simp add: queue_valid_def)
qed


section \<open>Rounds of delivery\<close>

text \<open>
  A delivery that was handled to its end: the pending message is sent, and the answer is handled under any script. The
  results are the names of the messages that the backend confirmed.
\<close>

definition delivery_step :: "world \<Rightarrow> string list \<Rightarrow> world \<Rightarrow> bool" where
  "delivery_step w out w' \<longleftrightarrow>
     (\<exists>p r ok w1. pending w = (Done (Some p), w) \<and> acknowledge p r w = (Done ok, w1) \<and> w' = w1\<lparr>script := script w'\<rparr> \<and>
        out = (if ok then [message_name (pending_key p)] else []))"

definition outbox_valid :: "string \<Rightarrow> world \<Rightarrow> bool" where
  "outbox_valid uid w \<longleftrightarrow> world_ok w \<and> queue_valid uid (contents w)"

lemma delivery_step_effect:
  assumes "outbox_valid uid w" "delivery_step w out w'"
  shows "outbox_valid uid w'" "distinct out \<and> set out \<subseteq> messages_in (contents w) \<and> messages_in (contents w') = messages_in (contents w) - set out"
proof -
  obtain p r ok w1 where st: "pending w = (Done (Some p), w)" "acknowledge p r w = (Done ok, w1)" "w' = w1\<lparr>script := script w'\<rparr>"
    "out = (if ok then [message_name (pending_key p)] else [])"
    using assms(2) by (auto simp: delivery_step_def)
  have h: "holds (contents w) w" and q: "queue_valid uid (contents w)" using assms(1) by (auto simp: outbox_valid_def holds_def)
  note fin = finite_messages [OF h]
  have p: "pending_of (contents w) = Some p" using pending_eq [OF h q] st(1) by simp
  have "ok = matches_ack (pending_bytes p) r \<and> holds (answered p r (contents w)) w1"
    using specD [OF conjunct1 [OF acknowledge_triple [OF q fin p, of r, unfolded triple_def]] h] st(2) by simp
  moreover have "contents w' = contents w1 \<and> (world_ok w' \<longleftrightarrow> world_ok w1)"
    by (subst st(3), subst (2) st(3)) (simp add: contents_def world_ok_def get_file_def)
  ultimately have w': "contents w' = answered p r (contents w)" "world_ok w'" "ok = matches_ack (pending_bytes p) r"
    by (auto simp: holds_def)
  show "outbox_valid uid w'" using answered_valid [OF q fin p, of r] w' by (simp add: outbox_valid_def)
  show "distinct out \<and> set out \<subseteq> messages_in (contents w) \<and> messages_in (contents w') = messages_in (contents w) - set out"
    by (rule pending_message [OF q fin p]) (auto simp: st(4) w' messages_answered)
qed

text \<open>Over any number of deliveries every message that is gone was confirmed, and no message is confirmed twice.\<close>

interpretation outbox: confirmed_queue delivery_step "outbox_valid uid" "\<lambda>w. messages_in (contents w)" for uid
  by unfold_locales (rule delivery_step_effect, assumption+)+

section \<open>A concrete outbox\<close>

definition demo_outbox :: "fault list \<Rightarrow> world" where
  "demo_outbox faults = put_file Outbox (name_of demo_message) (text_of demo_message) (demo_world faults)"

definition demo_pending :: Pending where
  "demo_pending = \<lparr>pending_key = projr (message_key demo_message), pending_bytes = text_of demo_message\<rparr>"

lemma demo_outbox_facts:
  fixes faults defines "c \<equiv> demo_contents((Outbox, name_of demo_message) \<mapsto> own (text_of demo_message))"
  shows "holds c (demo_outbox faults)" "queue_valid demo_uid c" "pending (demo_outbox faults) = (Done (Some demo_pending), demo_outbox faults)"
proof -
  let ?n = "name_of demo_message"
  note name = sendable_name [OF demo_sendable]
  show h: "holds c (demo_outbox faults)" unfolding c_def demo_outbox_def by (rule holds_put) (rule demo_holds)
  have m: "messages_in c = {?n}" using name by (auto simp: messages_in_def c_def demo_empty)
  moreover have "bytes_in c = length (text_of demo_message)" by (simp add: bytes_in_def m) (simp add: c_def)
  moreover have "entry_fine demo_uid c n e" if "c (Outbox, n) = Some e" for n e
    using that name sendable_fine [OF demo_sendable] by (auto simp: c_def demo_empty entry_fine_def split: if_splits)
  ultimately show q: "queue_valid demo_uid c" using demo_message_text(2) by (simp add: queue_valid_def)
  have "take 64 ?n = projr (message_key demo_message)"
    using name by (simp add: name_of_def message_name_def is_message_name_def)
  moreover have "blocked_name (projr (message_key demo_message)) \<noteq> ?n"
    by (simp add: name_of_def message_name_def blocked_name_def)
  ultimately have "pending_of c = Some demo_pending"
    by (simp add: pending_of_def m demo_pending_def entry_text_def) (simp add: c_def demo_empty)
  then show "pending (demo_outbox faults) = (Done (Some demo_pending), demo_outbox faults)" using pending_eq [OF h q] by simp
qed

section \<open>Properties\<close>

text \<open>C12: On a valid outbox \<open>pending\<close> returns nothing exactly when every message is blocked; otherwise it returns
  a stored message that is not blocked, with its bytes, and every message before it in name order is blocked.\<close>

theorem pending_first_unblocked:
  assumes "holds c w" "queue_valid uid c"
  shows "\<exists>r. pending w = (Done r, w) \<and>
    (r = None \<longleftrightarrow> (\<forall>n\<in>messages_in c. blocked_in c (take 64 n))) \<and>
    (\<forall>p. r = Some p \<longrightarrow>
       message_name (pending_key p) \<in> messages_in c \<and> \<not> blocked_in c (pending_key p) \<and>
       pending_bytes p = entry_text c (message_name (pending_key p)) \<and>
       (\<forall>n\<in>messages_in c. n < message_name (pending_key p) \<longrightarrow> blocked_in c (take 64 n)))"
proof -
  note fin = finite_messages [OF assms(1)]
  have "pending_of c = None \<longleftrightarrow> (\<forall>n\<in>messages_in c. blocked_in c (take 64 n))"
    using fin by (simp add: pending_of_def first_unblocked_None)
  moreover have "message_name (pending_key p) \<in> messages_in c \<and> \<not> blocked_in c (pending_key p) \<and>
       pending_bytes p = entry_text c (message_name (pending_key p)) \<and>
       (\<forall>n\<in>messages_in c. n < message_name (pending_key p) \<longrightarrow> blocked_in c (take 64 n))"
    if p: "pending_of c = Some p" for p
    by (rule pending_message [OF assms(2) fin p]) (auto simp: entry_text_def)
  ultimately show ?thesis using pending_eq [OF assms] by (intro exI [where x = "pending_of c"]) simp
qed

text \<open>An outbox with one message.\<close>

theorem pending_first_unblocked_witness:
  "pending (demo_outbox []) = (Done (Some demo_pending), demo_outbox []) \<and>
   \<not> blocked_in (demo_contents((Outbox, name_of demo_message) \<mapsto> own (text_of demo_message))) (pending_key demo_pending) \<and>
   message_name (pending_key demo_pending) \<in> messages_in (demo_contents((Outbox, name_of demo_message) \<mapsto> own (text_of demo_message)))"
  using pending_first_unblocked [OF demo_outbox_facts(1,2), of "[]"] demo_outbox_facts(3) [of "[]"] by auto

text \<open>C3: Whatever fails, a message leaves the outbox only through a matching acknowledgement: after handling an
  answer that does not match, under any script, its file is still there with its bytes. A matching one that
  is handled completely removes exactly this message and keeps the outbox valid.\<close>

theorem acknowledge_never_loses:
  assumes "holds c w" "queue_valid uid c" "pending w = (Done (Some p), w)"
  shows "case acknowledge p r w of
      (Done ok, w') \<Rightarrow> ok = matches_ack (pending_bytes p) r \<and> queue_valid uid (contents w') \<and>
        messages_in (contents w') = (if ok then messages_in c - {message_name (pending_key p)} else messages_in c)
    | (_, w') \<Rightarrow> matches_ack (pending_bytes p) r \<or>
        contents w' (Outbox, message_name (pending_key p)) = c (Outbox, message_name (pending_key p))"
proof -
  note fin = finite_messages [OF assms(1)]
  have p: "pending_of c = Some p" using pending_eq [OF assms(1,2)] assms(3) by simp
  then have key: "is_sha256 (pending_key p)" by (rule pending_message [OF assms(2) fin])
  let ?n = "message_name (pending_key p)"
  have torn: "contents w' (Outbox, ?n) = c (Outbox, ?n)"
    if "torn c Outbox (blocked_name (pending_key p)) ''DELIVERY_CONFLICT'' w'" for w'
    using that message_blocked_names [OF key, of "pending_key p"] by (elim torn_cases) (auto simp: holds_def)
  have "case acknowledge p r w of
      (Done ok, w') \<Rightarrow> ok = matches_ack (pending_bytes p) r \<and> holds (answered p r c) w'
    | (_, w') \<Rightarrow> (if matches_ack (pending_bytes p) r then holds c w' \<or> holds (answered p r c) w'
         else if permanent r then torn c Outbox (blocked_name (pending_key p)) ''DELIVERY_CONFLICT'' w'
         else holds c w')"
    using specD [OF conjunct1 [OF acknowledge_triple [OF assms(2) fin p, unfolded triple_def]] assms(1)] .
  then show ?thesis
    using answered_valid [OF assms(2) fin p, of r] messages_answered [OF key, of r c] torn
    by (auto simp: holds_def split: prod.splits outcome.splits if_splits)
qed


theorem acknowledge_never_loses_witness:
  "case acknowledge demo_pending \<lparr>http_status = 503, http_body = [], http_retry_after = 0\<rparr> (demo_outbox [Fail]) of
      (Done ok, w') \<Rightarrow> ok = matches_ack (pending_bytes demo_pending) \<lparr>http_status = 503, http_body = [], http_retry_after = 0\<rparr> \<and>
        queue_valid demo_uid (contents w') \<and>
        messages_in (contents w') =
          (if ok then messages_in (demo_contents((Outbox, name_of demo_message) \<mapsto> own (text_of demo_message))) - {message_name (pending_key demo_pending)}
           else messages_in (demo_contents((Outbox, name_of demo_message) \<mapsto> own (text_of demo_message))))
    | (_, w') \<Rightarrow> matches_ack (pending_bytes demo_pending) \<lparr>http_status = 503, http_body = [], http_retry_after = 0\<rparr> \<or>
        contents w' (Outbox, message_name (pending_key demo_pending)) =
        (demo_contents((Outbox, name_of demo_message) \<mapsto> own (text_of demo_message))) (Outbox, message_name (pending_key demo_pending))"
  by (rule acknowledge_never_loses [OF demo_outbox_facts])

end
