(* ===== verification/Messages.thy ===== *)
theory Messages
  imports Delivery Timestamps
begin

text \<open>
  The messages \<^verbatim>\<open>src/model.cpp\<close> builds: assessments, band changes, advisory requests to the gateway and the
  facts that record its answers. They are JSON objects; a message for the backend carries its content together
  with the digest of it.
\<close>

definition INVALID :: "string \<Rightarrow> exn" where
  "INVALID s = InvalidArgument s"

section \<open>Envelope\<close>

definition wrap :: "(string, json) dict \<Rightarrow> json \<Rightarrow> json result" where
  "wrap message content =
     ebind (canonical content) (\<lambda>t.
       Inr (JObject (dict_set ''contentSha256'' (JString (sha256_hex t)) (dict_set ''content'' content message))))"

definition base :: "Metadata \<Rightarrow> string \<Rightarrow> (string, json) dict result" where
  "base m kind =
     (let message = dict_init
        [(''schemaVersion'', JInt 1), (''contractVersion'', JString ''1.0.0''), (''messageType'', JString kind),
         (''unitSystemUid'', JString (unit_system_uid m)), (''unitRole'', JString (unit_role m)),
         (''serviceVersion'', JString (service_version m)),
         (''serviceArtifactSha256'', JString (service_artifact_sha256 m)),
         (''vdpContractVersion'', JString (vdp_contract_version m)),
         (''vdpContractSha256'', JString (vdp_contract_sha256 m))] []
      in case service_instance m of
           None \<Rightarrow> Inr message
         | Some i \<Rightarrow>
             ebind (metadata_binding m) (\<lambda>_.
             ebind (service_instance_json i) (\<lambda>t.
             ebind (parse_json t 65536) (\<lambda>j.
               Inr (dict_emplace ''serviceInstance'' j
                     (dict_erase ''serviceArtifactSha256''
                       (dict_set ''contractVersion'' (JString ''2.0.0'') (dict_set ''schemaVersion'' (JInt 2) message))))))))"

text \<open>\<^verbatim>\<open>for (auto f : fields) target[f] = source.at(f);\<close>\<close>

fun copy_fields :: "string list \<Rightarrow> json \<Rightarrow> (string, json) dict \<Rightarrow> (string, json) dict result" where
  "copy_fields [] source target = Inr target"
| "copy_fields (f # fs) source target =
     ebind (json_at source f) (\<lambda>v. copy_fields fs source (dict_set f v target))"

text \<open>An initializer list whose values may throw, evaluated from the left.\<close>

definition object_of :: "(string \<times> json result) list \<Rightarrow> (string, json) dict result" where
  "object_of es = emap (\<lambda>vs. dict_init (zip (map fst es) vs) []) (emapM snd es)"

section \<open>Assessments\<close>

definition assessment_content :: "Assessment \<Rightarrow> json" where
  "assessment_content a =
     JObject (dict_init
       [(''modelId'', JString ''tire-condition-demo-v1''), (''provenance'', JString ''DEMO_SYNTHETIC''),
        (''validActiveSamples'', JInt (as_samples a)), (''loadBps'', JInt (as_load a)),
        (''conditionScore'', JInt (as_score a)), (''confidencePercent'', JInt (as_confidence a)),
        (''previousBand'', JString (band_name (as_previous a))), (''currentBand'', JString (band_name (as_current a))),
        (''features'', JObject (dict_init
           [(''longitudinalSlipBps'', JInt (longitudinal (as_features a))), (''lateralSlipBps'', JInt (lateral (as_features a))),
            (''wheelDispersionBps'', JInt (dispersion (as_features a))),
            (''slipPersistenceBps'', JInt (persistence (as_features a)))] []))] [])"

definition assessment_message :: "Metadata \<Rightarrow> Assessment \<Rightarrow> Episode \<Rightarrow> string \<Rightarrow> json result" where
  "assessment_message m a e digest =
     (if \<not> is_sha256 digest \<or> \<not> is_uuid (ep_id e) then Inl (INVALID ''MODEL_IDENTITY_INVALID'')
      else ebind (base m ''TIRE_HEALTH_ASSESSMENT'') (\<lambda>msg.
           ebind (uuid_v5 ''17847494-307d-5fb4-a96b-d9425a0e5093'' [unit_system_uid m, ep_id e, digest]) (\<lambda>i.
           ebind (utc_timestamp (ep_ended e)) (\<lambda>t.
             wrap (dict_set ''modelConfigSha256'' (JString digest) (dict_set ''sourceEventTime'' (JString t)
                    (dict_set ''sourceExerciseId'' (JString (ep_id e)) (dict_set ''assessmentId'' (JString i) msg))))
                  (assessment_content a)))))"

definition event_fields :: "json \<Rightarrow> string \<Rightarrow> (string \<times> json result) list" where
  "event_fields a cur =
       [(''schemaVersion'', json_at a ''schemaVersion''), (''contractVersion'', json_at a ''contractVersion''),
        (''messageType'', Inr (JString ''TIRE_CONDITION_BAND_CHANGED'')), (''assessmentId'', json_at a ''assessmentId''),
        (''unitSystemUid'', json_at a ''unitSystemUid''), (''sourceEventTime'', json_at a ''sourceEventTime''),
        (''eventId'', ebind (at_string a ''assessmentId'') (\<lambda>i.
           emap JString (uuid_v5 ''330cfd3e-d785-51ba-8074-2cb57498b11e'' [i, ''TIRE_CONDITION_BAND_CHANGED'', cur])))]"

definition event_content :: "json \<Rightarrow> (string \<times> json result) list" where
  "event_content c =
       [(''eventType'', Inr (JString ''TIRE_CONDITION_BAND_CHANGED'')), (''previousBand'', json_at c ''previousBand''),
        (''currentBand'', json_at c ''currentBand''), (''conditionScore'', json_at c ''conditionScore''),
        (''confidencePercent'', json_at c ''confidencePercent'')]"

definition event_message :: "json \<Rightarrow> json result" where
  "event_message a =
     ebind (json_at a ''content'') (\<lambda>c.
     ebind (at_string c ''currentBand'') (\<lambda>cur.
     ebind (object_of (event_fields a cur)) (\<lambda>msg.
     ebind (at_integer a ''schemaVersion'') (\<lambda>v.
     ebind (if v = 2 then copy_fields [''unitRole'', ''serviceVersion'', ''serviceInstance''] a msg
            else if v \<noteq> 1 then Inl (INVALID ''MESSAGE_SCHEMA_INVALID'') else Inr msg) (\<lambda>msg'.
     ebind (object_of (event_content c)) (\<lambda>content.
       wrap msg' (JObject content)))))))"

section \<open>Advisories\<close>

definition advisory_request :: "Metadata \<Rightarrow> string \<Rightarrow> int \<Rightarrow> string \<Rightarrow> Band \<Rightarrow> int \<Rightarrow> json result" where
  "advisory_request m epoch sequence decision b now =
     (if \<not> is_uuid epoch \<or> \<not> is_uuid decision \<or> sequence < 1 \<or> b = NotEvaluated then Inl (INVALID ''ADVISORY_INVALID'')
      else ebind (object_of
             [(''schemaVersion'', Inr (JInt 1)), (''requestId'', emap JString (uuid_v5 epoch [show_int sequence])),
              (''producerEpoch'', Inr (JString epoch)), (''sequence'', Inr (JInt sequence)),
              (''decisionId'', Inr (JString decision)), (''serviceVersion'', Inr (JString (service_version m))),
              (''modelVersion'', Inr (JString ''1.0.0'')), (''issuedAt'', emap JString (utc_timestamp now)),
              (''expiresAt'', emap JString (utc_timestamp (now + 30000))),
              (''operation'', Inr (JString (if b = Good then ''CLEAR'' else ''SET''))),
              (''reasonCode'', Inr (JString (if b = Good then ''CONDITION_CLEARED'' else ''PREDICTED_TIRE_WEAR'')))]) (\<lambda>r.
           Inr (JObject (if b = Good then r
                         else dict_set ''recommendation'' (JString (if b = Inspection then ''TIRE_INSPECTION_RECOMMENDED''
                                                                   else ''TIRE_REPLACEMENT_RECOMMENDED'')) r))))"

definition gateway_states :: "string list" where
  "gateway_states = [''RECEIVED'', ''APPLIED'', ''CLEARED'', ''REJECTED'', ''EXPIRED'', ''FAILED'']"

definition gateway_reasons :: "string list" where
  "gateway_reasons =
     [''NONE'', ''UNAUTHORIZED_SOURCE'', ''UNAUTHORIZED_PATH'', ''INVALID_SCHEMA'', ''INVALID_VALUE'', ''STALE_REQUEST'',
      ''REPLAY_DETECTED'', ''SEQUENCE_ROLLBACK'', ''RATE_LIMITED'', ''QM_POLICY_DENIED'', ''INTERNAL_ERROR'']"

definition validate_gateway_status :: "json \<Rightarrow> unit result" where
  "validate_gateway_status status =
     ebind (ethrow_if (eany [emap (\<lambda>n. n \<noteq> 10) (object_size status), emap (\<lambda>n. n \<noteq> 1) (at_integer status ''schemaVersion'')])
             (INVALID ''STATUS_INVALID'')) (\<lambda>_.
     ebind (ethrow_if (eany [emap (\<lambda>s. \<not> is_uuid s) (at_string status ''requestId''),
                             emap (\<lambda>s. \<not> is_uuid s) (at_string status ''producerEpoch''),
                             emap (\<lambda>n. n < 1) (at_integer status ''sequence'')]) (INVALID ''STATUS_INVALID'')) (\<lambda>_.
     ebind (at_string status ''state'') (\<lambda>state.
     ebind (ewhen (state \<notin> set gateway_states) (INVALID ''STATUS_INVALID'')) (\<lambda>_.
     ebind (at_string status ''activeRecommendation'') (\<lambda>recommendation.
     ebind (at_string status ''activeReasonCode'') (\<lambda>reason.
     ebind (ethrow_if (eany
       [emap (\<lambda>s. s \<notin> set gateway_reasons) (at_string status ''reason''),
        emap (\<lambda>s. \<not> date_time s) (at_string status ''gatewayObservedAt''),
        eall [emap (\<lambda>j. \<not> is_null j) (json_at status ''activeUntil''),
              emap (\<lambda>s. \<not> date_time s) (at_string status ''activeUntil'')]]) (INVALID ''STATUS_INVALID'')) (\<lambda>_.
       ewhen (recommendation \<notin> set [''NONE'', ''TIRE_INSPECTION_RECOMMENDED'', ''TIRE_REPLACEMENT_RECOMMENDED''] \<or>
              reason \<notin> set [''NONE'', ''PREDICTED_TIRE_WEAR'']) (INVALID ''STATUS_WRONG_PRODUCT''))))))))"

text \<open>\<^verbatim>\<open>for (f : fields) if (canonical(a.at(f)) != canonical(b.at(f))) return false;\<close>\<close>

fun same_fields :: "string list \<Rightarrow> json \<Rightarrow> json \<Rightarrow> bool result" where
  "same_fields [] a b = Inr True"
| "same_fields (f # fs) a b =
     ebind (ebind (json_at a f) canonical) (\<lambda>x.
     ebind (ebind (json_at b f) canonical) (\<lambda>y.
       if x \<noteq> y then Inr False else same_fields fs a b))"

definition fact_content :: "json \<Rightarrow> json \<Rightarrow> (string \<times> json result) list" where
  "fact_content request status =
       [(''assessmentId'', json_at request ''decisionId''), (''operation'', json_at request ''operation''),
        (''reasonCode'', json_at request ''reasonCode''), (''issuedAt'', json_at request ''issuedAt''),
        (''expiresAt'', json_at request ''expiresAt''), (''gatewayReason'', json_at status ''reason''),
        (''gatewayObservedAt'', json_at status ''gatewayObservedAt''),
        (''activeRecommendation'', json_at status ''activeRecommendation''),
        (''activeReasonCode'', json_at status ''activeReasonCode''), (''activeUntil'', json_at status ''activeUntil'')]"

text \<open>The message without its content, and the content; \<open>advisory_fact\<close> wraps them.\<close>

definition fact_parts :: "Metadata \<Rightarrow> json \<Rightarrow> json \<Rightarrow> string result \<Rightarrow> ((string, json) dict \<times> json) result" where
  "fact_parts m request status recorded =
     ebind (validate_gateway_status status) (\<lambda>_.
     ebind (ethrow_if (emap (\<lambda>s. service_version m \<noteq> s) (at_string request ''serviceVersion''))
             (INVALID ''ADVISORY_PROVENANCE_INVALID'')) (\<lambda>_.
     ebind (ethrow_if (emap Not (same_fields [''requestId'', ''producerEpoch'', ''sequence''] request status))
             (INVALID ''UNCORRELATED_STATUS'')) (\<lambda>_.
     ebind (at_string status ''state'') (\<lambda>state.
     ebind (ethrow_if (eany
       [eall [Inr (state = ''APPLIED''), emap (\<lambda>s. s \<noteq> ''SET'') (at_string request ''operation'')],
        eall [Inr (state = ''CLEARED''), emap (\<lambda>s. s \<noteq> ''CLEAR'') (at_string request ''operation'')]])
             (INVALID ''STATUS_INVALID'')) (\<lambda>_.
     ebind (base m ''TIRE_ADVISORY_FACT'') (\<lambda>b.
     ebind (copy_fields [''requestId'', ''producerEpoch'', ''sequence''] request b) (\<lambda>msg.
     ebind recorded (\<lambda>t.
     ebind (object_of (fact_content request status)) (\<lambda>content.
     ebind (json_object request) (\<lambda>robj.
     ebind (if dict_has robj ''recommendation'' then copy_fields [''recommendation''] request content else Inr content) (\<lambda>content'.
       Inr (dict_set ''recordedAt'' (JString t) (dict_set ''gatewayState'' (JString state) msg), JObject content'))))))))))))"

definition advisory_fact :: "Metadata \<Rightarrow> json \<Rightarrow> json \<Rightarrow> int \<Rightarrow> json result" where
  "advisory_fact m request status now = ebind (fact_parts m request status (utc_timestamp now)) (\<lambda>(msg, content). wrap msg content)"


section \<open>Fields of built objects\<close>

declare copy_fields.simps [simp del]
declare same_fields.simps [simp del]

lemma json_string_eq: "json_string j = Inr s \<longleftrightarrow> j = JString s"
  by (cases j) auto

lemma dict_get_emplace: "dict_get (dict_emplace k v m) k' = (if k' = k \<and> dict_get m k = None then Some v else dict_get m k')"
  by (auto simp: dict_emplace_def dict_has_def)

lemma dict_get_init:
  "dict_get (dict_init es m) k = (case dict_get m k of Some v \<Rightarrow> Some v | None \<Rightarrow> map_of es k)"
proof (induction es m rule: dict_init.induct)
  case (2 a v es m)
  then show ?case by (auto simp: dict_get_emplace split: option.splits)
qed (auto split: option.splits)

lemma json_at_object [simp]: "json_at (JObject m) k = dict_at m k"
  by (simp add: json_at_def)

lemma dict_at_get: "dict_at m k = Inr v \<longleftrightarrow> dict_get m k = Some v"
  by (simp add: dict_at_def split: option.splits)

lemma object_of_get:
  assumes "object_of es = Inr m" "distinct (map fst es)"
  shows "dict_get m k = (case map_of es k of None \<Rightarrow> None | Some r \<Rightarrow> Some (projr r))"
    "k \<in> fst ` set es \<Longrightarrow> \<exists>v. map_of es k = Some (Inr v)"
proof -
  obtain vs where vs: "list_all2 (\<lambda>e v. snd e = Inr v) es vs" and m: "m = dict_init (zip (map fst es) vs) []"
    using assms(1) by (auto simp: object_of_def result_simps emapM_Inr)
  have "map_of (zip (map fst es) vs) k = (case map_of es k of None \<Rightarrow> None | Some r \<Rightarrow> Some (projr r))"
    using vs by (induction es vs rule: list_all2_induct) auto
  then show "dict_get m k = (case map_of es k of None \<Rightarrow> None | Some r \<Rightarrow> Some (projr r))"
    by (simp add: m dict_get_init)
  show "\<exists>v. map_of es k = Some (Inr v)" if "k \<in> fst ` set es"
    using vs that by (induction es vs rule: list_all2_induct) auto
qed

lemma dict_ok_object_of: "object_of es = Inr m \<Longrightarrow> dict_ok m"
  by (auto simp: object_of_def result_simps)

lemma copy_fields_get:
  "copy_fields fs src m = Inr m' \<Longrightarrow> k \<notin> set fs \<Longrightarrow> dict_get m' k = dict_get m k"
  "copy_fields fs src m = Inr m' \<Longrightarrow> k \<in> set fs \<Longrightarrow> distinct fs \<Longrightarrow> \<exists>v. json_at src k = Inr v \<and> dict_get m' k = Some v"
proof -
  show *: "copy_fields fs src m = Inr m' \<Longrightarrow> k \<notin> set fs \<Longrightarrow> dict_get m' k = dict_get m k" for fs m k
    by (induction fs arbitrary: m) (auto simp: result_simps copy_fields.simps)
  show "copy_fields fs src m = Inr m' \<Longrightarrow> k \<in> set fs \<Longrightarrow> distinct fs \<Longrightarrow> \<exists>v. json_at src k = Inr v \<and> dict_get m' k = Some v"
  proof (induction fs arbitrary: m)
    case (Cons f fs)
    then show ?case using * [of fs "dict_set f _ m" f] by (auto simp: result_simps copy_fields.simps)
  qed simp
qed

lemma base_get:
  assumes "base m kind = Inr b"
  shows "dict_get b ''messageType'' = Some (JString kind)" "dict_get b ''unitSystemUid'' = Some (JString (unit_system_uid m))"
    "dict_ok b"
  using assms by (auto simp: base_def Let_def result_simps dict_get_init dict_get_emplace split: option.splits)

lemma wrap_digest:
  assumes "wrap m c = Inr msg"
  shows "digest_matches msg = Inr True" "msg = JObject (dict_set ''contentSha256'' (JString (sha256_hex (projr (canonical c)))) (dict_set ''content'' c m))"
  using assms by (auto simp: wrap_def result_simps digest_matches_def dict_at_def at_string_def)


section \<open>Shape of built objects\<close>

definition shape :: "nat \<Rightarrow> json \<Rightarrow> bool" where
  "shape n j \<longleftrightarrow> json_wf j \<and> json_depth j \<le> n"

definition obj_shape :: "nat \<Rightarrow> (string, json) dict \<Rightarrow> bool" where
  "obj_shape n m \<longleftrightarrow> dict_ok m \<and> (\<forall>e\<in>set m. shape n (snd e))"

lemma shape_object: "obj_shape n m \<Longrightarrow> shape (Suc n) (JObject m)"
  by (auto simp: shape_def obj_shape_def list_all_iff foldr_max_le)

lemma shape_object_iff: "shape (Suc n) (JObject m) \<longleftrightarrow> obj_shape n m"
  by (auto simp: shape_def obj_shape_def list_all_iff foldr_max_le)

lemma shape_atom [simp]: "shape n (JString s)" "shape n (JInt i)" "shape n (JBool b)" "shape n JNull"
  by (simp_all add: shape_def)

lemma shape_mono: "shape n j \<Longrightarrow> n \<le> k \<Longrightarrow> shape k j"
  by (simp add: shape_def)

lemma obj_shape_set: "obj_shape n m \<Longrightarrow> shape n v \<Longrightarrow> obj_shape n (dict_set k v m)"
  using set_dict_set [of k v m] by (auto simp: obj_shape_def)

lemma obj_shape_erase: "obj_shape n m \<Longrightarrow> obj_shape n (dict_erase k m)"
  using set_dict_erase [of k m] by (auto simp: obj_shape_def)

lemma obj_shape_emplace: "obj_shape n m \<Longrightarrow> shape n v \<Longrightarrow> obj_shape n (dict_emplace k v m)"
  by (simp add: dict_emplace_def obj_shape_set)

lemma obj_shape_init: "obj_shape n m \<Longrightarrow> \<forall>e\<in>set es. shape n (snd e) \<Longrightarrow> obj_shape n (dict_init es m)"
  by (induction es m rule: dict_init.induct) (auto simp: obj_shape_emplace)

lemma obj_shape_Nil [simp]: "obj_shape n []"
  by (simp add: obj_shape_def)

lemma obj_shape_of:
  assumes "object_of es = Inr m" "\<forall>e\<in>set es. \<forall>v. snd e = Inr v \<longrightarrow> shape n v"
  shows "obj_shape n m"
proof -
  obtain vs where vs: "list_all2 (\<lambda>e v. snd e = Inr v) es vs" and m: "m = dict_init (zip (map fst es) vs) []"
    using assms(1) by (auto simp: object_of_def result_simps emapM_Inr)
  have "\<forall>e\<in>set (zip (map fst es) vs). shape n (snd e)"
    using vs assms(2) by (induction es vs rule: list_all2_induct) auto
  then show ?thesis by (simp add: m obj_shape_init)
qed

lemma shape_at: "shape (Suc n) j \<Longrightarrow> json_at j k = Inr v \<Longrightarrow> shape n v"
  by (cases j) (auto simp: json_at_def result_simps dict_at_get shape_object_iff obj_shape_def dest!: dict_get_in_set split: if_splits)

lemma obj_shape_copy: "copy_fields fs src m = Inr m' \<Longrightarrow> obj_shape n m \<Longrightarrow> shape (Suc n) src \<Longrightarrow> obj_shape n m'"
  by (induction fs arbitrary: m) (auto simp: result_simps copy_fields.simps intro: obj_shape_set shape_at)

lemma shape_instance: "service_instance_json i = Inr t \<Longrightarrow> parse_json t 65536 = Inr j \<Longrightarrow> shape 1 j"
proof -
  assume t: "service_instance_json i = Inr t" "parse_json t 65536 = Inr j"
  then have "j = instance_object i" using parse_instance_json [OF t(1), of 65536] by simp
  then show ?thesis by (simp add: shape_def instance_object_def instance_keys)
qed

lemma base_shape: "base m kind = Inr b \<Longrightarrow> obj_shape 1 b"
  by (auto simp: base_def Let_def result_simps split: option.splits
      intro!: obj_shape_emplace obj_shape_erase obj_shape_set obj_shape_init intro: shape_instance [simplified])

lemma canonical_field:
  assumes "canonical (JObject m) = Inr t" "dict_get m k = Some v"
  shows "\<exists>u. canonical v = Inr u"
proof -
  obtain ts where "list_all2 (\<lambda>e u. field_text e = Inr u) m ts"
    using assms(1) unfolding canonical_object by (auto simp: result_simps emapM_Inr)
  moreover have "(k, v) \<in> set m" by (rule dict_get_in_set [OF assms(2)])
  then obtain i where "i < length m" "m ! i = (k, v)" by (auto simp: in_set_conv_nth)
  ultimately obtain u where "field_text (k, v) = Inr u" by (auto simp: list_all2_conv_all_nth)
  then show ?thesis by (auto simp: field_text_def result_simps split: if_splits)
qed

lemma sendable_object:
  assumes "obj_shape 21 m" "canonical (JObject m) = Inr t" "length t \<le> 16384" "digest_matches (JObject m) = Inr True"
    and uid: "dict_get m ''unitSystemUid'' = Some (JString uid)" and kind: "dict_get m ''messageType'' = Some (JString kind)"
    and key: "key_field kind \<noteq> []" "dict_get m (key_field kind) \<noteq> None"
    and fact: "kind = ''TIRE_ADVISORY_FACT'' \<Longrightarrow> dict_get m ''gatewayState'' \<noteq> None"
  shows "sendable uid (JObject m)"
proof -
  note field = canonical_field [OF assms(2)]
  obtain i ti where i: "dict_get m (key_field kind) = Some i" "canonical i = Inr ti" using key(2) field by blast
  obtain tu where tu: "canonical (JString uid) = Inr tu" using field [OF uid] by blast
  obtain tk where tk: "canonical (JString kind) = Inr tk" using field [OF kind] by blast
  have "\<exists>k. message_key (JObject m) = Inr k"
  proof (cases "kind = ''TIRE_ADVISORY_FACT''")
    case True
    then obtain g tg where "dict_get m ''gatewayState'' = Some g" "canonical g = Inr tg" using fact field by blast
    then show ?thesis
      using True i tu tk key(1) kind uid
      by (simp add: message_key_def key_json_def at_string_def dict_at_def canonical_array del: canonical.simps)
  next
    case False
    then show ?thesis
      using i tu tk key(1) kind uid
      by (simp add: message_key_def key_json_def at_string_def dict_at_def canonical_array del: canonical.simps)
  qed
  moreover have "shape 22 (JObject m)" using shape_object [OF assms(1)] by (simp add: numeral_eq_Suc)
  ultimately show ?thesis
    using assms(2-4) uid by (auto simp: sendable_def shape_def text_of_def at_string_def dict_at_def)
qed


lemma emapM_field_set:
  assumes "emapM field_text m = Inr ts" "dict_get m k = None" "field_text (k, v) = Inr u"
  shows "\<exists>ts'. emapM field_text (dict_set k v m) = Inr ts' \<and> sum_list (map length ts') = sum_list (map length ts) + length u \<and>
    length ts' = Suc (length ts)"
  using assms
proof (induction m arbitrary: ts)
  case (Cons e m)
  then obtain x xs where x: "field_text e = Inr x" "emapM field_text m = Inr xs" "ts = x # xs" "fst e \<noteq> k"
    by (auto simp: result_simps split: if_splits)
  show ?case
  proof (cases "k < fst e")
    case True
    with Cons.prems x show ?thesis by (cases e) auto
  next
    case False
    with x Cons obtain ts' where "emapM field_text (dict_set k v m) = Inr ts'"
      "sum_list (map length ts') = sum_list (map length xs) + length u" "length ts' = Suc (length xs)"
      by (auto split: if_splits)
    with False x show ?thesis by (cases e) auto
  qed
qed auto

lemma canonical_set:
  assumes "canonical (JObject m) = Inr t" "dict_get m k = None" "field_text (k, v) = Inr u"
  shows "\<exists>t'. canonical (JObject (dict_set k v m)) = Inr t' \<and> length t' \<le> length t + length u + 1"
proof -
  obtain ts where ts: "emapM field_text m = Inr ts" "t = ''{'' @ join ts @ ''}''"
    using assms(1) unfolding canonical_object by (auto simp: result_simps)
  obtain ts' where ts': "emapM field_text (dict_set k v m) = Inr ts'"
    "sum_list (map length ts') = sum_list (map length ts) + length u" "length ts' = Suc (length ts)"
    using emapM_field_set [OF ts(1) assms(2,3)] by blast
  have len: "length (join xs) + 1 = sum_list (map length xs) + length xs" if ne: "xs \<noteq> []" for xs
  proof -
    obtain y ys where "xs = y # ys" using ne by (cases xs) auto
    moreover have "length (concat (map (\<lambda>u. CHR '','' # u) ys)) = sum_list (map length ys) + length ys"
      by (induction ys) auto
    ultimately show ?thesis by simp
  qed
  have "length (join ts') \<le> length (join ts) + length u + 1"
  proof -
    have "ts' \<noteq> []" using ts'(3) by auto
    then show ?thesis using len [of ts'] len [of ts] ts'(2,3) by (cases "ts = []") auto
  qed
  then show ?thesis using ts'(1) ts(2) unfolding canonical_object by simp
qed

lemma canonical_bound:
  assumes "list_all (\<lambda>e. case field_text e of Inl _ \<Rightarrow> False | Inr u \<Rightarrow> length u \<le> B) m"
  shows "\<exists>t. canonical (JObject m) = Inr t \<and> length t \<le> 2 + length m * (B + 1)"
proof -
  have "\<exists>ts. emapM field_text m = Inr ts \<and> length ts = length m \<and> sum_list (map length ts) \<le> length m * B"
    using assms by (induction m) (auto split: sum.splits)
  then obtain ts where ts: "emapM field_text m = Inr ts" "length ts = length m" "sum_list (map length ts) \<le> length m * B" by blast
  then show ?thesis using length_join [of ts] unfolding canonical_object by (simp add: algebra_simps)
qed

lemmas shape_rules = obj_shape_emplace obj_shape_set obj_shape_erase obj_shape_init shape_object

lemma obj_shape_mono: "obj_shape n m \<Longrightarrow> n \<le> k \<Longrightarrow> obj_shape k m"
  by (auto simp: obj_shape_def intro: shape_mono)

lemma assessment_content_shape: "shape 20 (assessment_content a)"
proof -
  have "shape (Suc (Suc 18)) (assessment_content a)"
    unfolding assessment_content_def by (simp only: dict_init.simps) (intro shape_rules shape_atom obj_shape_Nil)
  then show ?thesis by simp
qed

lemma assessment_sendable:
  assumes "assessment_message m a e digest = Inr msg" "canonical msg = Inr t" "length t \<le> 16384"
  shows "sendable (unit_system_uid m) msg"
proof -
  obtain b i ts where b: "base m ''TIRE_HEALTH_ASSESSMENT'' = Inr b"
    and w: "wrap (dict_set ''modelConfigSha256'' (JString digest) (dict_set ''sourceEventTime'' (JString ts)
                    (dict_set ''sourceExerciseId'' (JString (ep_id e)) (dict_set ''assessmentId'' (JString i) b))))
                  (assessment_content a) = Inr msg"
    using assms(1) by (auto simp: assessment_message_def result_simps split: if_splits)
  have "obj_shape 21 b" by (rule obj_shape_mono [OF base_shape [OF b]]) simp
  moreover have "shape 21 (assessment_content a)" by (rule shape_mono [OF assessment_content_shape]) simp
  ultimately show ?thesis
    using wrap_digest(1) [OF w] assms(2,3) base_get [OF b] unfolding wrap_digest(2) [OF w]
    by (intro sendable_object [where kind = "''TIRE_HEALTH_ASSESSMENT''"]) (auto intro!: obj_shape_set simp: key_field_def)
qed

lemma event_sendable:
  assumes "event_message a = Inr msg" "canonical msg = Inr t" "length t \<le> 16384" "shape 20 a"
    and uid: "at_string a ''unitSystemUid'' = Inr uid"
  shows "sendable uid msg"
proof -
  obtain c cur m1 m2 content where c: "json_at a ''content'' = Inr c"
    and m1: "object_of (event_fields a cur) = Inr m1"
    and m2: "m2 = m1 \<or> copy_fields [''unitRole'', ''serviceVersion'', ''serviceInstance''] a m1 = Inr m2"
    and content: "object_of (event_content c) = Inr content" and w: "wrap m2 (JObject content) = Inr msg"
    using assms(1) unfolding event_message_def ebind_eq_Inr by (auto split: if_splits) blast+
  have a19: "json_at a k = Inr v \<Longrightarrow> shape 19 v" for k v using shape_at [of 19 a k v] assms(4) by simp
  then have c18: "json_at c k = Inr v \<Longrightarrow> shape 18 v" for k v using shape_at [of 18 c k v] c by simp
  have "obj_shape 19 m1" by (rule obj_shape_of [OF m1]) (auto intro: a19 simp: result_simps event_fields_def)
  then have "obj_shape 19 m2" using m2 obj_shape_copy [of _ a m1 m2 19] assms(4) by auto
  then have s2: "obj_shape 21 m2" by (rule obj_shape_mono) simp
  have "obj_shape 18 content" by (rule obj_shape_of [OF content]) (auto intro: c18 simp: event_content_def)
  then have sc: "shape 21 (JObject content)" using shape_object [of 18 content] shape_mono by simp
  have keep: "dict_get m2 k = dict_get m1 k" if "k \<notin> {''unitRole'', ''serviceVersion'', ''serviceInstance''}" for k
    using m2 that copy_fields_get(1) [of _ a m1 m2 k] by auto
  note get = object_of_get [OF m1]
  have "dict_get m2 ''messageType'' = Some (JString ''TIRE_CONDITION_BAND_CHANGED'')" "dict_get m2 ''eventId'' \<noteq> None"
    "dict_get m2 ''unitSystemUid'' = Some (JString uid)"
    using keep get(1) uid by (auto simp: event_fields_def at_string_def result_simps json_string_eq)
  then show ?thesis
    using wrap_digest(1) [OF w] assms(2,3) s2 sc unfolding wrap_digest(2) [OF w]
    by (intro sendable_object [where kind = "''TIRE_CONDITION_BAND_CHANGED''"]) (auto intro!: obj_shape_set simp: key_field_def)
qed

lemma fact_partsE:
  assumes "fact_parts m request status recorded = Inr x"
  obtains b m1 ts state content c2 where "base m ''TIRE_ADVISORY_FACT'' = Inr b"
    "copy_fields [''requestId'', ''producerEpoch'', ''sequence''] request b = Inr m1"
    "object_of (fact_content request status) = Inr content"
    "fact_parts m request status recorded =
       Inr (dict_set ''recordedAt'' (JString ts) (dict_set ''gatewayState'' (JString state) m1), JObject c2)"
    "c2 = content \<or> copy_fields [''recommendation''] request content = Inr c2"
    "at_string status ''state'' = Inr state" "validate_gateway_status status = Inr ()"
    "same_fields [''requestId'', ''producerEpoch'', ''sequence''] request status = Inr True"
    "state = ''APPLIED'' \<Longrightarrow> at_string request ''operation'' = Inr ''SET''"
    "state = ''CLEARED'' \<Longrightarrow> at_string request ''operation'' = Inr ''CLEAR''"
    "at_string request ''serviceVersion'' = Inr (service_version m)"
proof -
  note assms [unfolded fact_parts_def ebind_eq_Inr ethrow_if_Inr]
  then show thesis
  proof (elim exE conjE)
    fix u v y state z b m1 ts content robj c2
    assume *: "validate_gateway_status status = Inr u"
      "emap (\<lambda>s. service_version m \<noteq> s) (at_string request ''serviceVersion'') = Inr False"
      "emap Not (same_fields [''requestId'', ''producerEpoch'', ''sequence''] request status) = Inr False"
      "at_string status ''state'' = Inr state"
      "eany [eall [Inr (state = ''APPLIED''), emap (\<lambda>s. s \<noteq> ''SET'') (at_string request ''operation'')],
        eall [Inr (state = ''CLEARED''), emap (\<lambda>s. s \<noteq> ''CLEAR'') (at_string request ''operation'')]] = Inr False"
      "base m ''TIRE_ADVISORY_FACT'' = Inr b" "copy_fields [''requestId'', ''producerEpoch'', ''sequence''] request b = Inr m1"
      "recorded = Inr ts" "object_of (fact_content request status) = Inr content" "json_object request = Inr robj"
      "(if dict_has robj ''recommendation'' then copy_fields [''recommendation''] request content else Inr content) = Inr c2"
      "Inr (dict_set ''recordedAt'' (JString ts) (dict_set ''gatewayState'' (JString state) m1), JObject c2) = Inr x"
    show thesis
    proof (rule that)
      show "fact_parts m request status recorded =
         Inr (dict_set ''recordedAt'' (JString ts) (dict_set ''gatewayState'' (JString state) m1), JObject c2)"
        using assms *(12) by simp
      show "c2 = content \<or> copy_fields [''recommendation''] request content = Inr c2" using *(11) by (simp split: if_splits)
      show "same_fields [''requestId'', ''producerEpoch'', ''sequence''] request status = Inr True" using *(3) by (auto simp: result_simps)
      show "at_string request ''serviceVersion'' = Inr (service_version m)" using *(2) by (auto simp: result_simps)
      show "state = ''APPLIED'' \<Longrightarrow> at_string request ''operation'' = Inr ''SET''"
        "state = ''CLEARED'' \<Longrightarrow> at_string request ''operation'' = Inr ''CLEAR''"
        using *(5) by (auto simp: result_simps split: if_splits)
    qed (use * in simp_all)
  qed
qed

lemma fact_sendable:
  assumes "advisory_fact m request status now = Inr msg" "canonical msg = Inr t" "length t \<le> 16384"
    and "shape 20 request" "shape 20 status"
  shows "sendable (unit_system_uid m) msg"
proof -
  obtain x where parts: "fact_parts m request status (utc_timestamp now) = Inr x"
    using assms(1) by (auto simp: advisory_fact_def ebind_eq_Inr)
  obtain b m1 ts state content c2 where b: "base m ''TIRE_ADVISORY_FACT'' = Inr b"
    and m1: "copy_fields [''requestId'', ''producerEpoch'', ''sequence''] request b = Inr m1"
    and content: "object_of (fact_content request status) = Inr content"
    and p: "fact_parts m request status (utc_timestamp now) =
      Inr (dict_set ''recordedAt'' (JString ts) (dict_set ''gatewayState'' (JString state) m1), JObject c2)"
    and c2: "c2 = content \<or> copy_fields [''recommendation''] request content = Inr c2"
    by (rule fact_partsE [OF parts])
  have w: "wrap (dict_set ''recordedAt'' (JString ts) (dict_set ''gatewayState'' (JString state) m1)) (JObject c2) = Inr msg"
    using assms(1) by (simp add: advisory_fact_def p)
  have r19: "json_at request k = Inr v \<Longrightarrow> shape 19 v" for k v using shape_at [of 19 request k v] assms(4) by simp
  have s19: "json_at status k = Inr v \<Longrightarrow> shape 19 v" for k v using shape_at [of 19 status k v] assms(5) by simp
  have "obj_shape 19 b" by (rule obj_shape_mono [OF base_shape [OF b]]) simp
  then have "obj_shape 19 m1" using obj_shape_copy [OF m1] assms(4) by simp
  then have s1: "obj_shape 21 m1" by (rule obj_shape_mono) simp
  have "obj_shape 19 content" by (rule obj_shape_of [OF content]) (auto intro: r19 s19 simp: fact_content_def)
  then have "obj_shape 19 c2" using c2 obj_shape_copy [of _ request content c2 19] assms(4) by auto
  then have sc: "shape 21 (JObject c2)" using shape_object [of 19 c2] shape_mono by simp
  have keep: "dict_get m1 k = dict_get b k" if "k \<notin> {''requestId'', ''producerEpoch'', ''sequence''}" for k
    using that copy_fields_get(1) [OF m1] by auto
  have id: "\<exists>v. dict_get m1 ''requestId'' = Some v" using copy_fields_get(2) [OF m1, of "''requestId''"] by auto
  have "dict_get m1 ''messageType'' = Some (JString ''TIRE_ADVISORY_FACT'')"
    "dict_get m1 ''unitSystemUid'' = Some (JString (unit_system_uid m))"
    using base_get(1,2) [OF b] keep [of "''messageType''"] keep [of "''unitSystemUid''"] by simp_all
  then show ?thesis
    using wrap_digest(1) [OF w] assms(2,3) s1 sc id unfolding wrap_digest(2) [OF w]
    by (intro sendable_object [where kind = "''TIRE_ADVISORY_FACT''"]) (auto intro!: obj_shape_set simp: key_field_def)
qed

section \<open>Properties\<close>

text \<open>A request to clear, the answer of the gateway to it, and the fact that is recorded.\<close>

definition demo_metadata :: Metadata where
  "demo_metadata =
     \<lparr>unit_system_uid = ''unit-7'', unit_role = ''VALIDATION'', service_version = ''1.2.0'', service_artifact_sha256 = ''a'',
      vdp_contract_version = ''3.0.0'', vdp_contract_sha256 = ''b'', service_instance = None\<rparr>"

definition demo_request :: json where
  "demo_request = JObject
     [(''decisionId'', JString ''3f2504e0-4f89-41d3-9a0c-0305e82c3301''), (''expiresAt'', JString ''e''), (''issuedAt'', JString ''i''),
      (''operation'', JString ''CLEAR''), (''producerEpoch'', JString ''3f2504e0-4f89-41d3-9a0c-0305e82c3301''),
      (''reasonCode'', JString ''CONDITION_CLEARED''), (''requestId'', JString ''6ba7b810-9dad-51d1-80b4-00c04fd430c8''),
      (''sequence'', JInt 4), (''serviceVersion'', JString ''1.2.0'')]"

definition demo_status :: json where
  "demo_status = JObject
     [(''activeReasonCode'', JString ''NONE''), (''activeRecommendation'', JString ''NONE''), (''activeUntil'', JNull),
      (''gatewayObservedAt'', JString ''2026-01-02T03:04:05.678Z''), (''producerEpoch'', JString ''3f2504e0-4f89-41d3-9a0c-0305e82c3301''),
      (''reason'', JString ''NONE''), (''requestId'', JString ''6ba7b810-9dad-51d1-80b4-00c04fd430c8''),
      (''schemaVersion'', JInt 1), (''sequence'', JInt 4), (''state'', JString ''CLEARED'')]"

definition demo_envelope :: "(string, json) dict" where
  "demo_envelope =
     [(''contractVersion'', JString ''1.0.0''), (''gatewayState'', JString ''CLEARED''),
      (''messageType'', JString ''TIRE_ADVISORY_FACT''), (''producerEpoch'', JString ''3f2504e0-4f89-41d3-9a0c-0305e82c3301''),
      (''recordedAt'', JString ''1970-01-01T00:00:05.000Z''), (''requestId'', JString ''6ba7b810-9dad-51d1-80b4-00c04fd430c8''),
      (''schemaVersion'', JInt 1), (''sequence'', JInt 4), (''serviceArtifactSha256'', JString ''a''),
      (''serviceVersion'', JString ''1.2.0''), (''unitRole'', JString ''VALIDATION''), (''unitSystemUid'', JString ''unit-7''),
      (''vdpContractSha256'', JString ''b''), (''vdpContractVersion'', JString ''3.0.0'')]"

definition demo_content :: "(string, json) dict" where
  "demo_content =
     [(''activeReasonCode'', JString ''NONE''), (''activeRecommendation'', JString ''NONE''), (''activeUntil'', JNull),
      (''assessmentId'', JString ''3f2504e0-4f89-41d3-9a0c-0305e82c3301''), (''expiresAt'', JString ''e''),
      (''gatewayObservedAt'', JString ''2026-01-02T03:04:05.678Z''), (''gatewayReason'', JString ''NONE''),
      (''issuedAt'', JString ''i''), (''operation'', JString ''CLEAR''), (''reasonCode'', JString ''CONDITION_CLEARED'')]"

lemma demo_parts:
  "fact_parts demo_metadata demo_request demo_status (Inr ''1970-01-01T00:00:05.000Z'') = Inr (demo_envelope, JObject demo_content)"
  by code_simp

definition short_field :: "string \<times> json \<Rightarrow> bool" where
  "short_field e = (case field_text e of Inl _ \<Rightarrow> False | Inr u \<Rightarrow> length u \<le> 100)"

lemma short_string:
  "list_all plain_char k \<Longrightarrow> list_all plain_char v \<Longrightarrow> ascii_key k \<Longrightarrow> length k + length v \<le> 95 \<Longrightarrow> short_field (k, JString v)"
  by (simp add: short_field_def field_text_def quote_json_plain)

lemma short_other:
  "list_all plain_char k \<Longrightarrow> ascii_key k \<Longrightarrow> length k \<le> 80 \<Longrightarrow> short_field (k, JNull)"
  "list_all plain_char k \<Longrightarrow> ascii_key k \<Longrightarrow> length k \<le> 80 \<Longrightarrow> 0 \<le> i \<Longrightarrow> i < 10 \<Longrightarrow> short_field (k, JInt i)"
  by (simp_all add: short_field_def field_text_def quote_json_plain show_int_def show_nat.simps)

lemma demo_short: "list_all short_field demo_envelope" "list_all short_field demo_content"
  unfolding demo_envelope_def demo_content_def list.pred_inject
  by (intro conjI TrueI short_string short_other; simp add: plain_char_def byte_def ascii_key_def)+

lemma demo_time: "utc_timestamp 5000 = Inr ''1970-01-01T00:00:05.000Z''"
proof -
  have "civil_year 1970 0 = (1970, 0)" by (simp add: civil_year.simps year_days_def)
  moreover have "civil_month 11 1970 1 0 = (1, 0)" "padded_nat 2 0 = ''00''" "padded_nat 2 1 = ''01''" "padded_nat 2 5 = ''05''"
    "padded_nat 3 0 = ''000''" "show_int 1970 = ''1970''" by code_simp+
  ultimately show ?thesis by (simp add: utc_timestamp_def strftime_def)
qed

lemma demo_fact:
  "\<exists>msg t. advisory_fact demo_metadata demo_request demo_status 5000 = Inr msg \<and> canonical msg = Inr t \<and> length t \<le> 16384"
proof -
  let ?m = demo_envelope and ?d = demo_content
  have p: "dict_get ?m ''contentSha256'' = None" "dict_get ?m ''content'' = None" "length ?m \<le> 20" "length ?d \<le> 20"
    by (simp_all add: demo_envelope_def demo_content_def)
  have small: "\<exists>t. canonical (JObject x) = Inr t \<and> length t \<le> 2022" if x: "length x \<le> 20" "list_all short_field x" for x
  proof -
    obtain t where "canonical (JObject x) = Inr t" "length t \<le> 2 + length x * 101"
      using canonical_bound [of 100 x] x(2) unfolding short_field_def [abs_def] by auto
    moreover have "length x * 101 \<le> 2020" using x(1) by simp
    ultimately show ?thesis by auto
  qed
  obtain tm tc where t: "canonical (JObject ?m) = Inr tm" "length tm \<le> 2022" "canonical (JObject ?d) = Inr tc" "length tc \<le> 2022"
    using small [OF p(3) demo_short(1)] small [OF p(4) demo_short(2)] by blast
  have q: "quote_json ''content'' = Inr (chr 34 # ''content'' @ [chr 34])" "ascii_key ''content''"
    "quote_json ''contentSha256'' = Inr (chr 34 # ''contentSha256'' @ [chr 34])" "ascii_key ''contentSha256''" by code_simp+
  have "\<exists>u. field_text (''content'', JObject ?d) = Inr u \<and> length u < 2050" using q t(3,4) by (simp add: field_text_def del: canonical.simps)
  then obtain t2 where t2: "canonical (JObject (dict_set ''content'' (JObject ?d) ?m)) = Inr t2" "length t2 \<le> 4100"
    using canonical_set [OF t(1) p(2)] t(2) by fastforce
  have "quote_json (sha256_hex tc) = Inr (chr 34 # sha256_hex tc @ [chr 34])" "length (sha256_hex tc) = 64"
    using sha256_hex_is_sha256 [of tc] by (auto simp: is_sha256_def list_all_iff intro!: quote_json_plain lower_hex_plain)
  with q obtain u where u: "field_text (''contentSha256'', JString (sha256_hex tc)) = Inr u" "length u < 100"
    by (simp add: field_text_def)
  have none: "dict_get (dict_set ''content'' (JObject ?d) ?m) ''contentSha256'' = None" using p(1) by simp
  obtain t3 where t3: "canonical (JObject (dict_set ''contentSha256'' (JString (sha256_hex tc)) (dict_set ''content'' (JObject ?d) ?m))) = Inr t3"
    "length t3 \<le> length t2 + length u + 1"
    using canonical_set [OF t2(1) none u(1)] by blast
  have "advisory_fact demo_metadata demo_request demo_status 5000 =
      Inr (JObject (dict_set ''contentSha256'' (JString (sha256_hex tc)) (dict_set ''content'' (JObject ?d) ?m)))"
    unfolding advisory_fact_def demo_time demo_parts wrap_def ebind_Inr prod.case t(3) ..
  moreover have "length t3 \<le> 16384" using t3(2) t2(2) u(2) by simp
  ultimately show ?thesis using t3(1) by blast
qed

text \<open>C37: An advisory fact is recorded only for a well-formed answer to this very request: the identifier, the
  producer epoch and the sequence agree, \<^verbatim>\<open>APPLIED\<close> answers only a request to set and \<^verbatim>\<open>CLEARED\<close> only one to
  clear, and the fact names the gateway state and the request it belongs to.\<close>

theorem advisory_fact_correlated:
  assumes "advisory_fact m request status now = Inr msg"
  shows "validate_gateway_status status = Inr () \<and>
    same_fields [''requestId'', ''producerEpoch'', ''sequence''] request status = Inr True \<and>
    (\<exists>state. at_string status ''state'' = Inr state \<and> at_string msg ''gatewayState'' = Inr state \<and>
      (state = ''APPLIED'' \<longrightarrow> at_string request ''operation'' = Inr ''SET'') \<and>
      (state = ''CLEARED'' \<longrightarrow> at_string request ''operation'' = Inr ''CLEAR'')) \<and>
    json_at msg ''requestId'' = json_at request ''requestId'' \<and> json_at msg ''sequence'' = json_at request ''sequence''"
proof -
  obtain x where parts: "fact_parts m request status (utc_timestamp now) = Inr x"
    using assms by (auto simp: advisory_fact_def ebind_eq_Inr)
  show ?thesis
  proof (rule fact_partsE [OF parts])
    fix b m1 ts state content c2
    assume m1: "copy_fields [''requestId'', ''producerEpoch'', ''sequence''] request b = Inr m1"
      and p: "fact_parts m request status (utc_timestamp now) =
        Inr (dict_set ''recordedAt'' (JString ts) (dict_set ''gatewayState'' (JString state) m1), JObject c2)"
      and rest: "at_string status ''state'' = Inr state" "validate_gateway_status status = Inr ()"
        "same_fields [''requestId'', ''producerEpoch'', ''sequence''] request status = Inr True"
        "state = ''APPLIED'' \<Longrightarrow> at_string request ''operation'' = Inr ''SET''"
        "state = ''CLEARED'' \<Longrightarrow> at_string request ''operation'' = Inr ''CLEAR''"
    have "wrap (dict_set ''recordedAt'' (JString ts) (dict_set ''gatewayState'' (JString state) m1)) (JObject c2) = Inr msg"
      using assms by (simp add: advisory_fact_def p)
    note f = wrap_digest(2) [OF this]
    obtain v w where "json_at request ''requestId'' = Inr v" "dict_get m1 ''requestId'' = Some v"
      "json_at request ''sequence'' = Inr w" "dict_get m1 ''sequence'' = Some w"
      using copy_fields_get(2) [OF m1, of "''requestId''"] copy_fields_get(2) [OF m1, of "''sequence''"] by auto
    then show ?thesis using rest unfolding f by (simp add: at_string_def dict_at_def)
  qed
qed

theorem advisory_fact_correlated_witness:
  "\<exists>msg. advisory_fact demo_metadata demo_request demo_status 5000 = Inr msg \<and>
     json_at msg ''requestId'' = json_at demo_request ''requestId''"
  using demo_fact advisory_fact_correlated by metis

end
