(* ===== verification/Observation.thy ===== *)
theory Observation
  imports Messages
begin

text \<open>
  \<^verbatim>\<open>include/aosedge/function_observation.hpp\<close>, instantiated with the codec of
  \<^verbatim>\<open>function_observation.hpp\<close>: the checks of an observation, and \<^verbatim>\<open>FunctionFacts\<close>, the in-memory snapshot
  of what the function is doing, which the runtime updates and the delivery worker reports.
\<close>

section \<open>Checks\<close>

definition OBSERVATION_UNAVAILABLE :: exn where
  "OBSERVATION_UNAVAILABLE = RuntimeError ''FUNCTION_OBSERVATION_UNAVAILABLE''"

definition ofail_if :: "bool result \<Rightarrow> unit result" where
  "ofail_if b = ethrow_if b OBSERVATION_UNAVAILABLE"

fun check_members :: "json \<Rightarrow> string list \<Rightarrow> unit result" where
  "check_members v [] = Inr ()"
| "check_members v (k # ks) = ebind (json_at v k) (\<lambda>_. check_members v ks)"

definition check_keys :: "json \<Rightarrow> string list \<Rightarrow> unit result" where
  "check_keys v ks = ebind (ofail_if (emap (\<lambda>n. n \<noteq> int (length ks)) (object_size v))) (\<lambda>_. check_members v ks)"

definition check_pick :: "json \<Rightarrow> string list \<Rightarrow> unit result" where
  "check_pick v ss = ofail_if (emap (\<lambda>s. s \<notin> set ss) (json_string v))"

definition id_char :: "char \<Rightarrow> bool" where
  "id_char c = (is_alnum c \<or> c \<in> {CHR ''_'', CHR ''.'', CHR '':'', CHR ''-''})"

definition check_id :: "json \<Rightarrow> unit result" where
  "check_id v =
     ofail_if (emap (\<lambda>s. s = [] \<or> length s > 128 \<or> \<not> is_alnum (hd s) \<or> \<not> list_all id_char s) (json_string v))"

definition maximum_integer :: int where
  "maximum_integer = 9007199254740991"

definition check_integer :: "json \<Rightarrow> bool \<Rightarrow> unit result" where
  "check_integer v positive =
     ofail_if (emap (\<lambda>n. n < (if positive then 1 else 0) \<or> n > maximum_integer) (json_integer v))"

text \<open>The parts of a version number: \<open>i\<close> counts them, \<open>rest\<close> starts at \<^verbatim>\<open>begin\<close>.\<close>

fun split_at_dot :: "string \<Rightarrow> string \<Rightarrow> string \<times> string option" where
  "split_at_dot part [] = (part, None)"
| "split_at_dot part (c # s) = (if c = CHR ''.'' then (part, Some s) else split_at_dot (part @ [c]) s)"

definition part_bad :: "nat \<Rightarrow> string \<Rightarrow> string option \<Rightarrow> bool" where
  "part_bad i part rest =
     (part = [] \<or> (length part > 1 \<and> hd part = CHR ''0'') \<or> (i = 2) \<noteq> (rest = None) \<or> \<not> list_all is_digit part)"

definition version_bad :: "string \<Rightarrow> bool" where
  "version_bad s =
     (s = [] \<or> length s > 32 \<or>
      (case split_at_dot [] s of (a, ra) \<Rightarrow> part_bad 0 a ra \<or>
        (case split_at_dot [] (the ra) of (b, rb) \<Rightarrow> part_bad 1 b rb \<or>
          (case split_at_dot [] (the rb) of (c, rc) \<Rightarrow> part_bad 2 c rc))))"

definition check_version :: "json \<Rightarrow> unit result" where
  "check_version v = ofail_if (emap version_bad (json_string v))"

text \<open>\<^verbatim>\<open>n(p, length)\<close>: the decimal number at a position, or none if a character is not a digit.\<close>

definition number_part :: "string \<Rightarrow> nat \<Rightarrow> nat \<Rightarrow> int option" where
  "number_part s p n =
     (let ds = take n (drop p s)
      in if list_all is_digit ds then Some (foldl (\<lambda>v c. v * 10 + int (byte c) - 48) 0 ds) else None)"

definition day_limit :: "int \<Rightarrow> int \<Rightarrow> int" where
  "day_limit y m =
     [0, 31, 28, 31, 30, 31, 30, 31, 31, 30, 31, 30, 31] ! nat m +
     (if m = 2 \<and> y mod 4 = 0 \<and> (y mod 100 \<noteq> 0 \<or> y mod 400 = 0) then 1 else 0)"

definition instant_bad :: "string \<Rightarrow> bool" where
  "instant_bad s =
     (length s \<noteq> 24 \<or> s ! 4 \<noteq> CHR ''-'' \<or> s ! 7 \<noteq> CHR ''-'' \<or> s ! 10 \<noteq> CHR ''T'' \<or> s ! 13 \<noteq> CHR '':'' \<or>
      s ! 16 \<noteq> CHR '':'' \<or> s ! 19 \<noteq> CHR ''.'' \<or> s ! 23 \<noteq> CHR ''Z'' \<or>
      (case (number_part s 0 4, number_part s 5 2, number_part s 8 2, number_part s 11 2, number_part s 14 2,
             number_part s 17 2, number_part s 20 3) of
         (Some y, Some m, Some d, Some h, Some mi, Some sec, Some ms) \<Rightarrow>
           m < 1 \<or> m > 12 \<or> d < 1 \<or> d > day_limit y m \<or> h > 23 \<or> mi > 59 \<or> sec > 59
       | _ \<Rightarrow> True))"

definition check_instant :: "json \<Rightarrow> unit result" where
  "check_instant v = ofail_if (emap instant_bad (json_string v))"

definition unless_null :: "json \<Rightarrow> (json \<Rightarrow> unit result) \<Rightarrow> unit result" where
  "unless_null v f = (if is_null v then Inr () else f v)"

section \<open>The content of an observation\<close>

definition connection_states :: "string list" where
  "connection_states = [''STARTING'', ''CONNECTED'', ''REAUTHENTICATING'', ''DISCONNECTED'', ''ACCESS_DENIED'']"

definition input_states :: "string list" where
  "input_states = [''WAITING'', ''RECEIVING'', ''STALE'', ''DISCONNECTED'', ''ACCESS_DENIED'', ''INVALID'']"

definition input_reasons :: "string list" where
  "input_reasons = [''NONE'', ''AWAITING_INPUT'', ''SOURCE_GAP'', ''INVALID_SAMPLE'', ''TRANSPORT_LOST'', ''ACCESS_DENIED'', ''REAUTHENTICATING'']"

definition activity_states :: "string list" where
  "activity_states = [''WAITING'', ''PRE'', ''ACTIVE'', ''POST'', ''COMPLETED'', ''SKIPPED'']"

definition activity_reasons :: "string list" where
  "activity_reasons =
     [''NONE'', ''NOT_QUALIFIED'', ''INSUFFICIENT_SAMPLES'', ''INVALID_INPUT'', ''SOURCE_DISCONTINUITY'', ''REAUTHENTICATING'',
      ''RESET'', ''STORAGE_UNAVAILABLE'']"

definition delivery_states :: "string list" where
  "delivery_states = [''IDLE'', ''PENDING'', ''RETRYING'', ''BLOCKED'']"

definition advisory_states :: "string list" where
  "advisory_states = [''NOT_SUPPORTED'', ''WAITING'', ''CONFIRMED'', ''UNAVAILABLE'', ''REAUTHENTICATING'']"

definition check_input :: "json \<Rightarrow> unit result" where
  "check_input v =
     ebind (check_keys v [''state'', ''reason'']) (\<lambda>_.
     ebind (ebind (json_at v ''state'') (\<lambda>x. check_pick x
       input_states)) (\<lambda>_.
     ebind (ebind (json_at v ''reason'') (\<lambda>x. check_pick x
       input_reasons)) (\<lambda>_.
       ofail_if (ebind (at_string v ''state'') (\<lambda>s. emap (\<lambda>r. (s = ''RECEIVING'') \<noteq> (r = ''NONE'')) (at_string v ''reason''))))))"

definition check_activity :: "json \<Rightarrow> unit result" where
  "check_activity v =
     ebind (check_keys v [''state'', ''reason'', ''episodeId'']) (\<lambda>_.
     ebind (ebind (json_at v ''state'') (\<lambda>x. check_pick x activity_states)) (\<lambda>_.
     ebind (ebind (json_at v ''reason'') (\<lambda>x. check_pick x
       activity_reasons)) (\<lambda>_.
     ebind (ebind (json_at v ''episodeId'') (\<lambda>x. unless_null x check_id)) (\<lambda>_.
       ofail_if (eall [emap (\<lambda>s. s = ''SKIPPED'') (at_string v ''state''), emap (\<lambda>r. r = ''NONE'') (at_string v ''reason'')])))))"

definition check_delivery :: "json \<Rightarrow> unit result" where
  "check_delivery v =
     ebind (check_keys v [''state'', ''queuedMessages'', ''lastReceiptAt'']) (\<lambda>_.
     ebind (ebind (json_at v ''state'') (\<lambda>x. check_pick x delivery_states)) (\<lambda>_.
     ebind (ebind (json_at v ''queuedMessages'') (\<lambda>x. check_integer x False)) (\<lambda>_.
       ebind (json_at v ''lastReceiptAt'') (\<lambda>x. unless_null x check_instant))))"

definition check_advisory :: "json \<Rightarrow> string \<Rightarrow> bool \<Rightarrow> unit result" where
  "check_advisory v profile brake =
     ebind (check_keys v [''state'', ''requestId'']) (\<lambda>_.
     ebind (ebind (json_at v ''state'') (\<lambda>x. check_pick x advisory_states)) (\<lambda>_.
     ebind (ebind (json_at v ''requestId'') (\<lambda>x. unless_null x check_id)) (\<lambda>_.
     ebind (ofail_if (eall [emap (\<lambda>s. s = ''CONFIRMED'') (at_string v ''state''), null_at v ''requestId''])) (\<lambda>_.
       if brake \<and> profile \<noteq> ''v3''
       then ofail_if (eany [emap (\<lambda>s. s \<noteq> ''NOT_SUPPORTED'') (at_string v ''state''), emap Not (null_at v ''requestId'')])
       else ofail_if (emap (\<lambda>s. s = ''NOT_SUPPORTED'') (at_string v ''state''))))))"

definition check_result :: "json \<Rightarrow> unit result" where
  "check_result v =
     ebind (check_keys v [''kind'', ''id'', ''sourceTime'', ''serviceVersion'']) (\<lambda>_.
     ebind (ebind (json_at v ''kind'') (\<lambda>x. check_pick x [''WINDOW'', ''ASSESSMENT''])) (\<lambda>_.
     ebind (ebind (json_at v ''id'') check_id) (\<lambda>_.
     ebind (ebind (json_at v ''sourceTime'') check_instant) (\<lambda>_.
       ebind (json_at v ''serviceVersion'') check_version))))"

definition check_content :: "json \<Rightarrow> string \<Rightarrow> bool \<Rightarrow> unit result" where
  "check_content c profile brake =
     ebind (check_keys c [''connection'', ''input'', ''activity'', ''delivery'', ''advisory'', ''lastResult'']) (\<lambda>_.
     ebind (ebind (json_at c ''connection'') (\<lambda>x. check_pick x
       connection_states)) (\<lambda>_.
     ebind (ebind (json_at c ''input'') check_input) (\<lambda>_.
     ebind (ebind (json_at c ''activity'') check_activity) (\<lambda>_.
     ebind (ebind (json_at c ''delivery'') check_delivery) (\<lambda>_.
     ebind (ebind (json_at c ''advisory'') (\<lambda>v. check_advisory v profile brake)) (\<lambda>_.
       ebind (json_at c ''lastResult'') (\<lambda>v. unless_null v check_result)))))))"

section \<open>FunctionFacts\<close>

definition string_or_null :: "string option \<Rightarrow> json" where
  "string_or_null x = (case x of None \<Rightarrow> JNull | Some s \<Rightarrow> JString s)"

definition initial_facts :: "bool \<Rightarrow> json" where
  "initial_facts supports =
     JObject (dict_init
       [(''connection'', JString ''STARTING''),
        (''input'', JObject (dict_init [(''state'', JString ''WAITING''), (''reason'', JString ''AWAITING_INPUT'')] [])),
        (''activity'', JObject (dict_init [(''state'', JString ''WAITING''), (''reason'', JString ''NOT_QUALIFIED''), (''episodeId'', JNull)] [])),
        (''delivery'', JObject (dict_init [(''state'', JString ''IDLE''), (''queuedMessages'', JInt 0), (''lastReceiptAt'', JNull)] [])),
        (''advisory'', JObject (dict_init [(''state'', JString (if supports then ''WAITING'' else ''NOT_SUPPORTED'')), (''requestId'', JNull)] [])),
        (''lastResult'', JNull)] [])"

text \<open>\<^verbatim>\<open>auto v = value_.object(); v[k] = j; value_ = J{v};\<close>\<close>

definition put_field :: "string \<Rightarrow> json \<Rightarrow> json \<Rightarrow> json result" where
  "put_field k j v = emap (\<lambda>m. JObject (dict_set k j m)) (json_object v)"

definition facts_input :: "string \<Rightarrow> string \<Rightarrow> string \<Rightarrow> json \<Rightarrow> json result" where
  "facts_input connection state reason v =
     ebind (put_field ''connection'' (JString connection) v)
       (put_field ''input'' (JObject (dict_init [(''state'', JString state), (''reason'', JString reason)] [])))"

definition facts_activity :: "string \<Rightarrow> string \<Rightarrow> string option \<Rightarrow> json \<Rightarrow> json result" where
  "facts_activity state reason i v =
     put_field ''activity'' (JObject (dict_init
       [(''state'', JString state), (''reason'', JString reason), (''episodeId'', string_or_null i)] [])) v"

definition facts_interruption :: "string \<Rightarrow> json \<Rightarrow> json result" where
  "facts_interruption reason v =
     ebind (json_at v ''activity'') (\<lambda>a.
     ebind (at_string a ''state'') (\<lambda>phase.
     if phase \<notin> set [''ACTIVE'', ''POST'', ''PRE''] then Inr v else
     ebind (json_at a ''episodeId'') (\<lambda>i.
     if is_null i then facts_activity ''SKIPPED'' reason None v
     else ebind (json_string i) (\<lambda>s. facts_activity ''SKIPPED'' reason (Some s) v))))"

definition facts_advisory :: "bool \<Rightarrow> string \<Rightarrow> string option \<Rightarrow> json \<Rightarrow> json result" where
  "facts_advisory supports state request v =
     (if \<not> supports then Inr v
      else put_field ''advisory'' (JObject (dict_init [(''state'', JString state), (''requestId'', string_or_null request)] [])) v)"

definition facts_result :: "string \<Rightarrow> string \<Rightarrow> string \<Rightarrow> string \<Rightarrow> json \<Rightarrow> json result" where
  "facts_result kind i source version v =
     put_field ''lastResult'' (JObject (dict_init
       [(''kind'', JString kind), (''id'', JString i), (''sourceTime'', JString source), (''serviceVersion'', JString version)] [])) v"

text \<open>The receipt time is taken over only if all of it succeeds: \<^verbatim>\<open>catch(...) {}\<close>.\<close>

definition receipt_time :: "string \<Rightarrow> json result" where
  "receipt_time receipt =
     ebind (parse_json receipt 8192) (\<lambda>a.
     ebind (json_at a ''receivedAt'') (\<lambda>t. emap (\<lambda>_. t) (check_instant t)))"

definition facts_delivery :: "bool \<Rightarrow> int \<Rightarrow> string \<Rightarrow> json \<Rightarrow> json result" where
  "facts_delivery accepted status receipt v =
     ebind (json_object v) (\<lambda>m.
     ebind (ebind (dict_at m ''delivery'') json_object) (\<lambda>d.
       let d1 = dict_set ''state'' (JString (if accepted then ''PENDING''
                  else if status = 0 \<or> status = 408 \<or> status = 429 \<or> status \<ge> 500 then ''RETRYING'' else ''BLOCKED'')) d;
           d2 = (if accepted then (case receipt_time receipt of Inr t \<Rightarrow> dict_set ''lastReceiptAt'' t d1 | Inl _ \<Rightarrow> d1) else d1)
       in Inr (JObject (dict_set ''delivery'' (JObject d2) m))))"

definition facts_snapshot :: "nat \<Rightarrow> bool \<Rightarrow> json \<Rightarrow> json result" where
  "facts_snapshot queued_messages blocked v =
     ebind (json_object v) (\<lambda>m.
     ebind (ebind (dict_at m ''delivery'') json_object) (\<lambda>d.
       let d1 = dict_set ''queuedMessages'' (JInt (int queued_messages)) d
       in ebind (if blocked then Inr (dict_set ''state'' (JString ''BLOCKED'') d1)
                 else if queued_messages = 0 then Inr (dict_set ''state'' (JString ''IDLE'') d1)
                 else ebind (ebind (dict_at d1 ''state'') json_string) (\<lambda>s.
                   Inr (if s = ''IDLE'' then dict_set ''state'' (JString ''PENDING'') d1 else d1))) (\<lambda>d2.
            Inr (JObject (dict_set ''delivery'' (JObject d2) m)))))"


section \<open>The snapshot is always reportable\<close>

lemma is_null_simps [simp]: "is_null JNull" "\<not> is_null (JString s)" "\<not> is_null (JObject m)" "\<not> is_null (JInt n)"
  by (simp_all add: is_null_def)

text \<open>The shape the setters keep.\<close>

definition facts_of :: "json \<Rightarrow> json \<Rightarrow> json \<Rightarrow> json \<Rightarrow> json \<Rightarrow> json \<Rightarrow> json" where
  "facts_of a b c d i r =
     JObject [(''activity'', a), (''advisory'', b), (''connection'', c), (''delivery'', d), (''input'', i), (''lastResult'', r)]"

lemma json_object_eq: "json_object v = Inr m \<longleftrightarrow> v = JObject m"
  by (cases v) (auto simp: invalid_def)

lemma json_array_eq: "json_array v = Inr xs \<longleftrightarrow> v = JArray xs"
  by (cases v) (auto simp: invalid_def)

lemma put_field_get: "put_field k j v = Inr v' \<Longrightarrow> \<exists>nx. v = JObject nx \<and> v' = JObject (dict_set k j nx)"
  by (auto simp: put_field_def emap_eq_Inr json_object_eq)

lemma facts_of_access [simp]:
  "json_at (facts_of a b c d i r) ''activity'' = Inr a" "json_at (facts_of a b c d i r) ''advisory'' = Inr b"
  "json_at (facts_of a b c d i r) ''connection'' = Inr c" "json_at (facts_of a b c d i r) ''delivery'' = Inr d"
  "json_at (facts_of a b c d i r) ''input'' = Inr i" "json_at (facts_of a b c d i r) ''lastResult'' = Inr r"
  "object_size (facts_of a b c d i r) = Inr 6"
  by (simp_all add: facts_of_def dict_at_def object_size_def)

lemma facts_of_put [simp]:
  "put_field ''activity'' x (facts_of a b c d i r) = Inr (facts_of x b c d i r)"
  "put_field ''advisory'' x (facts_of a b c d i r) = Inr (facts_of a x c d i r)"
  "put_field ''connection'' x (facts_of a b c d i r) = Inr (facts_of a b x d i r)"
  "put_field ''delivery'' x (facts_of a b c d i r) = Inr (facts_of a b c x i r)"
  "put_field ''input'' x (facts_of a b c d i r) = Inr (facts_of a b c d x r)"
  "put_field ''lastResult'' x (facts_of a b c d i r) = Inr (facts_of a b c d i x)"
  by (simp_all add: facts_of_def put_field_def less_list_code less_char_def)

definition connection_ok :: "json \<Rightarrow> bool" where
  "connection_ok c \<longleftrightarrow> check_pick c connection_states = Inr ()"

text \<open>A delivery snapshot is an object of its three fields.\<close>

definition delivery_of :: "json \<Rightarrow> json \<Rightarrow> json \<Rightarrow> json" where
  "delivery_of l q s = JObject [(''lastReceiptAt'', l), (''queuedMessages'', q), (''state'', s)]"

definition activity_of :: "json \<Rightarrow> json \<Rightarrow> json \<Rightarrow> json" where
  "activity_of e r s = JObject [(''episodeId'', e), (''reason'', r), (''state'', s)]"

definition facts_ok :: "json \<Rightarrow> bool" where
  "facts_ok v \<longleftrightarrow>
     (\<exists>e ar as b c l q s i r. v = facts_of (activity_of e ar as) b c (delivery_of l q s) i r \<and>
        check_content v ''v1'' False = Inr ())"

lemma check_content_facts:
  "check_content (facts_of a b c d i r) ''v1'' False = Inr () \<longleftrightarrow>
     connection_ok c \<and> check_input i = Inr () \<and> check_activity a = Inr () \<and> check_delivery d = Inr () \<and>
     check_advisory b ''v1'' False = Inr () \<and> unless_null r check_result = Inr ()"
  by (auto simp: check_content_def check_keys_def ofail_if_def connection_ok_def ebind_eq_Inr)

lemma facts_okI:
  assumes "connection_ok c" "check_input i = Inr ()" "check_activity (activity_of e ar as) = Inr ()"
    "check_delivery (delivery_of l q s) = Inr ()" "check_advisory b ''v1'' False = Inr ()" "unless_null r check_result = Inr ()"
  shows "facts_ok (facts_of (activity_of e ar as) b c (delivery_of l q s) i r)"
  unfolding facts_ok_def check_content_facts using assms by blast

lemma facts_okE:
  assumes "facts_ok v"
  obtains e ar as b c l q s i r where "v = facts_of (activity_of e ar as) b c (delivery_of l q s) i r" "connection_ok c"
    "check_input i = Inr ()" "check_activity (activity_of e ar as) = Inr ()" "check_delivery (delivery_of l q s) = Inr ()"
    "check_advisory b ''v1'' False = Inr ()" "unless_null r check_result = Inr ()"
  using assms unfolding facts_ok_def by (auto simp: check_content_facts)


text \<open>Members of the closed vocabularies.\<close>

lemmas vocabulary_defs = connection_states_def input_states_def input_reasons_def activity_states_def activity_reasons_def
  delivery_states_def advisory_states_def

lemma two_fields:
  "dict_emplace ''reason'' y (dict_emplace ''state'' x []) = [(''reason'', y), (''state'', x)]"
  "dict_emplace ''requestId'' y (dict_emplace ''state'' x []) = [(''requestId'', y), (''state'', x)]"
  by (simp_all add: dict_emplace_def dict_has_def less_list_code less_char_def)

lemma three_fields:
  "dict_emplace ''episodeId'' z (dict_emplace ''reason'' y (dict_emplace ''state'' x [])) =
     [(''episodeId'', z), (''reason'', y), (''state'', x)]"
  by (simp add: dict_emplace_def dict_has_def less_list_code less_char_def)

lemma activity_access [simp]:
  "json_at (activity_of e r s) ''episodeId'' = Inr e" "json_at (activity_of e r s) ''reason'' = Inr r"
  "json_at (activity_of e r s) ''state'' = Inr s" "object_size (activity_of e r s) = Inr 3"
  by (simp_all add: activity_of_def dict_at_def object_size_def)

lemma delivery_access [simp]:
  "json_at (delivery_of l q s) ''lastReceiptAt'' = Inr l" "json_at (delivery_of l q s) ''queuedMessages'' = Inr q"
  "json_at (delivery_of l q s) ''state'' = Inr s" "object_size (delivery_of l q s) = Inr 3"
  by (simp_all add: delivery_of_def dict_at_def object_size_def)

lemma check_pick_iff: "check_pick v ss = Inr () \<longleftrightarrow> (\<exists>s. v = JString s \<and> s \<in> set ss)"
  by (auto simp: check_pick_def ofail_if_def result_simps json_string_eq)

lemma check_id_string: "check_id v = Inr () \<Longrightarrow> \<exists>s. v = JString s"
  by (auto simp: check_id_def ofail_if_def result_simps json_string_eq)

lemma check_activity_iff:
  "check_activity (activity_of e r s) = Inr () \<longleftrightarrow>
     (\<exists>st rs. s = JString st \<and> r = JString rs \<and> st \<in> set activity_states \<and> rs \<in> set activity_reasons \<and>
        \<not> (st = ''SKIPPED'' \<and> rs = ''NONE'')) \<and> unless_null e check_id = Inr ()"
proof (cases "\<exists>st rs. s = JString st \<and> r = JString rs")
  case True
  then obtain st rs where "s = JString st" "r = JString rs" by blast
  then show ?thesis
    by (simp add: check_activity_def check_keys_def ofail_if_def ebind_eq_Inr check_pick_iff at_string_def ethrow_if_Inr)
next
  case False
  then have "check_pick s activity_states \<noteq> Inr () \<or> check_pick r activity_reasons \<noteq> Inr ()" by (auto simp: check_pick_iff)
  then have "check_activity (activity_of e r s) \<noteq> Inr ()"
    by (auto simp: check_activity_def ebind_eq_Inr)
  then show ?thesis using False by auto
qed

lemma check_delivery_iff:
  "check_delivery (delivery_of l q s) = Inr () \<longleftrightarrow>
     (\<exists>st. s = JString st \<and> st \<in> set delivery_states) \<and> check_integer q False = Inr () \<and> unless_null l check_instant = Inr ()"
  by (auto simp: check_delivery_def check_keys_def ofail_if_def ebind_eq_Inr check_pick_iff)

definition input_of :: "string \<Rightarrow> string \<Rightarrow> json" where
  "input_of r s = JObject [(''reason'', JString r), (''state'', JString s)]"

lemma input_access [simp]:
  "json_at (input_of r s) ''reason'' = Inr (JString r)" "json_at (input_of r s) ''state'' = Inr (JString s)"
  "object_size (input_of r s) = Inr 2"
  by (simp_all add: input_of_def dict_at_def object_size_def)

lemma check_input_iff:
  "check_input (input_of r s) = Inr () \<longleftrightarrow>
     s \<in> set input_states \<and> r \<in> set input_reasons \<and> (s = ''RECEIVING'' \<longleftrightarrow> r = ''NONE'')"
  by (auto simp: check_input_def check_keys_def ofail_if_def ebind_eq_Inr check_pick_iff at_string_def result_simps)

definition advisory_of :: "json \<Rightarrow> string \<Rightarrow> json" where
  "advisory_of r s = JObject [(''requestId'', r), (''state'', JString s)]"

lemma advisory_access [simp]:
  "json_at (advisory_of r s) ''requestId'' = Inr r" "json_at (advisory_of r s) ''state'' = Inr (JString s)"
  "object_size (advisory_of r s) = Inr 2"
  by (simp_all add: advisory_of_def dict_at_def object_size_def)

lemma check_advisory_iff:
  "check_advisory (advisory_of r s) ''v1'' False = Inr () \<longleftrightarrow>
     s \<in> set advisory_states \<and> s \<noteq> ''NOT_SUPPORTED'' \<and> unless_null r check_id = Inr () \<and> \<not> (s = ''CONFIRMED'' \<and> is_null r)"
  by (auto simp: check_advisory_def check_keys_def ofail_if_def ebind_eq_Inr check_pick_iff at_string_def null_at_def result_simps)

text \<open>Every setter succeeds on such a snapshot and keeps it reportable.\<close>

lemma facts_input_ok:
  assumes "facts_ok v" "connection \<in> set connection_states" "check_input (input_of reason state) = Inr ()"
  shows "\<exists>v'. facts_input connection state reason v = Inr v' \<and> facts_ok v'"
  using assms(1)
proof (rule facts_okE)
  fix e ar as b c l q s i r
  assume v: "v = facts_of (activity_of e ar as) b c (delivery_of l q s) i r"
    and ok: "check_activity (activity_of e ar as) = Inr ()" "check_delivery (delivery_of l q s) = Inr ()"
      "check_advisory b ''v1'' False = Inr ()" "unless_null r check_result = Inr ()"
  have c: "connection_ok (JString connection)" using assms(2) by (simp add: connection_ok_def check_pick_iff)
  have "facts_input connection state reason v =
      Inr (facts_of (activity_of e ar as) b (JString connection) (delivery_of l q s) (input_of reason state) r)"
    by (simp add: facts_input_def v two_fields input_of_def)
  then show ?thesis using facts_okI [OF c assms(3) ok] by blast
qed

lemma facts_activity_ok:
  assumes "facts_ok v" "check_activity (activity_of (string_or_null i) (JString reason) (JString state)) = Inr ()"
  shows "\<exists>v'. facts_activity state reason i v = Inr v' \<and> facts_ok v'"
  using assms(1)
proof (rule facts_okE)
  fix e ar as b c l q s j r
  assume v: "v = facts_of (activity_of e ar as) b c (delivery_of l q s) j r" "connection_ok c" "check_input j = Inr ()"
    "check_delivery (delivery_of l q s) = Inr ()" "check_advisory b ''v1'' False = Inr ()" "unless_null r check_result = Inr ()"
  have "facts_activity state reason i v =
      Inr (facts_of (activity_of (string_or_null i) (JString reason) (JString state)) b c (delivery_of l q s) j r)"
    by (simp add: facts_activity_def v(1) three_fields activity_of_def)
  then show ?thesis using facts_okI [OF v(2,3) assms(2) v(4-6)] by blast
qed

lemma facts_interruption_ok:
  assumes ok: "facts_ok v" and reason: "reason \<in> set activity_reasons" "reason \<noteq> ''NONE''"
  shows "\<exists>v'. facts_interruption reason v = Inr v' \<and> facts_ok v'"
  using ok
proof (rule facts_okE)
  fix e ar as b c l q s j r
  assume v: "v = facts_of (activity_of e ar as) b c (delivery_of l q s) j r" and a: "check_activity (activity_of e ar as) = Inr ()"
  obtain st where st: "as = JString st" and e: "unless_null e check_id = Inr ()" using a by (auto simp: check_activity_iff)
  have skip: "\<exists>v'. facts_activity ''SKIPPED'' reason i v = Inr v' \<and> facts_ok v'" if "string_or_null i = e" for i
    using that e reason by (intro facts_activity_ok [OF ok]) (simp add: check_activity_iff activity_states_def)
  have at: "json_at v ''activity'' = Inr (activity_of e ar as)" "at_string (activity_of e ar as) ''state'' = Inr st"
    by (simp_all add: v at_string_def st)
  show ?thesis
  proof (cases "st \<in> set [''ACTIVE'', ''POST'', ''PRE'']")
    case False
    then show ?thesis using ok by (simp only: facts_interruption_def at ebind_Inr if_True not_True_eq_False simp_thms) auto
  next
    case True
    show ?thesis
    proof (cases "is_null e")
      case n: True
      then have "string_or_null None = e" by (cases e) (simp_all add: is_null_def string_or_null_def)
      then show ?thesis using True n skip [of None]
        by (simp only: facts_interruption_def at ebind_Inr activity_access if_True if_False simp_thms)
    next
      case False
      then obtain x where x: "e = JString x" using e check_id_string by (auto simp: unless_null_def)
      then have "string_or_null (Some x) = e" by (simp add: string_or_null_def)
      then show ?thesis using True False skip [of "Some x"]
        by (simp only: facts_interruption_def at [unfolded x] ebind_Inr activity_access json_string.simps is_null_simps if_True if_False simp_thms)
    qed
  qed
qed

lemma facts_advisory_ok:
  assumes "facts_ok v" "check_advisory (advisory_of (string_or_null i) state) ''v1'' False = Inr ()"
  shows "\<exists>v'. facts_advisory True state i v = Inr v' \<and> facts_ok v'"
  using assms(1)
proof (rule facts_okE)
  fix e ar as b c l q s j r
  assume v: "v = facts_of (activity_of e ar as) b c (delivery_of l q s) j r" "connection_ok c" "check_input j = Inr ()"
    "check_activity (activity_of e ar as) = Inr ()" "check_delivery (delivery_of l q s) = Inr ()" "unless_null r check_result = Inr ()"
  have "facts_advisory True state i v =
      Inr (facts_of (activity_of e ar as) (advisory_of (string_or_null i) state) c (delivery_of l q s) j r)"
    by (simp add: facts_advisory_def v(1) two_fields advisory_of_def)
  then show ?thesis using facts_okI [OF v(2-5) assms(2) v(6)] by blast
qed

lemma delivery_set [simp]:
  "dict_set ''state'' x [(''lastReceiptAt'', l), (''queuedMessages'', q), (''state'', s)] =
     [(''lastReceiptAt'', l), (''queuedMessages'', q), (''state'', x)]"
  "dict_set ''lastReceiptAt'' x [(''lastReceiptAt'', l), (''queuedMessages'', q), (''state'', s)] =
     [(''lastReceiptAt'', x), (''queuedMessages'', q), (''state'', s)]"
  "dict_set ''queuedMessages'' x [(''lastReceiptAt'', l), (''queuedMessages'', q), (''state'', s)] =
     [(''lastReceiptAt'', l), (''queuedMessages'', x), (''state'', s)]"
  by (simp_all add: less_list_code less_char_def)

lemma facts_put_delivery [simp]:
  "dict_set ''delivery'' x
     [(''activity'', a), (''advisory'', b), (''connection'', c), (''delivery'', d), (''input'', i), (''lastResult'', r)] =
     [(''activity'', a), (''advisory'', b), (''connection'', c), (''delivery'', x), (''input'', i), (''lastResult'', r)]"
  by (simp add: less_list_code less_char_def)

lemma receipt_time_instant: "receipt_time receipt = Inr t \<Longrightarrow> check_instant t = Inr ()"
  by (auto simp: receipt_time_def emap_def ebind_eq_Inr)

lemma facts_delivery_eq:
  "facts_delivery accepted status receipt (facts_of a b c (delivery_of l q s) i r) =
     Inr (facts_of a b c (delivery_of (if accepted then case receipt_time receipt of Inr t \<Rightarrow> t | Inl _ \<Rightarrow> l else l) q
       (JString (if accepted then ''PENDING''
          else if status = 0 \<or> status = 408 \<or> status = 429 \<or> status \<ge> 500 then ''RETRYING'' else ''BLOCKED''))) i r)"
  by (simp add: facts_delivery_def facts_of_def delivery_of_def dict_at_def Let_def del: dict_set.simps split: sum.splits)

lemma facts_delivery_ok:
  assumes "facts_ok v"
  shows "\<exists>v'. facts_delivery accepted status receipt v = Inr v' \<and> facts_ok v'"
  using assms
proof (rule facts_okE)
  fix e ar as b c l q s i r
  assume v: "v = facts_of (activity_of e ar as) b c (delivery_of l q s) i r" "connection_ok c"
    "check_input i = Inr ()" "check_activity (activity_of e ar as) = Inr ()" "check_delivery (delivery_of l q s) = Inr ()"
    "check_advisory b ''v1'' False = Inr ()" "unless_null r check_result = Inr ()"
  let ?l = "if accepted then case receipt_time receipt of Inr t \<Rightarrow> t | Inl _ \<Rightarrow> l else l"
  let ?s = "if accepted then ''PENDING''
    else if status = 0 \<or> status = 408 \<or> status = 429 \<or> status \<ge> 500 then ''RETRYING'' else ''BLOCKED''"
  have "?s \<in> set delivery_states" by (simp add: delivery_states_def)
  moreover have "unless_null ?l check_instant = Inr ()"
    using v(5) by (auto simp: check_delivery_iff unless_null_def dest: receipt_time_instant split: sum.splits)
  ultimately have "check_delivery (delivery_of ?l q (JString ?s)) = Inr ()" using v(5) by (simp only: check_delivery_iff) blast
  from facts_okI [OF v(2-4) this v(6,7)] show ?thesis unfolding v(1) facts_delivery_eq by blast
qed

lemma facts_snapshot_eq:
  assumes "s = JString st"
  shows "facts_snapshot n blocked (facts_of a b c (delivery_of l q s) i r) =
     Inr (facts_of a b c (delivery_of l (JInt (int n))
       (JString (if blocked then ''BLOCKED'' else if n = 0 then ''IDLE'' else if st = ''IDLE'' then ''PENDING'' else st))) i r)"
  by (simp add: facts_snapshot_def facts_of_def delivery_of_def dict_at_def Let_def assms del: dict_set.simps)

lemma facts_snapshot_ok:
  assumes "facts_ok v" "int n \<le> maximum_integer"
  shows "\<exists>v'. facts_snapshot n blocked v = Inr v' \<and> facts_ok v' \<and> check_content v' ''v1'' False = Inr ()"
  using assms(1)
proof (rule facts_okE)
  fix e ar as b c l q s i r
  assume v: "v = facts_of (activity_of e ar as) b c (delivery_of l q s) i r" "connection_ok c"
    "check_input i = Inr ()" "check_activity (activity_of e ar as) = Inr ()" "check_delivery (delivery_of l q s) = Inr ()"
    "check_advisory b ''v1'' False = Inr ()" "unless_null r check_result = Inr ()"
  obtain st where s: "s = JString st" "st \<in> set delivery_states" using v(5) by (auto simp: check_delivery_iff)
  let ?s = "if blocked then ''BLOCKED'' else if n = 0 then ''IDLE'' else if st = ''IDLE'' then ''PENDING'' else st"
  have "?s \<in> set delivery_states" using s(2) by (auto simp: delivery_states_def)
  moreover have "check_integer (JInt (int n)) False = Inr ()"
    using assms(2) by (simp add: check_integer_def ofail_if_def result_simps)
  ultimately have "check_delivery (delivery_of l (JInt (int n)) (JString ?s)) = Inr ()"
    using v(5) by (simp only: check_delivery_iff) blast
  from facts_okI [OF v(2-4) this v(6,7)] show ?thesis
    unfolding v(1) facts_snapshot_eq [OF s(1)] facts_ok_def by blast
qed

lemma four_fields:
  "dict_emplace ''serviceVersion'' d (dict_emplace ''sourceTime'' c (dict_emplace ''id'' b (dict_emplace ''kind'' a []))) =
     [(''id'', b), (''kind'', a), (''serviceVersion'', d), (''sourceTime'', c)]"
  by (simp add: dict_emplace_def dict_has_def less_list_code less_char_def)

lemma facts_result_ok:
  assumes "facts_ok v" "kind \<in> {''WINDOW'', ''ASSESSMENT''}" "check_id (JString i) = Inr ()"
    "check_instant (JString source) = Inr ()" "check_version (JString version) = Inr ()"
  shows "\<exists>v'. facts_result kind i source version v = Inr v' \<and> facts_ok v'"
  using assms(1)
proof (rule facts_okE)
  fix e ar as b c l q s j r
  assume v: "v = facts_of (activity_of e ar as) b c (delivery_of l q s) j r" "connection_ok c" "check_input j = Inr ()"
    "check_activity (activity_of e ar as) = Inr ()" "check_delivery (delivery_of l q s) = Inr ()" "check_advisory b ''v1'' False = Inr ()"
  let ?r = "JObject [(''id'', JString i), (''kind'', JString kind), (''serviceVersion'', JString version), (''sourceTime'', JString source)]"
  have "check_result ?r = Inr ()"
    using assms(2-5)
    by (auto simp: check_result_def check_keys_def ofail_if_def object_size_def dict_at_def check_pick_iff ethrow_if_Inr ebind_eq_Inr)
  then have "unless_null ?r check_result = Inr ()" by (simp add: unless_null_def)
  from facts_okI [OF v(2-6) this] show ?thesis by (simp add: facts_result_def v(1) four_fields)
qed

lemma initial_facts_ok: "facts_ok (initial_facts True)"
proof -
  have "initial_facts True = facts_of (activity_of JNull (JString ''NOT_QUALIFIED'') (JString ''WAITING'')) (advisory_of JNull ''WAITING'')
      (JString ''STARTING'') (delivery_of JNull (JInt 0) (JString ''IDLE'')) (input_of ''AWAITING_INPUT'' ''WAITING'') JNull"
    by code_simp
  moreover have "facts_ok (facts_of (activity_of JNull (JString ''NOT_QUALIFIED'') (JString ''WAITING'')) (advisory_of JNull ''WAITING'')
      (JString ''STARTING'') (delivery_of JNull (JInt 0) (JString ''IDLE'')) (input_of ''AWAITING_INPUT'' ''WAITING'') JNull)"
    by (rule facts_okI) (simp_all add: connection_ok_def check_pick_iff check_activity_iff check_advisory_iff check_input_iff
      check_delivery_iff vocabulary_defs unless_null_def check_integer_def ofail_if_def maximum_integer_def result_simps)
  ultimately show ?thesis by simp
qed

end
