(* ===== verification/Effects.thy ===== *)
theory Effects
  imports Files
begin

text \<open>
  Methods of objects that own files: a method takes the members of its object and the directories and returns,
  throws or stops, keeping what it changed until then. Throwing does not undo an assignment to a member.
\<close>

section \<open>Methods\<close>

type_synonym ('s, 'a) method_of = "'s \<Rightarrow> world \<Rightarrow> 'a outcome \<times> 's \<times> world"

definition m_return :: "'a \<Rightarrow> ('s, 'a) method_of" where
  "m_return x s w = (Done x, s, w)"

definition m_throw :: "exn \<Rightarrow> ('s, 'a) method_of" where
  "m_throw e s w = (Threw e, s, w)"

definition m_bind :: "('s, 'a) method_of \<Rightarrow> ('a \<Rightarrow> ('s, 'b) method_of) \<Rightarrow> ('s, 'b) method_of" where
  "m_bind m f s w =
     (case m s w of
        (Done x, s', w') \<Rightarrow> f x s' w' | (Threw e, s', w') \<Rightarrow> (Threw e, s', w') | (Crashed, s', w') \<Rightarrow> (Crashed, s', w'))"

definition m_lift :: "'a result \<Rightarrow> ('s, 'a) method_of" where
  "m_lift r = (case r of Inl e \<Rightarrow> m_throw e | Inr x \<Rightarrow> m_return x)"

definition m_io :: "'a io \<Rightarrow> ('s, 'a) method_of" where
  "m_io m s w = (case m w of (r, w') \<Rightarrow> (r, s, w'))"

definition m_get :: "('s \<Rightarrow> 'a) \<Rightarrow> ('s, 'a) method_of" where
  "m_get f s w = (Done (f s), s, w)"

definition m_set :: "('s \<Rightarrow> 's) \<Rightarrow> ('s, unit) method_of" where
  "m_set f s w = (Done (), f s, w)"

definition m_when :: "bool \<Rightarrow> ('s, unit) method_of \<Rightarrow> ('s, unit) method_of" where
  "m_when b m = (if b then m else m_return ())"

section \<open>Contracts\<close>

text \<open>
  \<open>meets P m Q E\<close>: from members and directories in \<open>P\<close>, whatever the script does, \<open>m\<close> returns in \<open>Q\<close>, or throws or
  stops in \<open>E\<close>.
\<close>

definition meets ::
  "('s \<Rightarrow> world \<Rightarrow> bool) \<Rightarrow> ('s, 'a) method_of \<Rightarrow> ('a \<Rightarrow> 's \<Rightarrow> world \<Rightarrow> bool) \<Rightarrow> ('s \<Rightarrow> world \<Rightarrow> bool) \<Rightarrow> bool" where
  "meets P m Q E \<longleftrightarrow>
     (\<forall>s w. P s w \<longrightarrow> (case m s w of (Done x, s', w') \<Rightarrow> Q x s' w' | (_, s', w') \<Rightarrow> E s' w'))"

named_theorems meets_rules \<open>rules for the contracts of methods\<close>

lemma meetsI:
  assumes "\<And>s w. P s w \<Longrightarrow> case m s w of (Done x, s', w') \<Rightarrow> Q x s' w' | (_, s', w') \<Rightarrow> E s' w'"
  shows "meets P m Q E"
  using assms by (simp add: meets_def)

lemma meetsD:
  "meets P m Q E \<Longrightarrow> P s w \<Longrightarrow> case m s w of (Done x, s', w') \<Rightarrow> Q x s' w' | (_, s', w') \<Rightarrow> E s' w'"
  by (simp add: meets_def)

lemma meets_bind:
  assumes "meets P m R E" "\<And>x. meets (R x) (f x) Q E"
  shows "meets P (m_bind m f) Q E"
  using assms unfolding meets_def m_bind_def by (fastforce split: prod.splits outcome.splits)

lemma meets_weaken:
  assumes "meets P m Q E" "\<And>s w. P' s w \<Longrightarrow> P s w" "\<And>x s w. Q x s w \<Longrightarrow> Q' x s w" "\<And>s w. E s w \<Longrightarrow> E' s w"
  shows "meets P' m Q' E'"
  using assms unfolding meets_def by (fastforce split: prod.splits outcome.splits)

lemma meets_return [meets_rules]: "(\<And>s w. P s w \<Longrightarrow> Q x s w) \<Longrightarrow> meets P (m_return x) Q E"
  by (simp add: meets_def m_return_def)

lemma meets_throw [meets_rules]: "(\<And>s w. P s w \<Longrightarrow> E s w) \<Longrightarrow> meets P (m_throw e) Q E"
  by (simp add: meets_def m_throw_def)

lemma meets_lift: "(\<And>s w. P s w \<Longrightarrow> E s w) \<Longrightarrow> meets P (m_lift r) (\<lambda>x s w. r = Inr x \<and> P s w) E"
  by (simp add: meets_def m_lift_def m_return_def m_throw_def split: sum.splits)

lemma meets_get: "meets P (m_get f) (\<lambda>x s w. x = f s \<and> P s w) E"
  by (simp add: meets_def m_get_def)

lemma meets_set: "(\<And>s w. P s w \<Longrightarrow> Q () (f s) w) \<Longrightarrow> meets P (m_set f) Q E"
  by (simp add: meets_def m_set_def)

lemma meets_if [meets_rules]:
  "(b \<Longrightarrow> meets P m Q E) \<Longrightarrow> (\<not> b \<Longrightarrow> meets P n Q E) \<Longrightarrow> meets P (if b then m else n) Q E"
  by simp

lemma meets_pre: "(\<And>s w. P s w \<Longrightarrow> b) \<Longrightarrow> (b \<Longrightarrow> meets P m Q E) \<Longrightarrow> meets P m Q E"
  by (auto simp: meets_def)

lemma meets_io:
  assumes "\<And>s. spec (P s) m (\<lambda>x. Q x s) (E s)"
  shows "meets P (m_io m) Q E"
proof (rule meetsI)
  fix s w
  assume "P s w"
  from specD [OF assms this]
  show "case m_io m s w of (Done x, s', w') \<Rightarrow> Q x s' w' | (_, s', w') \<Rightarrow> E s' w'"
    by (simp add: m_io_def split: prod.splits outcome.splits)
qed

text \<open>What holds of the steps of a sequence holds of the sequence.\<close>

lemma m_bind_assoc: "m_bind (m_bind m f) g = m_bind m (\<lambda>x. m_bind (f x) g)"
  by (simp add: m_bind_def fun_eq_iff split: prod.splits outcome.splits)

lemmas m_simps = m_return_def m_throw_def m_bind_def m_lift_def m_io_def m_get_def m_set_def m_when_def

lemma m_lift_simps [simp]: "m_lift (Inr x) = m_return x" "m_lift (Inl e) = m_throw e"
  by (simp_all add: m_lift_def)

lemma m_bind_simps [simp]: "m_bind (m_return x) f = f x" "m_bind (m_throw e) f = m_throw e"
  by (simp_all add: m_bind_def m_return_def m_throw_def fun_eq_iff)

end
