(* ===== verification/Runtime.thy ===== *)
theory Runtime
  imports Observation Effects
begin

text \<open>
  \<^verbatim>\<open>src/runtime.cpp\<close>: the object that ties the parts together. It owns the state store, the episode engine and the
  snapshot of the function's condition, turns episodes into committed assessments and advisory requests, follows the
  gateway's answers and runs the reset protocol. Every public method holds the mutex from its first line to its last,
  so a method is one step of the object. The state of the store is \<open>memory\<close> of the directories the store owns.
\<close>

section \<open>Members\<close>

text \<open>\<open>rt_store\<close> tells whether \<^verbatim>\<open>store_\<close> holds an object.\<close>

record Runtime =
  rt_store :: bool
  rt_metadata :: Metadata
  rt_engine :: EpisodeEngine
  rt_reason :: string
  rt_status_at :: int
  rt_refresh_at :: int
  rt_last_write :: int
  rt_advisory_sent :: bool
  rt_telemetry_at :: int
  rt_input_mono :: int
  rt_function :: json

type_synonym 'a rt = "(Runtime, 'a) method_of"

definition rt_state :: "json rt" where
  "rt_state = m_io get_memory"

text \<open>\<^verbatim>\<open>store_->commit\<close>: the store keeps the identifier of the unit it was made with.\<close>

definition rt_commit :: "json \<Rightarrow> json list \<Rightarrow> bool rt" where
  "rt_commit next messages =
     m_bind (m_get (unit_system_uid \<circ> rt_metadata)) (\<lambda>uid. m_io (commit uid next messages))"

definition rt_facts :: "(json \<Rightarrow> json result) \<Rightarrow> unit rt" where
  "rt_facts f = m_bind (m_bind (m_get rt_function) (\<lambda>v. m_lift (f v))) (\<lambda>v. m_set (\<lambda>r. r\<lparr>rt_function := v\<rparr>))"

section \<open>Helpers\<close>

definition control_binding :: "Metadata \<Rightarrow> json \<Rightarrow> json result" where
  "control_binding m state =
     (case service_instance m of
        None \<Rightarrow> Inl (RuntimeError ''RESET_NATIVE_IDENTITY_REQUIRED'')
      | Some i \<Rightarrow>
          emap JObject (object_of
            [(''schemaVersion'', Inr (JInt 1)), (''unitSystemUid'', Inr (JString (unit_system_uid m))),
             (''serviceVersion'', Inr (JString (service_version m))),
             (''serviceInstance'', ebind (service_instance_json i) (\<lambda>t. parse_json t 65536)),
             (''producerEpoch'', json_at state ''producerEpoch'')]))"

definition reset_pending :: "json \<Rightarrow> bool result" where
  "reset_pending state =
     eall [has_field state ''demoReset'', ebind (json_at state ''demoReset'') (\<lambda>r. null_at r ''ack'')]"

text \<open>\<^verbatim>\<open>static_cast<int>\<close> of a 64-bit integer\<close>

definition int32_of :: "int \<Rightarrow> int" where
  "int32_of n = (n + 2147483648) mod 4294967296 - 2147483648"

definition read_model :: "json \<Rightarrow> ModelState result" where
  "read_model v =
     (if is_null v then Inr initial_model else
      ebind (ebind (at_string v ''conditionBand'') parse_band) (\<lambda>b.
      ebind (at_string v ''betterBandCandidate'') (\<lambda>c.
      ebind (if c = ''NONE'' then Inr NotEvaluated else parse_band c) (\<lambda>bb.
      ebind (at_integer v ''conditionScore'') (\<lambda>sc.
      ebind (at_integer v ''confidencePercent'') (\<lambda>conf.
      ebind (at_integer v ''betterBandEpisodeCount'') (\<lambda>n.
      ebind (at_string v ''lastAppliedSourceExerciseId'') (\<lambda>src.
      ebind (at_string v ''lastAssessmentId'') (\<lambda>asm.
      ebind (ebind (at_array v ''recentSourceExerciseIds'') (emapM json_string)) (\<lambda>ids.
        Inr \<lparr>band = b, better = bb, score = int32_of sc, confidence = int32_of conf, better_count = int32_of n,
             last_source = src, last_assessment = asm, recent = ids\<rparr>))))))))))"

definition write_model :: "ModelState \<Rightarrow> string \<Rightarrow> json \<Rightarrow> json result" where
  "write_model m digest state =
     emap JObject (object_of
       [(''schemaVersion'', Inr (JInt 1)), (''modelId'', Inr (JString ''tire-condition-demo-v1'')),
        (''modelConfigSha256'', Inr (JString digest)), (''conditionScore'', Inr (JInt (score m))),
        (''conditionBand'', Inr (JString (band_name (band m)))), (''confidencePercent'', Inr (JInt (confidence m))),
        (''betterBandCandidate'', Inr (JString (if better m = NotEvaluated then ''NONE'' else band_name (better m)))),
        (''betterBandEpisodeCount'', Inr (JInt (better_count m))),
        (''lastAppliedSourceExerciseId'', Inr (JString (last_source m))), (''lastAssessmentId'', Inr (JString (last_assessment m))),
        (''recentSourceExerciseIds'', Inr (JArray (map JString (recent m)))),
        (''producerEpoch'', json_at state ''producerEpoch''), (''nextAdvisorySequence'', json_at state ''nextAdvisorySequence'')])"

text \<open>
  What \<open>apply_episode\<close>, \<open>next_advisory\<close> and \<open>demo_control_command\<close> do to their copy of the state to schedule a new
  request: it takes the next sequence number, and the answers to the previous request are forgotten.
\<close>

definition issue_request :: "Metadata \<Rightarrow> string \<Rightarrow> Band \<Rightarrow> int \<Rightarrow> (string, json) dict \<Rightarrow> (string, json) dict result" where
  "issue_request m decision b now nx =
     ebind (ebind (dict_at nx ''nextAdvisorySequence'') json_integer) (\<lambda>sequence.
     ebind (ebind (dict_at nx ''producerEpoch'') json_string) (\<lambda>epoch.
     ebind (advisory_request m epoch sequence decision b now) (\<lambda>request.
     ebind (metadata_binding m) (\<lambda>binding.
       Inr (dict_set ''gatewayStates'' (JArray []) (dict_set ''nextAdvisorySequence'' (JInt (sequence + 1))
             (dict_set ''lastRequestMetadata'' binding (dict_set ''lastRequest'' request nx))))))))"

definition erase_all :: "string list \<Rightarrow> (string, json) dict \<Rightarrow> (string, json) dict" where
  "erase_all ks m = foldl (\<lambda>d k. dict_erase k d) m ks"

text \<open>The acknowledgement of a reset that did not clear the advisory, made from its command.\<close>

definition refused_ack :: "string \<Rightarrow> json \<Rightarrow> json result" where
  "refused_ack outcome_name command =
     ebind (json_object command) (\<lambda>c.
       Inr (JObject (dict_set ''gatewayStatus'' JNull (dict_set ''clearRequest'' JNull
         (dict_set ''result'' (JString outcome_name) (erase_all [''operation'', ''issuedAt'', ''expiresAt''] c))))))"

text \<open>\<^verbatim>\<open>reset["ack"] = ack; next["demoReset"] = reset;\<close>\<close>

definition with_ack :: "json \<Rightarrow> json \<Rightarrow> json result" where
  "with_ack state ack =
     ebind (json_object state) (\<lambda>nx.
     ebind (ebind (dict_at nx ''demoReset'') json_object) (\<lambda>reset.
       Inr (JObject (dict_set ''demoReset'' (JObject (dict_set ''ack'' ack reset)) nx))))"

fun fields_match :: "(string, json) dict \<Rightarrow> json \<Rightarrow> bool result" where
  "fields_match [] command = Inr True"
| "fields_match ((k, v) # es) command =
     ebind (ebind (json_at command k) canonical) (\<lambda>x.
     ebind (canonical v) (\<lambda>y.
     ebind (fields_match es command) (\<lambda>rest. Inr (x = y \<and> rest))))"

section \<open>Construction\<close>

definition fresh_runtime :: "bool \<Rightarrow> Metadata \<Rightarrow> Runtime" where
  "fresh_runtime opened m =
     \<lparr>rt_store = opened, rt_metadata = m, rt_engine = initial_engine, rt_reason = (if opened then [] else ''NOT_READY_STATE''),
      rt_status_at = -1, rt_refresh_at = -1, rt_last_write = -1, rt_advisory_sent = False, rt_telemetry_at = -1,
      rt_input_mono = -1, rt_function = initial_facts True\<rparr>"

text \<open>The second half of the constructor: a reset that was pending for another instance is rejected.\<close>

definition reject_foreign_reset :: "unit rt" where
  "reject_foreign_reset =
     m_bind (m_get rt_store) (\<lambda>present. if \<not> present then m_return () else
     m_bind rt_state (\<lambda>state.
     m_bind (m_lift (reset_pending state)) (\<lambda>waiting. if \<not> waiting then m_return () else
     m_bind (m_get rt_metadata) (\<lambda>m.
     m_bind (m_lift (control_binding m state)) (\<lambda>binding.
     m_bind (m_lift (ebind (json_at state ''demoReset'') (\<lambda>r. json_at r ''command''))) (\<lambda>command.
     m_bind (m_lift (ebind (json_object binding) (\<lambda>b. fields_match b command))) (\<lambda>matches.
       if matches then m_return () else
       m_bind (m_lift (ebind (refused_ack ''REJECTED'' command) (with_ack state))) (\<lambda>next.
       m_bind (rt_commit next []) (\<lambda>_. m_return ())))))))))"

text \<open>\<open>catch(...)\<close> around the store's constructor; \<open>epoch\<close> is the identifier it would give a new state.\<close>

definition runtime_start :: "string \<Rightarrow> Metadata \<Rightarrow> Runtime io" where
  "runtime_start epoch m w =
     (case open_store (unit_system_uid m) epoch w of
        (Crashed, w') \<Rightarrow> (Crashed, w')
      | (r, w') \<Rightarrow>
          (case reject_foreign_reset (fresh_runtime (case r of Done _ \<Rightarrow> True | _ \<Rightarrow> False) m) w' of
             (Done _, rt, w'') \<Rightarrow> (Done rt, w'')
           | (Threw e, _, w'') \<Rightarrow> (Threw e, w'')
           | (Crashed, _, w'') \<Rightarrow> (Crashed, w'')))"

section \<open>Input\<close>

definition runtime_ingest :: "string \<Rightarrow> Frame \<Rightarrow> int \<Rightarrow> Episode option rt" where
  "runtime_ingest uuid frame received_mono =
     m_bind (rt_facts (facts_input ''CONNECTED'' ''RECEIVING'' ''NONE'')) (\<lambda>_.
     m_bind (m_set (\<lambda>r. r\<lparr>rt_input_mono := received_mono\<rparr>)) (\<lambda>_.
     m_bind (m_get rt_store) (\<lambda>present.
     if \<not> present then
       m_bind (rt_facts (facts_activity ''SKIPPED'' ''STORAGE_UNAVAILABLE'' None)) (\<lambda>_. m_return None)
     else
     m_bind rt_state (\<lambda>state.
     m_bind (m_lift (reset_pending state)) (\<lambda>waiting.
     if waiting then m_bind (rt_facts (facts_activity ''WAITING'' ''RESET'' None)) (\<lambda>_. m_return None)
     else
     m_bind (m_get (\<lambda>r. Model.ingest (rt_engine r) uuid frame)) (\<lambda>(engine, episode).
     m_bind (m_set (\<lambda>r. r\<lparr>rt_engine := engine\<rparr>)) (\<lambda>_.
     m_bind (case episode of
               Some ep \<Rightarrow>
                 rt_facts (facts_activity ''SKIPPED'' (if ep_terminal ep = ''INCOMPLETE_SOURCE_GAP'' then ''SOURCE_DISCONTINUITY''
                                                       else ''INSUFFICIENT_SAMPLES'') (Some (ep_id ep)))
             | None \<Rightarrow>
                 (let open_episode = (current engine \<noteq> None) in
                  rt_facts (facts_activity (if open_episode then ''ACTIVE'' else ''WAITING'')
                    (if open_episode then ''NONE'' else ''NOT_QUALIFIED'') (map_option ep_id (current engine))))) (\<lambda>_.
       m_return episode))))))))"

definition reauthenticate :: "unit rt" where
  "reauthenticate =
     m_bind (rt_facts (facts_input ''REAUTHENTICATING'' ''WAITING'' ''REAUTHENTICATING'')) (\<lambda>_.
       rt_facts (facts_advisory True ''REAUTHENTICATING'' None))"

text \<open>The members that a lost input resets, and the episode in progress.\<close>

definition lose_input :: "string \<Rightarrow> Runtime \<Rightarrow> Runtime" where
  "lose_input reason r =
     r\<lparr>rt_input_mono := -1, rt_telemetry_at := -1, rt_engine := fst (abort_episode (rt_engine r) reason)\<rparr>"

definition expire_input :: "int \<Rightarrow> bool rt" where
  "expire_input observed_mono =
     m_bind (m_get rt_input_mono) (\<lambda>mono.
     if mono < 0 \<or> observed_mono - mono \<le> 250 then m_return False
     else
     m_bind (m_set (lose_input ''INCOMPLETE_SOURCE_GAP'')) (\<lambda>_.
     m_bind (rt_facts (facts_interruption ''SOURCE_DISCONTINUITY'')) (\<lambda>_.
     m_bind (rt_facts (facts_input ''CONNECTED'' ''STALE'' ''SOURCE_GAP'')) (\<lambda>_.
       m_return True))))"

definition disconnect :: "unit rt" where
  "disconnect =
     m_bind (m_set (lose_input ''INCOMPLETE_SOURCE_GAP'')) (\<lambda>_.
     m_bind (rt_facts (facts_interruption ''SOURCE_DISCONTINUITY'')) (\<lambda>_.
       rt_facts (facts_input ''DISCONNECTED'' ''DISCONNECTED'' ''TRANSPORT_LOST'')))"

definition stop :: "unit rt" where
  "stop = m_set (lose_input ''ABORTED_SERVICE_STOP'')"

definition update_vdp_metadata :: "Metadata \<Rightarrow> unit rt" where
  "update_vdp_metadata m =
     m_bind (m_get rt_metadata) (\<lambda>old.
     if unit_system_uid m \<noteq> unit_system_uid old \<or> unit_role m \<noteq> unit_role old \<or> service_version m \<noteq> service_version old \<or>
        service_artifact_sha256 m \<noteq> service_artifact_sha256 old \<or> service_instance m \<noteq> service_instance old
     then m_throw (InvalidArgument ''IMMUTABLE_IDENTITY_CHANGED'')
     else if vdp_contract_version m \<noteq> vdp_contract_version old \<or> vdp_contract_sha256 m \<noteq> vdp_contract_sha256 old
     then m_set (\<lambda>r. r\<lparr>rt_engine := fst (abort_episode (rt_engine r) ''INCOMPLETE_SOURCE_GAP''), rt_metadata := m\<rparr>)
     else m_return ())"

section \<open>Status and delivery\<close>

definition status_reasons :: "string list" where
  "status_reasons =
     [''READY'', ''BACKEND_SYNC_PENDING'', ''BACKEND_DISCONNECTED'', ''OUTBOX_FULL'', ''INCOMPATIBLE_VDP'', ''TELEMETRY_STALE'',
      ''TELEMETRY_DISCONNECTED'', ''SERVICE_ACCESS_DENIED'', ''NOT_READY_STATE'']"

definition status_content :: "string \<Rightarrow> string list \<Rightarrow> json" where
  "status_content reason missing =
     JObject (dict_init
       [(''functionalState'', JString (if reason = ''READY'' then ''OPERATIONAL''
           else if reason \<in> set [''BACKEND_DISCONNECTED'', ''BACKEND_SYNC_PENDING'', ''OUTBOX_FULL''] then ''DEGRADED'' else ''NOT_READY'')),
        (''reason'', JString reason), (''requiredVdpContractVersion'', JString ''3.0.0''),
        (''missingPaths'', JArray (map JString missing)), (''missingCapabilities'', JArray [])] [])"

definition status_message :: "Metadata \<Rightarrow> json \<Rightarrow> string \<Rightarrow> string list \<Rightarrow> int \<Rightarrow> json result" where
  "status_message m state reason missing now =
     (let content = status_content reason missing in
      ebind (utc_timestamp now) (\<lambda>observed.
      ebind (object_of
        [(''schemaVersion'', Inr (JInt 1)), (''contractVersion'', Inr (JString ''1.0.0'')),
         (''messageType'', Inr (JString ''TIRE_FUNCTION_STATUS'')),
         (''statusId'', ebind (at_string state ''producerEpoch'') (\<lambda>epoch. ebind (canonical content) (\<lambda>t.
            emap JString (uuid_v5 epoch [observed, reason, service_version m, vdp_contract_version m, t])))),
         (''unitSystemUid'', Inr (JString (unit_system_uid m))), (''unitRole'', Inr (JString (unit_role m))),
         (''serviceVersion'', Inr (JString (service_version m))),
         (''serviceArtifactSha256'', Inr (JString (service_artifact_sha256 m))),
         (''actualVdpContractVersion'', Inr (JString (vdp_contract_version m))),
         (''actualVdpContractSha256'', Inr (JString (vdp_contract_sha256 m))), (''observedAt'', Inr (JString observed)),
         (''content'', Inr content), (''contentSha256'', emap (JString \<circ> sha256_hex) (canonical content))]) (\<lambda>msg.
      case service_instance m of
        None \<Rightarrow> Inr (JObject msg)
      | Some i \<Rightarrow>
          ebind (metadata_binding m) (\<lambda>_.
          ebind (ebind (service_instance_json i) (\<lambda>t. parse_json t 65536)) (\<lambda>j.
            Inr (JObject (dict_emplace ''serviceInstance'' j (dict_erase ''serviceArtifactSha256''
              (dict_set ''contractVersion'' (JString ''2.0.0'') (dict_set ''schemaVersion'' (JInt 2) msg))))))))))"

definition function_status :: "string \<Rightarrow> int \<Rightarrow> string list \<Rightarrow> unit rt" where
  "function_status reason now missing =
     m_bind (m_get rt_store) (\<lambda>present. if \<not> present then m_return () else
     if reason \<notin> set status_reasons \<or> length missing > 32 then m_throw (InvalidArgument ''STATUS_INVALID'') else
     m_bind (m_when (reason = ''READY'') (m_set (\<lambda>r. r\<lparr>rt_telemetry_at := now\<rparr>))) (\<lambda>_.
     m_bind (m_get id) (\<lambda>r.
     if reason = rt_reason r \<and> rt_status_at r \<ge> 0 \<and> now - rt_status_at r < 30000 then m_return () else
     m_bind rt_state (\<lambda>state.
     m_bind (m_lift (status_message (rt_metadata r) state reason missing now)) (\<lambda>msg.
     m_bind (rt_commit state [msg]) (\<lambda>_.
       m_set (\<lambda>r. r\<lparr>rt_reason := reason, rt_status_at := now\<rparr>)))))))"

definition next_message :: "Pending option rt" where
  "next_message = m_bind (m_get rt_store) (\<lambda>present. if present then m_io pending else m_return None)"

definition accept :: "Pending \<Rightarrow> HttpResponse \<Rightarrow> bool rt" where
  "accept p response =
     m_bind (m_get rt_store) (\<lambda>present.
     m_bind (if present then m_io (acknowledge p response) else m_return False) (\<lambda>accepted.
     m_bind (rt_facts (facts_delivery accepted (http_status response) (http_body response))) (\<lambda>_.
       m_return accepted)))"

section \<open>Assessments\<close>

text \<open>\<^verbatim>\<open>std::any_of(ids, id.string() == s)\<close>\<close>

fun any_string :: "string \<Rightarrow> json list \<Rightarrow> bool result" where
  "any_string s [] = Inr False"
| "any_string s (j # js) = ebind (json_string j) (\<lambda>t. if t = s then Inr True else any_string s js)"

text \<open>
  The exercises a reset model had consumed stay consumed: \<open>None\<close> when \<open>id\<close> is among them, otherwise the model,
  which starts from their list when there is none yet.
\<close>

definition carry_consumed :: "json \<Rightarrow> string \<Rightarrow> ModelState \<Rightarrow> ModelState option result" where
  "carry_consumed state i model =
     ebind (eall [has_field state ''demoReset'',
                  ebind (json_at state ''demoReset'') (\<lambda>r. emap Not (null_at r ''previousModel''))]) (\<lambda>b.
     if \<not> b then Inr (Some model) else
     ebind (ebind (ebind (json_at state ''demoReset'') (\<lambda>r. json_at r ''previousModel''))
              (\<lambda>pm. at_array pm ''recentSourceExerciseIds'')) (\<lambda>ids.
     ebind (any_string i ids) (\<lambda>consumed. if consumed then Inr None else
     ebind (null_at state ''model'') (\<lambda>none. if \<not> none then Inr (Some model) else
     ebind (emapM json_string ids) (\<lambda>names. Inr (Some (model\<lparr>recent := recent model @ names\<rparr>)))))))"

text \<open>What an episode comes to: the state to commit, its messages, the assessment, and whether a new request is due.\<close>

record episode_plan =
  plan_state :: json
  plan_messages :: "json list"
  plan_assessment :: json
  plan_lease :: bool

text \<open>Which messages the assessment gives, and the time of the last publication.\<close>

definition publish_assessment :: "Assessment \<Rightarrow> Episode \<Rightarrow> json \<Rightarrow> (string, json) dict \<Rightarrow> (json list \<times> (string, json) dict) result" where
  "publish_assessment a ep message nx =
     ebind (eany [Inr (as_changed a),
                  emap (\<lambda>published. ep_ended ep - published \<ge> 30000) (ebind (dict_at nx ''lastPublishedAt'') json_integer)]) (\<lambda>publish.
     if \<not> publish then Inr ([], nx) else
     ebind (if as_changed a then emap (\<lambda>e. [message, e]) (event_message message) else Inr [message]) (\<lambda>messages.
       Inr (messages, dict_set ''lastPublishedAt'' (JInt (ep_ended ep)) nx)))"

text \<open>A changed band schedules a new request; the stored model repeats the sequence number.\<close>

definition lease_due :: "Assessment \<Rightarrow> bool" where
  "lease_due a = (as_changed a \<and> (as_current a \<noteq> Good \<or> as_previous a \<noteq> NotEvaluated))"

definition store_model :: "ModelState \<Rightarrow> string \<Rightarrow> (string, json) dict \<Rightarrow> (string, json) dict result" where
  "store_model model digest nx = emap (\<lambda>u. dict_set ''model'' u nx) (write_model model digest (JObject nx))"

definition schedule_lease :: "Metadata \<Rightarrow> ModelState \<Rightarrow> string \<Rightarrow> int \<Rightarrow> (string, json) dict \<Rightarrow> (string, json) dict result" where
  "schedule_lease m model digest now nx =
     ebind (issue_request m (last_assessment model) (band model) now nx) (store_model model digest)"

definition finish_plan ::
  "Metadata \<Rightarrow> ModelState \<Rightarrow> Assessment \<Rightarrow> Episode \<Rightarrow> string \<Rightarrow> (string, json) dict \<Rightarrow> episode_plan result" where
  "finish_plan m model2 a ep digest nx =
     ebind (assessment_message m a ep digest) (\<lambda>message.
     ebind (at_string message ''assessmentId'') (\<lambda>i.
     let model = model2\<lparr>last_assessment := i\<rparr> in
     ebind (publish_assessment a ep message nx) (\<lambda>(messages, nx1).
     ebind (store_model model digest nx1) (\<lambda>nx2.
     ebind (if lease_due a then schedule_lease m model digest (ep_ended ep) nx2 else Inr nx2) (\<lambda>nx3.
       Inr \<lparr>plan_state = JObject nx3, plan_messages = messages, plan_assessment = message, plan_lease = lease_due a\<rparr>)))))"

definition check_model_digest :: "json \<Rightarrow> string \<Rightarrow> unit result" where
  "check_model_digest v digest =
     (if is_null v then Inr ()
      else ethrow_if (emap (\<lambda>d. d \<noteq> digest) (at_string v ''modelConfigSha256'')) (RuntimeError ''MODEL_STATE_MISMATCH''))"

definition plan_episode :: "Metadata \<Rightarrow> json \<Rightarrow> Features \<Rightarrow> Episode \<Rightarrow> string \<Rightarrow> episode_plan option result" where
  "plan_episode m state features ep digest =
     ebind (json_object state) (\<lambda>nx.
     ebind (dict_at nx ''model'') (\<lambda>stored_model.
     ebind (read_model stored_model) (\<lambda>model0.
     ebind (carry_consumed state (ep_id ep) model0) (\<lambda>carried.
     case carried of None \<Rightarrow> Inr None | Some model1 \<Rightarrow>
     ebind (check_model_digest stored_model digest) (\<lambda>_.
     case assess model1 features (int (length (ep_samples ep))) (ep_id ep) of
       (_, None) \<Rightarrow> Inr None
     | (model2, Some a) \<Rightarrow> emap Some (finish_plan m model2 a ep digest nx))))))"

definition apply_episode :: "Features \<Rightarrow> Episode \<Rightarrow> string \<Rightarrow> bool rt" where
  "apply_episode features ep digest =
     m_bind (m_get rt_store) (\<lambda>present. if \<not> present then m_return False else
     m_bind rt_state (\<lambda>state.
     m_bind (m_lift (reset_pending state)) (\<lambda>waiting.
     if waiting \<or> \<not> is_sha256 digest \<or> (ep_terminal ep \<noteq> ''COMPLETE'' \<and> ep_terminal ep \<noteq> ''TRUNCATED_MAX_DURATION'')
     then m_return False else
     m_bind (m_get rt_metadata) (\<lambda>m.
     m_bind (m_lift (plan_episode m state features ep digest)) (\<lambda>planned.
     case planned of None \<Rightarrow> m_return False | Some p \<Rightarrow>
     m_bind (m_when (plan_lease p)
       (m_set (\<lambda>r. r\<lparr>rt_advisory_sent := False, rt_refresh_at := ep_ended ep, rt_last_write := -1\<rparr>))) (\<lambda>_.
     m_bind (rt_commit (plan_state p) (plan_messages p)) (\<lambda>committed.
     m_bind (rt_facts (facts_activity (if committed then ''COMPLETED'' else ''SKIPPED'')
       (if committed then ''NONE'' else ''STORAGE_UNAVAILABLE'') (Some (ep_id ep)))) (\<lambda>_.
     m_bind (m_when (committed \<and> plan_messages p \<noteq> [])
       (m_bind (m_lift (at_string (plan_assessment p) ''assessmentId'')) (\<lambda>i.
        m_bind (m_lift (at_string (plan_assessment p) ''sourceEventTime'')) (\<lambda>t.
          rt_facts (facts_result ''ASSESSMENT'' i t (service_version m)))))) (\<lambda>_.
       m_return committed)))))))))"

section \<open>Advisory requests\<close>

definition advisory_waiting :: "json \<Rightarrow> unit rt" where
  "advisory_waiting request =
     m_bind (m_lift (at_string request ''requestId'')) (\<lambda>i. rt_facts (facts_advisory True ''WAITING'' (Some i)))"

text \<open>While a reset waits for the gateway: the request that clears the advisory.\<close>

definition next_reset_advisory :: "json \<Rightarrow> int \<Rightarrow> string option rt" where
  "next_reset_advisory state now =
     m_bind (m_lift (ebind (json_at state ''demoReset'') (\<lambda>r. json_at r ''command''))) (\<lambda>command.
     m_bind (m_lift (utc_timestamp now)) (\<lambda>t.
     m_bind (m_lift (at_string command ''expiresAt'')) (\<lambda>expires_at.
     if t \<ge> expires_at then m_return None else
     m_bind (m_get id) (\<lambda>r.
     if rt_last_write r \<ge> 0 \<and> now - rt_last_write r < 1000 then m_return None else
     m_bind (if rt_refresh_at r < 0 \<or> now - rt_refresh_at r \<ge> 5000 then
               m_bind (m_lift (at_string command ''commandId'')) (\<lambda>i.
               m_bind (m_lift (ebind (json_object state) (issue_request (rt_metadata r) i Good now))) (\<lambda>nx.
               m_bind (rt_commit (JObject nx) []) (\<lambda>_.
               m_bind (m_set (\<lambda>r. r\<lparr>rt_refresh_at := now\<rparr>)) (\<lambda>_. m_return (JObject nx)))))
             else m_return state) (\<lambda>next.
     m_bind (m_set (\<lambda>r. r\<lparr>rt_last_write := now\<rparr>)) (\<lambda>_.
     m_bind (m_lift (json_at next ''lastRequest'')) (\<lambda>request.
     m_bind (advisory_waiting request) (\<lambda>_.
       m_lift (emap Some (canonical request))))))))))"

text \<open>The state with the request of a new lease; the stored model repeats the sequence number.\<close>

definition renew_lease :: "Metadata \<Rightarrow> ModelState \<Rightarrow> int \<Rightarrow> json \<Rightarrow> (string, json) dict result" where
  "renew_lease m model now state =
     ebind (ebind (json_object state) (issue_request m (last_assessment model) (band model) now)) (\<lambda>nx.
     ebind (ebind (dict_at nx ''model'') (\<lambda>v. at_string v ''modelConfigSha256'')) (\<lambda>digest.
       store_model model digest nx))"

definition next_advisory :: "int \<Rightarrow> string option rt" where
  "next_advisory now =
     m_bind (m_get rt_store) (\<lambda>present. if \<not> present then m_return None else
     m_bind rt_state (\<lambda>state.
     m_bind (m_lift (reset_pending state)) (\<lambda>waiting.
     if waiting then next_reset_advisory state now else
     m_bind (m_lift (ebind (json_at state ''model'') read_model)) (\<lambda>model.
     if band model = NotEvaluated then m_return None else
     m_bind (m_lift (json_at state ''lastRequest'')) (\<lambda>request.
     m_bind (m_get id) (\<lambda>r.
     if \<not> is_null request \<and> rt_refresh_at r \<ge> 0 \<and> now - rt_refresh_at r < 20000 then
       if \<not> rt_advisory_sent r \<and> (rt_last_write r < 0 \<or> now - rt_last_write r \<ge> 1000) then
         m_bind (m_set (\<lambda>r. r\<lparr>rt_last_write := now\<rparr>)) (\<lambda>_.
         m_bind (advisory_waiting request) (\<lambda>_.
           m_lift (emap Some (canonical request))))
       else m_return None
     else if band model = Good \<and> (rt_advisory_sent r \<or> is_null request) then m_return None
     else
       m_bind (m_lift (renew_lease (rt_metadata r) model now state)) (\<lambda>nx.
       m_bind (m_lift (dict_at nx ''lastRequest'')) (\<lambda>new_request.
       m_bind (rt_commit (JObject nx) []) (\<lambda>_.
       m_bind (m_set (\<lambda>r. r\<lparr>rt_refresh_at := now, rt_last_write := now, rt_advisory_sent := False\<rparr>)) (\<lambda>_.
       m_bind (advisory_waiting new_request) (\<lambda>_.
         m_lift (emap Some (canonical new_request)))))))))))))"

section \<open>Answers of the gateway\<close>

definition cleared_ack :: "Metadata \<Rightarrow> json \<Rightarrow> json \<Rightarrow> json \<Rightarrow> json result" where
  "cleared_ack m state request status =
     ebind (ebind (control_binding m state) json_object) (\<lambda>binding.
     ebind (ebind (ebind (json_at state ''demoReset'') (\<lambda>r. json_at r ''command'')) (\<lambda>c. json_at c ''commandId'')) (\<lambda>i.
       Inr (JObject (dict_set ''gatewayStatus'' status (dict_set ''clearRequest'' request
             (dict_set ''result'' (JString ''CLEARED'') (dict_set ''commandId'' i binding)))))))"

definition reset_answer :: "json \<Rightarrow> json \<Rightarrow> json \<Rightarrow> unit rt" where
  "reset_answer state request status =
     m_bind (m_lift (reset_pending state)) (\<lambda>waiting. if \<not> waiting then m_return () else
     m_bind (m_lift (at_string status ''state'')) (\<lambda>current_state. if current_state \<noteq> ''CLEARED'' then m_return () else
     m_bind (m_lift (ethrow_if (eany [emap (\<lambda>s. s \<noteq> ''NONE'') (at_string status ''reason''),
         emap (\<lambda>s. s \<noteq> ''NONE'') (at_string status ''activeRecommendation''),
         emap (\<lambda>s. s \<noteq> ''NONE'') (at_string status ''activeReasonCode''), emap Not (null_at status ''activeUntil'')])
         (RuntimeError ''RESET_CLEAR_NOT_CONFIRMED''))) (\<lambda>_.
     m_bind (m_get rt_metadata) (\<lambda>m.
     m_bind (m_lift (ebind (cleared_ack m state request status) (with_ack state))) (\<lambda>acked.
     m_bind (m_lift (put_field ''gatewayStates'' (JArray [JString ''CLEARED'']) acked)) (\<lambda>next.
     m_bind (rt_commit next []) (\<lambda>_.
     m_bind (m_set (\<lambda>r. r\<lparr>rt_advisory_sent := True\<rparr>)) (\<lambda>_.
     m_bind (m_lift (at_string request ''requestId'')) (\<lambda>i.
       rt_facts (facts_advisory True ''CONFIRMED'' (Some i)))))))))))"

definition advisory_answer :: "json \<Rightarrow> json \<Rightarrow> json \<Rightarrow> json \<Rightarrow> unit rt" where
  "advisory_answer state request status fact_message =
     m_bind (m_lift (at_array state ''gatewayStates'')) (\<lambda>states.
     m_bind (m_lift (at_string status ''state'')) (\<lambda>current_state.
     m_bind (m_lift (any_string current_state states)) (\<lambda>seen. if seen then m_return () else
     m_bind (m_lift (put_field ''gatewayStates'' (JArray (states @ [JString current_state])) state)) (\<lambda>next.
     m_bind (rt_commit next [fact_message]) (\<lambda>_.
     m_bind (m_lift (at_string request ''requestId'')) (\<lambda>i.
     m_bind (rt_facts (facts_advisory True (if current_state \<in> set [''APPLIED'', ''CLEARED''] then ''CONFIRMED''
         else if current_state = ''RECEIVED'' then ''WAITING'' else ''UNAVAILABLE'') (Some i))) (\<lambda>_.
       m_when (current_state \<in> set [''APPLIED'', ''CLEARED'', ''REJECTED'', ''FAILED''])
         (m_set (\<lambda>r. r\<lparr>rt_advisory_sent := True\<rparr>)))))))))"

text \<open>Whether the request in flight is the one that clears the advisory for the reset.\<close>

definition answers_reset :: "json \<Rightarrow> json \<Rightarrow> bool result" where
  "answers_reset state request =
     eall [has_field state ''demoReset'',
           ebind (at_string request ''decisionId'') (\<lambda>d.
           ebind (ebind (json_at state ''demoReset'') (\<lambda>r. json_at r ''command'')) (\<lambda>c.
             emap (\<lambda>i. d = i) (at_string c ''commandId'')))]"

definition gateway_status :: "string \<Rightarrow> int \<Rightarrow> unit rt" where
  "gateway_status bytes now =
     m_bind (m_get rt_store) (\<lambda>present. if \<not> present then m_return () else
     m_bind rt_state (\<lambda>state.
     m_bind (m_lift (json_at state ''lastRequest'')) (\<lambda>request. if is_null request then m_return () else
     m_bind (m_lift (has_field state ''lastRequestMetadata'')) (\<lambda>bound. if \<not> bound then m_return () else
     m_bind (m_lift (parse_json bytes 4096)) (\<lambda>status.
     m_bind (m_lift (validate_gateway_status status)) (\<lambda>_.
     m_bind (m_lift (same_fields [''requestId'', ''producerEpoch'', ''sequence''] request status)) (\<lambda>mine.
     if \<not> mine then m_return () else
     m_bind (m_lift (ebind (json_at state ''lastRequestMetadata'') parse_metadata_binding)) (\<lambda>origin.
     m_bind (m_lift (advisory_fact origin request status now)) (\<lambda>fact_message.
     m_bind (m_lift (answers_reset state request)) (\<lambda>resets.
       if resets then reset_answer state request status
       else advisory_answer state request status fact_message))))))))))"

section \<open>The reset protocol\<close>

definition demo_control_poll :: "string option rt" where
  "demo_control_poll =
     m_bind (m_get id) (\<lambda>r. if \<not> rt_store r \<or> service_instance (rt_metadata r) = None then m_return None else
     m_bind rt_state (\<lambda>state.
       m_lift (emap Some (ebind (control_binding (rt_metadata r) state) canonical))))"

fun check_binding :: "(string, json) dict \<Rightarrow> json \<Rightarrow> unit result" where
  "check_binding [] command = Inr ()"
| "check_binding ((k, v) # es) command =
     ebind (ebind (json_at command k) canonical) (\<lambda>x.
     ebind (canonical v) (\<lambda>y.
       if x \<noteq> y then Inl (RuntimeError ''RESET_BINDING_MISMATCH'') else check_binding es command))"

text \<open>The time window of a command, compared as texts.\<close>

definition check_window :: "string \<Rightarrow> string \<Rightarrow> int \<Rightarrow> unit result" where
  "check_window issued expires_at now =
     ethrow_if (eany
       [Inr (\<not> date_time issued), Inr (\<not> date_time expires_at), Inr (length issued \<noteq> 24), Inr (length expires_at \<noteq> 24),
        Inr (last issued \<noteq> CHR ''Z''), Inr (last expires_at \<noteq> CHR ''Z''), emap (\<lambda>t. issued > t) (utc_timestamp now),
        emap (\<lambda>t. expires_at \<le> t) (utc_timestamp now), emap (\<lambda>t. expires_at > t) (utc_timestamp (now + 60000)),
        Inr (issued \<ge> expires_at)]) (RuntimeError ''RESET_COMMAND_EXPIRED'')"

definition begin_reset :: "Metadata \<Rightarrow> json \<Rightarrow> json \<Rightarrow> int \<Rightarrow> (string, json) dict result" where
  "begin_reset m state command now =
     ebind (json_object state) (\<lambda>nx.
     ebind (dict_at nx ''model'') (\<lambda>model.
     ebind (at_string command ''commandId'') (\<lambda>i.
       issue_request m i Good now
         (dict_set ''lastPublishedAt'' (JInt 0) (dict_set ''model'' JNull
           (dict_set ''demoReset'' (JObject (dict_init
             [(''command'', command), (''previousModel'', model), (''ack'', JNull), (''delivered'', JBool False)] [])) nx))))))"

text \<open>Whether the command is the one already accepted, which is then ignored.\<close>

definition repeated_command :: "json \<Rightarrow> json \<Rightarrow> bool result" where
  "repeated_command state command =
     ebind (has_field state ''demoReset'') (\<lambda>b. if \<not> b then Inr False else
     ebind (ebind (json_at state ''demoReset'') (\<lambda>r. json_at r ''command'')) (\<lambda>old.
     ebind (strings_differ old ''commandId'' command ''commandId'') (\<lambda>other. if other then Inr False else
     ebind (canonical old) (\<lambda>x.
     ebind (canonical command) (\<lambda>y.
       if x \<noteq> y then Inl (RuntimeError ''RESET_COMMAND_CONFLICT'') else Inr True)))))"

definition demo_control_command :: "string \<Rightarrow> int \<Rightarrow> unit rt" where
  "demo_control_command bytes now =
     m_bind (m_get rt_store) (\<lambda>present. if \<not> present then m_throw (RuntimeError ''RESET_STATE_UNAVAILABLE'') else
     m_bind (m_lift (parse_json bytes 4096)) (\<lambda>response.
     m_bind (m_lift (ethrow_if (eany [emap (\<lambda>n. n \<noteq> 2) (object_size response),
       emap (\<lambda>n. n \<noteq> 1) (at_integer response ''schemaVersion'')]) (RuntimeError ''RESET_INVALID_RESPONSE''))) (\<lambda>_.
     m_bind (m_lift (json_at response ''command'')) (\<lambda>command. if is_null command then m_return () else
     m_bind (m_lift (ethrow_if (eany [emap (\<lambda>n. n \<noteq> 9) (object_size command),
       emap (\<lambda>s. s \<noteq> ''RESET_DEMO_SCENARIO'') (at_string command ''operation''),
       emap (\<lambda>s. \<not> is_uuid s) (at_string command ''commandId'')]) (RuntimeError ''RESET_INVALID_COMMAND''))) (\<lambda>_.
     m_bind rt_state (\<lambda>state.
     m_bind (m_get rt_metadata) (\<lambda>m.
     m_bind (m_lift (ebind (ebind (control_binding m state) json_object) (\<lambda>b. check_binding b command))) (\<lambda>_.
     m_bind (m_lift (repeated_command state command)) (\<lambda>repeated. if repeated then m_return () else
     m_bind (m_lift (ebind (at_string command ''issuedAt'') (\<lambda>issued. ebind (at_string command ''expiresAt'') (\<lambda>expires_at.
       check_window issued expires_at now)))) (\<lambda>_.
     m_bind (m_lift (ethrow_if (reset_pending state) (RuntimeError ''RESET_ALREADY_PENDING''))) (\<lambda>_.
     m_bind (m_lift (begin_reset m state command now)) (\<lambda>nx.
     m_bind (rt_commit (JObject nx) []) (\<lambda>_.
     m_bind (m_set (\<lambda>r. r\<lparr>rt_engine := initial_engine, rt_refresh_at := now, rt_last_write := -1, rt_advisory_sent := False\<rparr>)) (\<lambda>_.
       rt_facts (facts_activity ''WAITING'' ''RESET'' None)))))))))))))))"

definition demo_control_ack :: "int \<Rightarrow> string option rt" where
  "demo_control_ack now =
     m_bind (m_get rt_store) (\<lambda>present. if \<not> present then m_return None else
     m_bind rt_state (\<lambda>state.
     m_bind (m_lift (has_field state ''demoReset'')) (\<lambda>has_reset. if \<not> has_reset then m_return None else
     m_bind (m_lift (json_at state ''demoReset'')) (\<lambda>reset.
     m_bind (m_lift (at_boolean reset ''delivered'')) (\<lambda>delivered. if delivered then m_return None else
     m_bind (m_lift (json_at reset ''ack'')) (\<lambda>ack. if \<not> is_null ack then m_lift (emap Some (canonical ack)) else
     m_bind (m_lift (utc_timestamp now)) (\<lambda>t.
     m_bind (m_lift (json_at reset ''command'')) (\<lambda>command.
     m_bind (m_lift (at_string command ''expiresAt'')) (\<lambda>expires_at. if t < expires_at then m_return None else
     m_bind (m_lift (refused_ack ''FAILED'' command)) (\<lambda>failed.
     m_bind (m_lift (with_ack state failed)) (\<lambda>next.
     m_bind (rt_commit next []) (\<lambda>_.
       m_lift (emap Some (canonical failed))))))))))))))"

definition demo_control_accepted :: "string \<Rightarrow> unit rt" where
  "demo_control_accepted bytes =
     m_bind (m_get rt_store) (\<lambda>present. if \<not> present then m_return () else
     m_bind rt_state (\<lambda>state.
     m_bind (m_lift (has_field state ''demoReset'')) (\<lambda>has_reset. if \<not> has_reset then m_return () else
     m_bind (m_lift (json_at state ''demoReset'')) (\<lambda>reset.
     m_bind (m_lift (parse_json bytes 4096)) (\<lambda>response.
     m_bind (m_lift (ethrow_if (eany
       [null_at reset ''ack'', emap (\<lambda>n. n \<noteq> 3) (object_size response), emap (\<lambda>n. n \<noteq> 1) (at_integer response ''schemaVersion''),
        ebind (json_at reset ''command'') (\<lambda>c. strings_differ response ''commandId'' c ''commandId''),
        ebind (json_at reset ''ack'') (\<lambda>a. strings_differ response ''state'' a ''result'')]) (RuntimeError ''RESET_ACK_INVALID''))) (\<lambda>_.
     m_bind (m_lift (ebind (put_field ''delivered'' (JBool True) reset) (\<lambda>d. put_field ''demoReset'' d state))) (\<lambda>next.
     m_bind (rt_commit next []) (\<lambda>_. m_return ()))))))))"

section \<open>Readiness and observation\<close>

text \<open>\<open>now\<close> is what the clock returns under the lock.\<close>

definition input_ready :: "Runtime \<Rightarrow> int \<Rightarrow> bool" where
  "input_ready r now = (rt_store r \<and> rt_telemetry_at r \<ge> 0 \<and> now \<ge> rt_telemetry_at r \<and> now - rt_telemetry_at r \<le> 5000)"

definition advisory_readiness :: "int \<Rightarrow> string rt" where
  "advisory_readiness now =
     m_bind (m_get id) (\<lambda>r.
       m_lift (ebind (object_of
         [(''schemaVersion'', Inr (JInt 1)), (''ready'', Inr (JBool (input_ready r now))),
          (''observedAt'', emap JString (utc_timestamp now))]) (\<lambda>m. canonical (JObject m))))"

definition observation_binding :: "json option rt" where
  "observation_binding =
     m_bind (m_get rt_metadata) (\<lambda>m.
     case service_instance m of
       None \<Rightarrow> m_return None
     | Some i \<Rightarrow>
         m_lift (emap (Some \<circ> JObject) (object_of
           [(''messageType'', Inr (JString ''TIRE_FUNCTION_OBSERVATION'')), (''unitSystemUid'', Inr (JString (unit_system_uid m))),
            (''unitRole'', Inr (JString (unit_role m))), (''serviceVersion'', Inr (JString (service_version m))),
            (''serviceProfile'', Inr (JString ''v1'')),
            (''serviceInstance'', ebind (service_instance_json i) (\<lambda>t. parse_json t 65536))])))"

definition function_observation :: "json rt" where
  "function_observation =
     m_bind (m_get rt_store) (\<lambda>present.
     m_bind (if present then m_io queued else m_return 0) (\<lambda>n.
     m_bind (m_get rt_function) (\<lambda>v.
       m_lift (facts_snapshot n (\<not> present) v))))"

definition input_observation :: "string \<Rightarrow> string \<Rightarrow> string \<Rightarrow> unit rt" where
  "input_observation connection state reason =
     m_bind (m_when (state \<noteq> ''RECEIVING'')
       (rt_facts (facts_interruption (if reason = ''REAUTHENTICATING'' then ''REAUTHENTICATING'' else ''SOURCE_DISCONTINUITY'')))) (\<lambda>_.
       rt_facts (facts_input connection state reason))"

definition advisory_observation :: "string \<Rightarrow> unit rt" where
  "advisory_observation state = rt_facts (facts_advisory True state None)"

section \<open>Status messages\<close>

lemma status_content_shape: "shape 20 (status_content reason missing)"
proof -
  have "json_depth (JArray (map JString missing)) \<le> 19" by (induction missing) auto
  then have "shape 19 (JArray (map JString missing))" by (simp add: shape_def list_all_iff)
  then have "shape (Suc 19) (status_content reason missing)"
    unfolding status_content_def by (intro shape_object obj_shape_init) (auto simp: shape_def [of _ "JArray []"])
  then show ?thesis by simp
qed

text \<open>The fields that the outbox looks at are those of the first object, also when the identity of the instance is added.\<close>

lemma status_sendable:
  assumes "status_message m state reason missing now = Inr msg" "canonical msg = Inr t" "length t \<le> 16384"
  shows "sendable (unit_system_uid m) msg"
proof -
  let ?c = "status_content reason missing"
  define es where "es observed =
        [(''schemaVersion'', Inr (JInt 1)), (''contractVersion'', Inr (JString ''1.0.0'')),
         (''messageType'', Inr (JString ''TIRE_FUNCTION_STATUS'')),
         (''statusId'', ebind (at_string state ''producerEpoch'') (\<lambda>epoch. ebind (canonical ?c) (\<lambda>t.
            emap JString (uuid_v5 epoch [observed, reason, service_version m, vdp_contract_version m, t])))),
         (''unitSystemUid'', Inr (JString (unit_system_uid m))), (''unitRole'', Inr (JString (unit_role m))),
         (''serviceVersion'', Inr (JString (service_version m))),
         (''serviceArtifactSha256'', Inr (JString (service_artifact_sha256 m))),
         (''actualVdpContractVersion'', Inr (JString (vdp_contract_version m))),
         (''actualVdpContractSha256'', Inr (JString (vdp_contract_sha256 m))), (''observedAt'', Inr (JString observed)),
         (''content'', Inr ?c), (''contentSha256'', emap (JString \<circ> sha256_hex) (canonical ?c))]" for observed
  obtain observed d where d: "object_of (es observed) = Inr d"
    and rest: "(case service_instance m of None \<Rightarrow> Inr (JObject d)
      | Some i \<Rightarrow> ebind (metadata_binding m) (\<lambda>_. ebind (ebind (service_instance_json i) (\<lambda>t. parse_json t 65536)) (\<lambda>j.
            Inr (JObject (dict_emplace ''serviceInstance'' j (dict_erase ''serviceArtifactSha256''
              (dict_set ''contractVersion'' (JString ''2.0.0'') (dict_set ''schemaVersion'' (JInt 2) d)))))))) = Inr msg"
    using assms(1) unfolding status_message_def Let_def es_def [symmetric] ebind_eq_Inr [of "utc_timestamp now"]
      ebind_eq_Inr [of "object_of (es _)"] by blast
  have msg: "msg = JObject d \<or> (\<exists>i t j. service_instance_json i = Inr t \<and> parse_json t 65536 = Inr j \<and>
        msg = JObject (dict_emplace ''serviceInstance'' j (dict_erase ''serviceArtifactSha256''
              (dict_set ''contractVersion'' (JString ''2.0.0'') (dict_set ''schemaVersion'' (JInt 2) d)))))"
    using rest by (cases "service_instance m") (simp, simp only: option.case ebind_eq_Inr, blast)
  have s21: "shape 21 ?c" by (rule shape_mono [OF status_content_shape]) simp
  have shape_d: "obj_shape 21 d" by (rule obj_shape_of [OF d]) (auto simp: es_def result_simps intro: s21)
  have distinct: "distinct (map fst (es observed))" by (simp add: es_def)
  note get = object_of_get [OF d distinct]
  obtain tc where tc: "canonical ?c = Inr tc" using get(2) [of "''contentSha256''"] by (auto simp: es_def result_simps)
  have fields: "dict_get d ''messageType'' = Some (JString ''TIRE_FUNCTION_STATUS'')" "dict_get d ''statusId'' \<noteq> None"
    "dict_get d ''unitSystemUid'' = Some (JString (unit_system_uid m))" "dict_get d ''content'' = Some ?c"
    "dict_get d ''contentSha256'' = Some (JString (sha256_hex tc))"
    using get tc by (simp_all add: es_def)
  obtain d' where d': "msg = JObject d'" "obj_shape 21 d'"
    and same: "\<And>k. k \<notin> {''serviceInstance'', ''serviceArtifactSha256'', ''contractVersion'', ''schemaVersion''} \<Longrightarrow> dict_get d' k = dict_get d k"
  proof (cases "msg = JObject d")
    case False
    then obtain i t j where j: "service_instance_json i = Inr t" "parse_json t 65536 = Inr j"
      "msg = JObject (dict_emplace ''serviceInstance'' j (dict_erase ''serviceArtifactSha256''
              (dict_set ''contractVersion'' (JString ''2.0.0'') (dict_set ''schemaVersion'' (JInt 2) d))))"
      using msg by blast
    have "shape 21 j" by (rule shape_mono [OF shape_instance [OF j(1,2)]]) simp
    moreover have "dict_ok d" using shape_d by (simp add: obj_shape_def)
    ultimately show thesis
      using shape_d by (intro that [OF j(3)]) (auto intro!: obj_shape_emplace obj_shape_erase obj_shape_set simp: dict_get_emplace)
  qed (use that shape_d in blast)
  have kept: "dict_get d' ''messageType'' = Some (JString ''TIRE_FUNCTION_STATUS'')" "dict_get d' ''statusId'' \<noteq> None"
    "dict_get d' ''unitSystemUid'' = Some (JString (unit_system_uid m))" "dict_get d' ''content'' = Some ?c"
    "dict_get d' ''contentSha256'' = Some (JString (sha256_hex tc))"
    using fields by (simp_all add: same)
  have digest: "digest_matches (JObject d') = Inr True"
    using kept(4,5) tc by (simp add: digest_matches_def at_string_def dict_at_def)
  have written: "canonical (JObject d') = Inr t" using assms(2) d'(1) by simp
  show ?thesis
    unfolding d'(1) by (rule sendable_object [OF d'(2) written assms(3) digest kept(3,1)]) (use kept(2) in \<open>simp_all add: key_field_def\<close>)
qed

section \<open>Properties\<close>

text \<open>C36: Every message that is built for the backend, an assessment, a change of a band, an advisory fact or a status of the function,
  is accepted by the outbox as soon as its text fits into a record: its digest is that of its content, it names its unit, and it has a key.\<close>

theorem built_messages_sendable:
  assumes "canonical msg = Inr t" "length t \<le> 16384" "shape 20 a" "shape 20 request" "shape 20 status"
    and "assessment_message m asm e digest = Inr msg \<or>
         (event_message a = Inr msg \<and> at_string a ''unitSystemUid'' = Inr (unit_system_uid m)) \<or>
         advisory_fact m request status now = Inr msg \<or>
         status_message m state reason missing now = Inr msg"
  shows "sendable (unit_system_uid m) msg"
  using assms(6) assessment_sendable [OF _ assms(1,2)] event_sendable [OF _ assms(1,2,3)] fact_sendable [OF _ assms(1,2,4,5)]
    status_sendable [OF _ assms(1,2)]
  by blast

theorem built_messages_sendable_witness:
  "\<exists>msg. advisory_fact demo_metadata demo_request demo_status 5000 = Inr msg \<and> sendable (unit_system_uid demo_metadata) msg"
proof -
  have "shape 20 demo_request" "shape 20 demo_status" by code_simp+
  then show ?thesis using demo_fact built_messages_sendable by metis
qed

end
