(* ===== verification/Transitions.thy ===== *)
theory Transitions
  imports Runtime
begin

text \<open>
  How the methods of \<open>Runtime\<close> move the durable state. \<open>state_step\<close> is the transition relation they implement: each
  rule is one reason for which the code commits a new state. Every method, whatever system calls fail, leaves the
  state the store holds in memory as it was or moves it by one such step to a state that passes the store's validation.
\<close>

section \<open>The state in memory\<close>

definition steady :: "'a io \<Rightarrow> bool" where
  "steady m \<longleftrightarrow> (\<forall>w. memory (snd (m w)) = memory w)"

named_theorems steady_intros \<open>operations on files that leave the state in memory alone\<close>

lemma steady_reads: "reads m \<Longrightarrow> steady m"
  by (simp add: steady_def reads_def)

lemma steady_bind [steady_intros]:
  assumes "steady m" "\<And>x. steady (f x)"
  shows "steady (io_bind m f)"
  unfolding steady_def
proof
  fix w
  have "memory (snd (m w)) = memory w" using assms(1) by (simp add: steady_def)
  moreover have "\<And>x w'. memory (snd (f x w')) = memory w'" using assms(2) by (simp add: steady_def)
  ultimately show "memory (snd (io_bind m f w)) = memory w"
    by (auto simp: io_bind_def split: prod.splits outcome.splits)
qed

lemma steady_basic [steady_intros]:
  "steady (io_return x)" "steady (io_throw e)" "steady (io_lift r)" "steady (io_throw_if b e)"
  by (auto simp: steady_def io_simps split: sum.splits)

lemmas steady_readers [steady_intros] =
  reads_basic [THEN steady_reads] reads_validate_queue [THEN steady_reads] reads_accept_messages [THEN steady_reads]
  reads_pending [THEN steady_reads]

lemma steady_syscall [steady_intros]: "(\<And>w. memory (eff w) = memory w) \<Longrightarrow> steady (syscall eff)"
  by (auto simp: steady_def syscall_def next_fault_def split: list.splits fault.splits)

lemma steady_require [steady_intros]: "steady m \<Longrightarrow> steady (require_ok m e)"
  unfolding require_ok_def by (intro steady_intros)

lemma steady_write_loop [steady_intros]: "steady (write_loop p tmp d rest)"
proof -
  have "memory (snd (write_loop p tmp d rest w)) = memory w" for w
  proof (induction p tmp d rest w rule: write_loop.induct)
    case (1 p tmp d rest w)
    show ?case
      by (subst write_loop.simps) (use 1 in \<open>auto simp: Let_def split: list.splits fault.splits\<close>)
  qed
  then show ?thesis by (simp add: steady_def)
qed

lemma steady_or_unlink [steady_intros]:
  assumes "steady m"
  shows "steady (or_unlink p tmp m)"
  unfolding steady_def
proof
  fix w
  have s: "memory (snd (m w)) = memory w" using assms by (simp add: steady_def)
  have d: "memory (snd (syscall (drop_file p tmp) w')) = memory w'" for w'
    using steady_syscall [of "drop_file p tmp"] by (simp add: steady_def)
  show "memory (snd (or_unlink p tmp m w)) = memory w"
    using s d by (auto simp: or_unlink_def split: prod.splits outcome.splits) (metis snd_conv)+
qed

lemma steady_open_temporary [steady_intros]: "steady (open_temporary p tmp again)"
proof -
  have "steady (require_ok (syscall (put_file p tmp [])) e)" for e by (intro steady_intros) simp
  then show ?thesis by (auto simp: steady_def open_temporary_def io_throw_def split: option.splits)
qed

lemma steady_write [steady_intros]: "steady (write_durable_file p n s again)"
proof -
  have "steady (io_bind (open_temporary p (next_name n) again) (\<lambda>_.
      or_unlink p (next_name n)
        (io_bind (require_ok (write_loop p (next_name n) [] s) ''STATE_WRITE_FAILED'') (\<lambda>_.
         io_bind (require_ok (syscall id) ''STATE_WRITE_FAILED'') (\<lambda>_.
         io_bind (require_ok (syscall (rename_file p (next_name n) n)) ''STATE_WRITE_FAILED'') (\<lambda>_.
         io_bind (require_ok (syscall id) ''STATE_WRITE_FAILED'') (\<lambda>_.
           require_ok (syscall id) ''STATE_WRITE_FAILED'')))))))"
    by (intro steady_intros) simp_all
  then show ?thesis by (simp add: steady_def write_durable_file_def io_throw_def)
qed

lemma steady_remove [steady_intros]: "steady (remove_durable p n)"
  unfolding remove_durable_def by (intro steady_intros) simp_all

lemma steady_replay_messages [steady_intros]: "steady (replay_messages ms)"
proof (induction ms)
  case (Cons m ms)
  then show ?case
    by (auto intro!: steady_intros)
qed (simp add: steady_intros)

lemma spec_steady: "steady m \<Longrightarrow> spec (\<lambda>w. memory w = v) m (\<lambda>_ w. memory w = v) (\<lambda>w. memory w = v)"
  unfolding spec_def steady_def by (auto split: prod.splits outcome.splits) (metis snd_conv)+

lemma replay_memory:
  assumes "json_at txn ''state'' = Inr nx"
  shows "spec (\<lambda>w. memory w = v) (replay uid txn) (\<lambda>_ w. memory w = nx) (\<lambda>w. memory w = v)"
proof -
  have lift: "spec (\<lambda>w. memory w = v) (io_lift r) (\<lambda>x w. r = Inr x \<and> memory w = v) (\<lambda>w. memory w = v)" for r :: "'b result"
    by (rule spec_lift)
  have keep: "spec (\<lambda>w. memory w = v) (io_bind m f) Q (\<lambda>w. memory w = v)"
    if "steady m" "\<And>x. spec (\<lambda>w. memory w = v) (f x) Q (\<lambda>w. memory w = v)" for m :: "'b io" and f Q
    by (rule spec_bind [OF spec_steady [OF that(1)] that(2)])
  have last: "spec (\<lambda>w. memory w = v) (set_memory nx) (\<lambda>_ w. memory w = nx) (\<lambda>w. memory w = v)"
    by (simp add: spec_def set_memory_def)
  show ?thesis
    unfolding replay_def durable_file_def assms
    by (simp only: io_bind_lift [OF refl]) (intro keep steady_intros last)
qed

text \<open>A commit leaves the state in memory, or replaces it by the new one, which it has validated.\<close>

lemma commit_memory:
  "spec (\<lambda>w. memory w = v) (commit uid nx ms) (\<lambda>_ w. memory w = nx \<and> validate_state uid nx = Inr ())
     (\<lambda>w. memory w = v \<or> memory w = nx \<and> validate_state uid nx = Inr ())"
proof (cases "validate_state uid nx")
  case (Inl e)
  then show ?thesis by (simp add: commit_def spec_def io_simps)
next
  case (Inr u)
  let ?E = "\<lambda>w. memory w = v \<or> memory w = nx"
  have keep: "spec (\<lambda>w. memory w = x) m (\<lambda>_ w. memory w = x) ?E" if "steady m" "x = v \<or> x = nx" for m :: "'b io" and x
    by (rule spec_weaken [OF spec_steady [OF that(1)]]) (use that(2) in auto)
  have at: "json_at (transaction nx acc) ''state'' = Inr nx" for acc
    by (simp add: transaction_def dict_at_def dict_emplace_def dict_has_def less_list_code less_char_def)
  have rep: "spec (\<lambda>w. memory w = v) (replay uid (transaction nx acc)) (\<lambda>_ w. memory w = nx) ?E" for acc
    by (rule spec_weaken [OF replay_memory [OF at]]) auto
  have "spec (\<lambda>w. memory w = v) (commit uid nx ms) (\<lambda>_ w. memory w = nx) ?E"
    unfolding commit_def durable_file_def
    apply (rule spec_bind [OF keep], intro steady_intros, simp)+
    apply (simp only: case_prod_unfold)
    apply (rule spec_bind [OF keep], intro steady_intros, simp)+
    apply (rule spec_bind [OF rep])
    apply (rule spec_bind [OF keep], intro steady_intros, simp)
    apply (rule spec_return, simp)
    done
  then show ?thesis using Inr by simp
qed

section \<open>Contracts of methods on the state\<close>

text \<open>\<open>at_state m v\<close>: the runtime has metadata \<open>m\<close> and its store holds \<open>v\<close>.\<close>

definition at_state :: "Metadata \<Rightarrow> json \<Rightarrow> Runtime \<Rightarrow> world \<Rightarrow> bool" where
  "at_state m v r w \<longleftrightarrow> rt_metadata r = m \<and> memory w = v"

text \<open>\<open>moved R m v\<close>: it holds \<open>v\<close> still, or a valid state \<open>v'\<close> with \<open>R m v v'\<close>.\<close>

definition moved :: "(Metadata \<Rightarrow> json \<Rightarrow> json \<Rightarrow> bool) \<Rightarrow> Metadata \<Rightarrow> json \<Rightarrow> Runtime \<Rightarrow> world \<Rightarrow> bool" where
  "moved R m v r w \<longleftrightarrow>
     rt_metadata r = m \<and>
     (memory w = v \<or> R m v (memory w) \<and> validate_state (unit_system_uid m) (memory w) = Inr ())"

lemma at_state_moved: "at_state m v r w \<Longrightarrow> moved R m v r w"
  by (simp add: at_state_def moved_def)

text \<open>Steps that only change members other than the metadata.\<close>

definition quiet :: "(Runtime, 'a) method_of \<Rightarrow> bool" where
  "quiet m \<longleftrightarrow> (\<forall>r w. rt_metadata (fst (snd (m r w))) = rt_metadata r \<and> memory (snd (snd (m r w))) = memory w)"

named_theorems quiet_intros \<open>methods that leave the state and the metadata alone\<close>

lemma quiet_bind [quiet_intros]:
  assumes "quiet m" "\<And>x. quiet (f x)"
  shows "quiet (m_bind m f)"
  unfolding quiet_def
proof (intro allI)
  fix r w
  have a: "rt_metadata (fst (snd (m r w))) = rt_metadata r \<and> memory (snd (snd (m r w))) = memory w"
    using assms(1) by (simp add: quiet_def)
  have b: "rt_metadata (fst (snd (f x r' w'))) = rt_metadata r' \<and> memory (snd (snd (f x r' w'))) = memory w'" for x r' w'
    using assms(2) by (simp add: quiet_def)
  show "rt_metadata (fst (snd (m_bind m f r w))) = rt_metadata r \<and> memory (snd (snd (m_bind m f r w))) = memory w"
    using a b by (auto simp: m_bind_def split: prod.splits outcome.splits)
qed

lemma quiet_basic [quiet_intros]:
  "quiet (m_return x)" "quiet (m_throw e)" "quiet (m_lift r)" "quiet (m_get f)"
  by (auto simp: quiet_def m_simps split: sum.splits)

lemma quiet_set [quiet_intros]: "(\<And>r. rt_metadata (f r) = rt_metadata r) \<Longrightarrow> quiet (m_set f)"
  by (simp add: quiet_def m_set_def)

lemma quiet_when [quiet_intros]: "quiet m \<Longrightarrow> quiet (m_when b m)"
  by (simp add: m_when_def quiet_intros)

lemma quiet_if [quiet_intros]: "quiet m \<Longrightarrow> quiet n \<Longrightarrow> quiet (if b then m else n)"
  by simp

lemma quiet_io [quiet_intros]: "steady m \<Longrightarrow> quiet (m_io m)"
  by (auto simp: quiet_def steady_def m_io_def split: prod.splits) (metis snd_conv)

lemma quiet_members [quiet_intros]: "quiet (rt_facts f)" "quiet rt_state"
  by (auto simp: rt_facts_def rt_state_def intro!: quiet_intros steady_intros)

lemma quiet_waiting [quiet_intros]: "quiet (advisory_waiting request)"
  unfolding advisory_waiting_def by (intro quiet_intros)

lemma meets_quiet: "quiet m \<Longrightarrow> meets (moved R a v) m (\<lambda>_. moved R a v) (moved R a v)"
  unfolding meets_def quiet_def moved_def by (auto split: prod.splits outcome.splits) (metis fst_conv snd_conv)+

lemma meets_quiet_at: "quiet m \<Longrightarrow> meets (at_state a v) m (\<lambda>_. at_state a v) (at_state a v)"
  unfolding meets_def quiet_def at_state_def by (auto split: prod.splits outcome.splits) (metis fst_conv snd_conv)+

text \<open>
  \<open>shifts R a v m\<close>: from \<open>v\<close>, whatever fails, \<open>m\<close> keeps the state or moves it by \<open>R\<close> to a valid one.
\<close>

definition shifts :: "(Metadata \<Rightarrow> json \<Rightarrow> json \<Rightarrow> bool) \<Rightarrow> Metadata \<Rightarrow> json \<Rightarrow> 'a rt \<Rightarrow> bool" where
  "shifts R a v m \<longleftrightarrow> meets (at_state a v) m (\<lambda>_. moved R a v) (moved R a v)"

lemma shifts_quiet: "quiet m \<Longrightarrow> shifts R a v m"
  unfolding shifts_def by (rule meets_weaken [OF meets_quiet_at]) (auto intro: at_state_moved)

lemma shifts_bind_quiet:
  assumes "quiet m" "\<And>x. shifts R a v (f x)"
  shows "shifts R a v (m_bind m f)"
  unfolding shifts_def
proof (rule meets_bind)
  show "meets (at_state a v) m (\<lambda>_. at_state a v) (moved R a v)"
    by (rule meets_weaken [OF meets_quiet_at [OF assms(1)]]) (auto intro: at_state_moved)
  show "meets (at_state a v) (f x) (\<lambda>_. moved R a v) (moved R a v)" for x using assms(2) by (simp add: shifts_def)
qed

lemma shifts_bind_lift:
  assumes "\<And>x. t = Inr x \<Longrightarrow> shifts R a v (f x)"
  shows "shifts R a v (m_bind (m_lift t) f)"
proof (cases t)
  case (Inl e)
  then show ?thesis by (simp add: shifts_quiet quiet_intros)
qed (use assms in simp)

lemma shifts_bind_state:
  assumes "shifts R a v (f v)"
  shows "shifts R a v (m_bind rt_state f)"
  using assms unfolding shifts_def meets_def rt_state_def
  by (simp add: m_bind_def m_io_def get_memory_def at_state_def)

lemma shifts_bind_metadata:
  assumes "shifts R a v (f a)"
  shows "shifts R a v (m_bind (m_get rt_metadata) f)"
  using assms unfolding shifts_def meets_def by (simp add: m_bind_def m_get_def at_state_def)

lemma shifts_bind_members:
  assumes "\<And>r. rt_metadata r = a \<Longrightarrow> shifts R a v (f r)"
  shows "shifts R a v (m_bind (m_get id) f)"
  using assms unfolding shifts_def meets_def by (simp add: m_bind_def m_get_def at_state_def)

lemma shifts_if: "(b \<Longrightarrow> shifts R a v m) \<Longrightarrow> (\<not> b \<Longrightarrow> shifts R a v n) \<Longrightarrow> shifts R a v (if b then m else n)"
  by simp

lemma rt_commit_meets:
  assumes "validate_state (unit_system_uid a) nx = Inr () \<Longrightarrow> nx = v \<or> R a v nx"
  shows "meets (at_state a v) (rt_commit nx ms) (\<lambda>_. moved R a v) (moved R a v)"
proof (rule meetsI)
  fix r w
  assume s: "at_state a v r w"
  have "case commit (unit_system_uid a) nx ms w of
      (Done x, w') \<Rightarrow> memory w' = nx \<and> validate_state (unit_system_uid a) nx = Inr ()
    | (_, w') \<Rightarrow> memory w' = v \<or> memory w' = nx \<and> validate_state (unit_system_uid a) nx = Inr ()"
    by (rule specD [OF commit_memory]) (use s in \<open>simp add: at_state_def\<close>)
  then show "case rt_commit nx ms r w of (Done x, s', w') \<Rightarrow> moved R a v s' w' | (_, s', w') \<Rightarrow> moved R a v s' w'"
    using s assms by (auto simp: rt_commit_def m_simps at_state_def moved_def split: prod.splits outcome.splits)
qed

lemma shifts_commit:
  assumes "validate_state (unit_system_uid a) nx = Inr () \<Longrightarrow> nx = v \<or> R a v nx" "\<And>b. quiet (f b)"
  shows "shifts R a v (m_bind (rt_commit nx ms) f)"
  unfolding shifts_def by (rule meets_bind [OF rt_commit_meets meets_quiet]) (use assms in auto)

section \<open>The transition relation\<close>

definition command_of :: "json \<Rightarrow> json result" where
  "command_of v = ebind (json_at v ''demoReset'') (\<lambda>r. json_at r ''command'')"

text \<open>The gateway's answer \<open>status\<close> belongs to the request of \<open>v\<close>.\<close>

definition correlated :: "json \<Rightarrow> json \<Rightarrow> json \<Rightarrow> bool" where
  "correlated v request status \<longleftrightarrow>
     json_at v ''lastRequest'' = Inr request \<and> \<not> is_null request \<and> validate_gateway_status status = Inr () \<and>
     same_fields [''requestId'', ''producerEpoch'', ''sequence''] request status = Inr True"

inductive state_step :: "Metadata \<Rightarrow> json \<Rightarrow> json \<Rightarrow> bool" for m v where
  assessed: "reset_pending v = Inr False \<Longrightarrow> is_sha256 digest \<Longrightarrow> plan_episode m v features ep digest = Inr (Some p) \<Longrightarrow>
    state_step m v (plan_state p)"
| renewed: "reset_pending v = Inr False \<Longrightarrow> ebind (json_at v ''model'') read_model = Inr model \<Longrightarrow> band model \<noteq> NotEvaluated \<Longrightarrow>
    renew_lease m model now v = Inr nx \<Longrightarrow> state_step m v (JObject nx)"
| answered: "correlated v request status \<Longrightarrow> answers_reset v request = Inr False \<Longrightarrow> at_array v ''gatewayStates'' = Inr states \<Longrightarrow>
    at_string status ''state'' = Inr answer \<Longrightarrow> any_string answer states = Inr False \<Longrightarrow>
    put_field ''gatewayStates'' (JArray (states @ [JString answer])) v = Inr v' \<Longrightarrow> state_step m v v'"
| reset_begun: "reset_pending v = Inr False \<Longrightarrow> repeated_command v command = Inr False \<Longrightarrow>
    ebind (control_binding m v) json_object = Inr binding \<Longrightarrow> check_binding binding command = Inr () \<Longrightarrow>
    begin_reset m v command now = Inr nx \<Longrightarrow> state_step m v (JObject nx)"
| reset_reissued: "reset_pending v = Inr True \<Longrightarrow> command_of v = Inr command \<Longrightarrow> at_string command ''commandId'' = Inr i \<Longrightarrow>
    ebind (json_object v) (issue_request m i Good now) = Inr nx \<Longrightarrow> state_step m v (JObject nx)"
| reset_cleared: "reset_pending v = Inr True \<Longrightarrow> correlated v request status \<Longrightarrow> answers_reset v request = Inr True \<Longrightarrow>
    at_string status ''state'' = Inr ''CLEARED'' \<Longrightarrow> ebind (cleared_ack m v request status) (with_ack v) = Inr acked \<Longrightarrow>
    put_field ''gatewayStates'' (JArray [JString ''CLEARED'']) acked = Inr v' \<Longrightarrow> state_step m v v'"
| reset_refused: "reset_pending v = Inr True \<Longrightarrow> command_of v = Inr command \<Longrightarrow> outcome_name \<in> {''FAILED'', ''REJECTED''} \<Longrightarrow>
    ebind (refused_ack outcome_name command) (with_ack v) = Inr v' \<Longrightarrow> state_step m v v'"
| reset_delivered: "reset_pending v = Inr False \<Longrightarrow> has_field v ''demoReset'' = Inr True \<Longrightarrow> json_at v ''demoReset'' = Inr reset \<Longrightarrow>
    null_at reset ''ack'' = Inr False \<Longrightarrow>
    ebind (put_field ''delivered'' (JBool True) reset) (\<lambda>d. put_field ''demoReset'' d v) = Inr v' \<Longrightarrow> state_step m v v'"

inductive_cases state_stepE: "state_step m v v'"

section \<open>Every method implements it\<close>

lemmas shifts_intros = shifts_bind_state shifts_bind_metadata shifts_bind_lift shifts_if

lemma shifts_return: "shifts R a v (m_return x)"
  by (rule shifts_quiet) (rule quiet_intros)

lemma shifts_throw: "shifts R a v (m_throw e)"
  by (rule shifts_quiet) (rule quiet_intros)

lemma shifts_apply_episode: "shifts state_step a v (apply_episode features ep digest)"
  unfolding apply_episode_def
proof (rule shifts_bind_quiet [OF quiet_basic(4)], rule shifts_if [OF shifts_return], rule shifts_bind_state, rule shifts_bind_lift,
    rule shifts_if [OF shifts_return], rule shifts_bind_metadata, rule shifts_bind_lift)
  fix present waiting planned
  assume guards: "reset_pending v = Inr waiting"
    "\<not> (waiting \<or> \<not> is_sha256 digest \<or> ep_terminal ep \<noteq> ''COMPLETE'' \<and> ep_terminal ep \<noteq> ''TRUNCATED_MAX_DURATION'')"
    "plan_episode a v features ep digest = Inr planned"
  show "shifts state_step a v (case planned of None \<Rightarrow> m_return False | Some p \<Rightarrow>
     m_bind (m_when (plan_lease p)
       (m_set (\<lambda>r. r\<lparr>rt_advisory_sent := False, rt_refresh_at := ep_ended ep, rt_last_write := -1\<rparr>))) (\<lambda>_.
     m_bind (rt_commit (plan_state p) (plan_messages p)) (\<lambda>committed.
     m_bind (rt_facts (facts_activity (if committed then ''COMPLETED'' else ''SKIPPED'')
       (if committed then ''NONE'' else ''STORAGE_UNAVAILABLE'') (Some (ep_id ep)))) (\<lambda>_.
     m_bind (m_when (committed \<and> plan_messages p \<noteq> [])
       (m_bind (m_lift (at_string (plan_assessment p) ''assessmentId'')) (\<lambda>i.
        m_bind (m_lift (at_string (plan_assessment p) ''sourceEventTime'')) (\<lambda>t.
          rt_facts (facts_result ''ASSESSMENT'' i t (service_version a)))))) (\<lambda>_.
       m_return committed)))))"
  proof (cases planned)
    case None
    then show ?thesis by (simp add: shifts_return)
  next
    case (Some p)
    have "state_step a v (plan_state p)" using guards Some by (intro assessed [where digest = digest]) auto
    then show ?thesis
      unfolding Some option.case
      by (intro shifts_bind_quiet shifts_commit quiet_intros disjI2) simp_all
  qed
qed

lemma shifts_next_reset_advisory:
  assumes "reset_pending v = Inr True"
  shows "shifts state_step a v (next_reset_advisory v now)"
  unfolding next_reset_advisory_def
proof (rule shifts_bind_lift, rule shifts_bind_lift, rule shifts_bind_lift, rule shifts_if [OF shifts_return],
    rule shifts_bind_members, rule shifts_if [OF shifts_return])
  fix command t expires_at r
  assume c: "ebind (json_at v ''demoReset'') (\<lambda>r. json_at r ''command'') = Inr command" and r: "rt_metadata r = a"
  let ?rest = "\<lambda>next. m_bind (m_set (\<lambda>r. r\<lparr>rt_last_write := now\<rparr>)) (\<lambda>_.
     m_bind (m_lift (json_at next ''lastRequest'')) (\<lambda>request.
     m_bind (advisory_waiting request) (\<lambda>_.
       m_lift (emap Some (canonical request)))))"
  have quiet: "quiet (?rest next)" for "next" by (intro quiet_intros) simp
  have step: "state_step a v (JObject nx)"
    if "at_string command ''commandId'' = Inr i" "ebind (json_object v) (issue_request (rt_metadata r) i Good now) = Inr nx" for i nx
    using assms c that by (intro reset_reissued [where command = command]) (simp_all add: r command_of_def)
  show "shifts state_step a v (m_bind (if rt_refresh_at r < 0 \<or> now - rt_refresh_at r \<ge> 5000 then
               m_bind (m_lift (at_string command ''commandId'')) (\<lambda>i.
               m_bind (m_lift (ebind (json_object v) (issue_request (rt_metadata r) i Good now))) (\<lambda>nx.
               m_bind (rt_commit (JObject nx) []) (\<lambda>_.
               m_bind (m_set (\<lambda>r. r\<lparr>rt_refresh_at := now\<rparr>)) (\<lambda>_. m_return (JObject nx)))))
             else m_return v) ?rest)"
  proof (cases "rt_refresh_at r < 0 \<or> now - rt_refresh_at r \<ge> 5000")
    case True
    then show ?thesis
      unfolding if_P [OF True] m_bind_assoc
      by (intro shifts_bind_lift shifts_commit quiet_intros quiet disjI2 step) simp_all
  next
    case False
    then show ?thesis unfolding if_not_P [OF False] m_bind_simps by (intro shifts_quiet quiet)
  qed
qed

lemma shifts_next_advisory: "shifts state_step a v (next_advisory now)"
  unfolding next_advisory_def
proof (rule shifts_bind_quiet [OF quiet_basic(4)], rule shifts_if [OF shifts_return], rule shifts_bind_state, rule shifts_bind_lift,
    rule shifts_if, goal_cases)
  case (1 present waiting)
  then show ?case by (intro shifts_next_reset_advisory) simp
next
  case (2 present waiting)
  then have idle: "reset_pending v = Inr False" by simp
  show ?case
  proof (rule shifts_bind_lift, rule shifts_if [OF shifts_return], rule shifts_bind_lift, rule shifts_bind_members, rule shifts_if,
      goal_cases)
    case (1 model request r)
    then show ?case by (intro shifts_quiet quiet_intros) simp
  next
    case (2 model request r)
    have step: "state_step a v (JObject nx)" if "renew_lease (rt_metadata r) model now v = Inr nx" for nx
      using idle 2 that by (intro renewed) simp_all
    show ?case
      by (intro shifts_if shifts_return shifts_bind_lift shifts_commit quiet_intros disjI2 step) simp_all
  qed
qed

lemma shifts_reset_answer:
  assumes "correlated v request status" "answers_reset v request = Inr True"
  shows "shifts state_step a v (reset_answer v request status)"
  unfolding reset_answer_def
proof (rule shifts_bind_lift, rule shifts_if [OF shifts_return], rule shifts_bind_lift, rule shifts_if [OF shifts_return],
    rule shifts_bind_lift, rule shifts_bind_metadata, rule shifts_bind_lift, rule shifts_bind_lift, goal_cases)
  case (1 waiting answer u acked nx)
  then have "state_step a v nx" using assms by (intro reset_cleared) simp_all
  then show ?case by (intro shifts_commit quiet_intros disjI2) simp_all
qed

lemma shifts_advisory_answer:
  assumes "correlated v request status" "answers_reset v request = Inr False"
  shows "shifts state_step a v (advisory_answer v request status f)"
  unfolding advisory_answer_def
proof (rule shifts_bind_lift, rule shifts_bind_lift, rule shifts_bind_lift, rule shifts_if [OF shifts_return], rule shifts_bind_lift,
    goal_cases)
  case (1 states answer seen nx)
  then have "state_step a v nx" using assms by (intro answered) simp_all
  then show ?case by (intro shifts_commit quiet_intros disjI2) simp_all
qed

lemma shifts_gateway_status: "shifts state_step a v (gateway_status bytes now)"
  unfolding gateway_status_def
proof (rule shifts_bind_quiet [OF quiet_basic(4)], rule shifts_if [OF shifts_return], rule shifts_bind_state, rule shifts_bind_lift,
    rule shifts_if [OF shifts_return], rule shifts_bind_lift, rule shifts_if [OF shifts_return], rule shifts_bind_lift,
    rule shifts_bind_lift, rule shifts_bind_lift, rule shifts_if [OF shifts_return], rule shifts_bind_lift, rule shifts_bind_lift,
    rule shifts_bind_lift, goal_cases)
  case (1 present request bound status u mine origin f resets)
  then have "correlated v request status" by (simp add: correlated_def)
  then show ?case using 1 by (intro shifts_if shifts_reset_answer shifts_advisory_answer) simp_all
qed

lemma shifts_function_status: "shifts state_step a v (function_status reason now missing)"
  unfolding function_status_def
proof (rule shifts_bind_quiet [OF quiet_basic(4)], rule shifts_if [OF shifts_return], rule shifts_if [OF shifts_throw],
    rule shifts_bind_quiet, goal_cases)
  case (1 present)
  show ?case by (intro quiet_intros) simp
next
  case (2 present u)
  show ?case
    by (intro shifts_bind_members shifts_if shifts_return shifts_bind_state shifts_bind_lift shifts_commit quiet_intros disjI1) simp_all
qed

lemma shifts_demo_control_command: "shifts state_step a v (demo_control_command bytes now)"
  unfolding demo_control_command_def
proof (rule shifts_bind_quiet [OF quiet_basic(4)], rule shifts_if [OF shifts_throw], rule shifts_bind_lift, rule shifts_bind_lift,
    rule shifts_bind_lift, rule shifts_if [OF shifts_return], rule shifts_bind_lift, rule shifts_bind_state, rule shifts_bind_metadata,
    rule shifts_bind_lift, rule shifts_bind_lift, rule shifts_if [OF shifts_return], rule shifts_bind_lift, rule shifts_bind_lift,
    rule shifts_bind_lift, goal_cases)
  case (1 present response u1 command u2 u3 repeated u4 u5 nx)
  obtain binding where "ebind (control_binding a v) json_object = Inr binding" "check_binding binding command = Inr ()"
    using 1 by (auto simp: ebind_eq_Inr)
  moreover have "reset_pending v = Inr False" using 1 by (simp add: ethrow_if_Inr)
  ultimately have "state_step a v (JObject nx)" using 1 by (intro reset_begun) simp_all
  then show ?case by (intro shifts_commit quiet_intros disjI2) simp_all
qed

lemma reset_pending_eq:
  assumes "has_field v ''demoReset'' = Inr True" "json_at v ''demoReset'' = Inr reset" "json_at reset ''ack'' = Inr ack"
  shows "reset_pending v = Inr (is_null ack)"
  using assms by (simp add: reset_pending_def null_at_def emap_def)

lemma shifts_demo_control_ack: "shifts state_step a v (demo_control_ack now)"
  unfolding demo_control_ack_def
proof (rule shifts_bind_quiet [OF quiet_basic(4)], rule shifts_if [OF shifts_return], rule shifts_bind_state, rule shifts_bind_lift,
    rule shifts_if [OF shifts_return], rule shifts_bind_lift, rule shifts_bind_lift, rule shifts_if [OF shifts_return],
    rule shifts_bind_lift, rule shifts_if, goal_cases)
  case (1 present has_reset reset delivered ack)
  show ?case by (intro shifts_quiet quiet_intros)
next
  case (2 present has_reset reset delivered ack)
  then have waiting: "reset_pending v = Inr True" using reset_pending_eq [of v reset ack] by simp
  show ?case
  proof (rule shifts_bind_lift, rule shifts_bind_lift, rule shifts_bind_lift, rule shifts_if [OF shifts_return], rule shifts_bind_lift,
      rule shifts_bind_lift, goal_cases)
    case (1 t command expires_at failed nx)
    then have "state_step a v nx"
      using 2 waiting by (intro reset_refused [where command = command and outcome_name = "''FAILED''"]) (simp_all add: command_of_def)
    then show ?case by (intro shifts_commit quiet_intros disjI2) simp_all
  qed
qed

lemma shifts_demo_control_accepted: "shifts state_step a v (demo_control_accepted bytes)"
  unfolding demo_control_accepted_def
proof (rule shifts_bind_quiet [OF quiet_basic(4)], rule shifts_if [OF shifts_return], rule shifts_bind_state, rule shifts_bind_lift,
    rule shifts_if [OF shifts_return], rule shifts_bind_lift, rule shifts_bind_lift, rule shifts_bind_lift, rule shifts_bind_lift,
    goal_cases)
  case (1 present has_reset reset response u nx)
  then have ack: "null_at reset ''ack'' = Inr False" by (auto simp: ethrow_if_Inr ebind_eq_Inr split: if_splits)
  then obtain x where "json_at reset ''ack'' = Inr x" "\<not> is_null x" by (auto simp: null_at_def emap_eq_Inr)
  then have "reset_pending v = Inr False" using 1 reset_pending_eq [of v reset x] by simp
  then have "state_step a v nx" using 1 ack by (intro reset_delivered) simp_all
  then show ?case by (intro shifts_commit quiet_intros disjI2) simp_all
qed

lemma shifts_reject_foreign_reset: "shifts state_step a v reject_foreign_reset"
  unfolding reject_foreign_reset_def
proof (rule shifts_bind_quiet [OF quiet_basic(4)], rule shifts_if [OF shifts_return], rule shifts_bind_state, rule shifts_bind_lift,
    rule shifts_if [OF shifts_return], rule shifts_bind_metadata, rule shifts_bind_lift, rule shifts_bind_lift, rule shifts_bind_lift,
    rule shifts_if [OF shifts_return], rule shifts_bind_lift, goal_cases)
  case (1 present waiting binding command matches nx)
  then have "state_step a v nx"
    by (intro reset_refused [where command = command and outcome_name = "''REJECTED''"]) (simp_all add: command_of_def)
  then show ?case by (intro shifts_commit quiet_intros disjI2) simp_all
qed

section \<open>The other methods\<close>

lemma quiet_option [quiet_intros]:
  "quiet m \<Longrightarrow> (\<And>y. quiet (f y)) \<Longrightarrow> quiet (case x of None \<Rightarrow> m | Some y \<Rightarrow> f y)"
  by (cases x) simp_all

lemma quiet_pair [quiet_intros]: "(\<And>y z. quiet (f y z)) \<Longrightarrow> quiet (case x of (y, z) \<Rightarrow> f y z)"
  by (cases x) simp

lemma steady_acknowledge [steady_intros]: "steady (acknowledge p response)"
  unfolding acknowledge_def Let_def durable_file_def
  by (intro steady_intros) (auto intro!: steady_intros)

lemma quiet_input [quiet_intros]:
  "quiet (runtime_ingest uuid frame received)" "quiet reauthenticate" "quiet (expire_input observed)" "quiet disconnect" "quiet stop"
  "quiet (input_observation connection state reason)" "quiet (advisory_observation state)"
  unfolding runtime_ingest_def reauthenticate_def expire_input_def disconnect_def stop_def input_observation_def
    advisory_observation_def Let_def
  by (intro quiet_intros; simp add: lose_input_def)+

lemma quiet_queries [quiet_intros]:
  "quiet next_message" "quiet (accept p response)" "quiet demo_control_poll" "quiet (advisory_readiness now)"
  "quiet observation_binding" "quiet function_observation"
  unfolding next_message_def accept_def demo_control_poll_def advisory_readiness_def observation_binding_def function_observation_def
  by (intro quiet_intros steady_intros)+

section \<open>Calls\<close>

datatype call =
    CallIngest string Frame int | CallReauthenticate | CallExpire int | CallDisconnect | CallStop | CallMetadata Metadata
  | CallStatus string int "string list" | CallMessage | CallAccept Pending HttpResponse | CallEpisode Features Episode string
  | CallAdvisory int | CallGateway string int | CallPoll | CallCommand string int | CallAck int | CallAccepted string
  | CallReadiness int | CallBinding | CallObservation | CallInput string string string | CallAdvisoryState string

definition silently :: "'a rt \<Rightarrow> string option rt" where
  "silently m = m_bind m (\<lambda>_. m_return None)"

text \<open>A call; its result is the advisory request it hands out for the gateway, if it hands out one.\<close>

fun perform :: "call \<Rightarrow> string option rt" where
  "perform (CallIngest uuid frame received) = silently (runtime_ingest uuid frame received)"
| "perform CallReauthenticate = silently reauthenticate"
| "perform (CallExpire observed) = silently (expire_input observed)"
| "perform CallDisconnect = silently disconnect"
| "perform CallStop = silently stop"
| "perform (CallMetadata m) = silently (update_vdp_metadata m)"
| "perform (CallStatus reason now missing) = silently (function_status reason now missing)"
| "perform CallMessage = silently next_message"
| "perform (CallAccept p response) = silently (accept p response)"
| "perform (CallEpisode features ep digest) = silently (apply_episode features ep digest)"
| "perform (CallAdvisory now) = next_advisory now"
| "perform (CallGateway bytes now) = silently (gateway_status bytes now)"
| "perform CallPoll = silently demo_control_poll"
| "perform (CallCommand bytes now) = silently (demo_control_command bytes now)"
| "perform (CallAck now) = silently (demo_control_ack now)"
| "perform (CallAccepted bytes) = silently (demo_control_accepted bytes)"
| "perform (CallReadiness now) = silently (advisory_readiness now)"
| "perform CallBinding = silently observation_binding"
| "perform CallObservation = silently function_observation"
| "perform (CallInput connection state reason) = silently (input_observation connection state reason)"
| "perform (CallAdvisoryState state) = silently (advisory_observation state)"

lemma shifts_silently: "shifts R a v m \<Longrightarrow> shifts R a v (silently m)"
  unfolding shifts_def silently_def by (erule meets_bind) (rule meets_quiet, rule quiet_intros)

lemma quiet_silently: "quiet m \<Longrightarrow> quiet (silently m)"
  unfolding silently_def by (intro quiet_intros)

lemmas shifts_methods = shifts_apply_episode shifts_next_advisory shifts_gateway_status shifts_function_status
  shifts_demo_control_command shifts_demo_control_ack shifts_demo_control_accepted

lemma shifts_perform:
  assumes "\<And>m. c \<noteq> CallMetadata m"
  shows "shifts state_step a v (perform c)"
  by (cases c) (use assms in \<open>simp_all add: shifts_silently shifts_methods shifts_quiet quiet_silently quiet_intros\<close>)

text \<open>What changing the metadata keeps: the identity of the service.\<close>

definition same_identity :: "Metadata \<Rightarrow> Metadata \<Rightarrow> bool" where
  "same_identity m n \<longleftrightarrow>
     unit_system_uid m = unit_system_uid n \<and> unit_role m = unit_role n \<and> service_version m = service_version n \<and>
     service_artifact_sha256 m = service_artifact_sha256 n \<and> service_instance m = service_instance n"

lemma perform_step:
  assumes "perform c r w = (res, r', w')"
  shows "same_identity (rt_metadata r) (rt_metadata r') \<and>
    (memory w' = memory w \<or>
     state_step (rt_metadata r) (memory w) (memory w') \<and> validate_state (unit_system_uid (rt_metadata r)) (memory w') = Inr ())"
proof (cases "\<exists>m. c = CallMetadata m")
  case True
  then show ?thesis
    using assms by (auto simp: silently_def update_vdp_metadata_def m_simps same_identity_def split: if_splits)
next
  case False
  then have "shifts state_step (rt_metadata r) (memory w) (perform c)" by (intro shifts_perform) auto
  from meetsD [OF this [unfolded shifts_def], of r w] assms
  have "moved state_step (rt_metadata r) (memory w) r' w'"
    by (auto simp: at_state_def split: outcome.splits)
  then show ?thesis by (auto simp: moved_def same_identity_def)
qed

end
