(* ===== verification/Advisories.thy ===== *)
theory Advisories
  imports Transitions Runs
begin

text \<open>
  Consequences of the transition relation: advisory requests carry strictly increasing sequence numbers, the epoch
  that numbers them never changes, a reset goes through its phases in order, and an exercise that was applied once
  is never applied again.
\<close>

section \<open>What a step changes\<close>

definition request_fields :: "string list" where
  "request_fields = [''gatewayStates'', ''nextAdvisorySequence'', ''lastRequestMetadata'', ''lastRequest'']"

lemma json_integer_eq: "json_integer v = Inr n \<longleftrightarrow> v = JInt n"
  by (cases v) (auto simp: invalid_def)

lemma advisory_request_get:
  assumes "advisory_request m epoch sequence decision b now = Inr q"
  shows "at_integer q ''sequence'' = Inr sequence" "at_string q ''decisionId'' = Inr decision"
    "at_string q ''producerEpoch'' = Inr epoch" "at_string q ''serviceVersion'' = Inr (service_version m)" "\<not> is_null q"
proof -
  let ?es = "[(''schemaVersion'', Inr (JInt 1)), (''requestId'', emap JString (uuid_v5 epoch [show_int sequence])),
              (''producerEpoch'', Inr (JString epoch)), (''sequence'', Inr (JInt sequence)),
              (''decisionId'', Inr (JString decision)), (''serviceVersion'', Inr (JString (service_version m))),
              (''modelVersion'', Inr (JString ''1.0.0'')), (''issuedAt'', emap JString (utc_timestamp now)),
              (''expiresAt'', emap JString (utc_timestamp (now + 30000))),
              (''operation'', Inr (JString (if b = Good then ''CLEAR'' else ''SET''))),
              (''reasonCode'', Inr (JString (if b = Good then ''CONDITION_CLEARED'' else ''PREDICTED_TIRE_WEAR'')))]"
  have guard: "\<not> (\<not> is_uuid epoch \<or> \<not> is_uuid decision \<or> sequence < 1 \<or> b = NotEvaluated)"
    by (rule notI) (use assms in \<open>simp add: advisory_request_def\<close>)
  obtain r v where r: "object_of ?es = Inr r" and q: "q = JObject (if b = Good then r else dict_set ''recommendation'' v r)"
    using assms [unfolded advisory_request_def if_not_P [OF guard] ebind_eq_Inr] by blast
  have "distinct (map fst ?es)" by simp
  note g = object_of_get(1) [OF r this]
  have "dict_get r ''sequence'' = Some (JInt sequence)" "dict_get r ''decisionId'' = Some (JString decision)"
    "dict_get r ''producerEpoch'' = Some (JString epoch)" "dict_get r ''serviceVersion'' = Some (JString (service_version m))"
    by (simp_all add: g)
  then show "at_integer q ''sequence'' = Inr sequence" "at_string q ''decisionId'' = Inr decision"
    "at_string q ''producerEpoch'' = Inr epoch" "at_string q ''serviceVersion'' = Inr (service_version m)" "\<not> is_null q"
    by (simp_all add: q at_integer_def at_string_def dict_at_def)
qed

lemma issue_request_get:
  assumes "issue_request m decision b now nx = Inr nx'"
  obtains n q epoch binding where "dict_get nx ''nextAdvisorySequence'' = Some (JInt n)" "dict_get nx ''producerEpoch'' = Some (JString epoch)"
    "advisory_request m epoch n decision b now = Inr q" "metadata_binding m = Inr binding"
    "nx' = dict_set ''gatewayStates'' (JArray []) (dict_set ''nextAdvisorySequence'' (JInt (n + 1))
             (dict_set ''lastRequestMetadata'' binding (dict_set ''lastRequest'' q nx)))"
  using assms that
  by (auto simp: issue_request_def ebind_eq_Inr dict_at_get json_integer_eq json_string_eq)

lemma store_model_get:
  assumes "store_model model digest nx = Inr nx'"
  obtains u where "write_model model digest (JObject nx) = Inr u" "nx' = dict_set ''model'' u nx"
  using assms by (auto simp: store_model_def emap_eq_Inr)

lemma publish_get:
  assumes "publish_assessment a ep message nx = Inr (messages, nx')"
  shows "nx' = nx \<and> messages = [] \<or> nx' = dict_set ''lastPublishedAt'' (JInt (ep_ended ep)) nx \<and> messages \<noteq> []"
  using assms by (auto simp: publish_assessment_def ebind_eq_Inr emap_eq_Inr split: if_splits)

text \<open>How the episode leads to the new state.\<close>

lemma plan_episode_get:
  assumes "plan_episode m v features ep digest = Inr (Some p)"
  obtains nx stored_model model0 model1 model2 a where "v = JObject nx" "dict_get nx ''model'' = Some stored_model"
    "read_model stored_model = Inr model0" "carry_consumed v (ep_id ep) model0 = Inr (Some model1)"
    "check_model_digest stored_model digest = Inr ()" "assess model1 features (int (length (ep_samples ep))) (ep_id ep) = (model2, Some a)"
    "finish_plan m model2 a ep digest nx = Inr p"
proof -
  obtain nx stored_model model0 carried where *: "v = JObject nx" "dict_get nx ''model'' = Some stored_model"
    "read_model stored_model = Inr model0" "carry_consumed v (ep_id ep) model0 = Inr carried"
    and rest: "(case carried of None \<Rightarrow> Inr None | Some model1 \<Rightarrow>
     ebind (check_model_digest stored_model digest) (\<lambda>_.
     case assess model1 features (int (length (ep_samples ep))) (ep_id ep) of
       (_, None) \<Rightarrow> Inr None
     | (model2, Some a) \<Rightarrow> emap Some (finish_plan m model2 a ep digest nx))) = Inr (Some p)"
    using assms by (auto simp only: plan_episode_def ebind_eq_Inr json_object_eq dict_at_get)
  obtain model1 where c: "carried = Some model1" using rest by (cases carried) auto
  obtain model2 r where a: "assess model1 features (int (length (ep_samples ep))) (ep_id ep) = (model2, r)" by fastforce
  show thesis
    using rest * a by (intro that [of nx stored_model model0 model1 model2 "the r"]) (auto simp: c ebind_eq_Inr emap_eq_Inr split: option.splits)
qed

lemma finish_plan_get:
  assumes "finish_plan m model2 a ep digest nx = Inr p"
  obtains message i messages nx1 nx2 nx3 where "assessment_message m a ep digest = Inr message" "at_string message ''assessmentId'' = Inr i"
    "publish_assessment a ep message nx = Inr (messages, nx1)" "store_model (model2\<lparr>last_assessment := i\<rparr>) digest nx1 = Inr nx2"
    "(if lease_due a then schedule_lease m (model2\<lparr>last_assessment := i\<rparr>) digest (ep_ended ep) nx2 else Inr nx2) = Inr nx3"
    "p = \<lparr>plan_state = JObject nx3, plan_messages = messages, plan_assessment = message, plan_lease = lease_due a\<rparr>"
  using assms that by (auto simp: finish_plan_def ebind_eq_Inr Let_def split: prod.splits)

section \<open>Numbering of requests\<close>

text \<open>A step keeps the epoch, and keeps the request and its number or uses up the next number for a new request.\<close>

definition numbering :: "json \<Rightarrow> json \<Rightarrow> bool" where
  "numbering v v' \<longleftrightarrow>
     json_at v' ''producerEpoch'' = json_at v ''producerEpoch'' \<and>
     (json_at v' ''lastRequest'' = json_at v ''lastRequest'' \<and>
      json_at v' ''nextAdvisorySequence'' = json_at v ''nextAdvisorySequence'' \<or>
      (\<exists>n q. at_integer v ''nextAdvisorySequence'' = Inr n \<and> at_integer v' ''nextAdvisorySequence'' = Inr (n + 1) \<and>
         json_at v' ''lastRequest'' = Inr q \<and> at_integer q ''sequence'' = Inr n \<and> \<not> is_null q))"

lemma numbering_same:
  assumes "\<And>k. k \<in> {''producerEpoch'', ''lastRequest'', ''nextAdvisorySequence''} \<Longrightarrow> dict_get nx' k = dict_get nx k"
  shows "numbering (JObject nx) (JObject nx')"
  using assms by (simp add: numbering_def dict_at_def)

lemma numbering_trans_same:
  assumes "numbering (JObject nx) (JObject nx')"
    "\<And>k. k \<in> {''producerEpoch'', ''lastRequest'', ''nextAdvisorySequence''} \<Longrightarrow> dict_get n1 k = dict_get nx k"
    "\<And>k. k \<in> {''producerEpoch'', ''lastRequest'', ''nextAdvisorySequence''} \<Longrightarrow> dict_get n2 k = dict_get nx' k"
  shows "numbering (JObject n1) (JObject n2)"
  using assms by (simp add: numbering_def dict_at_def at_integer_def)

lemma numbering_issue:
  assumes "issue_request m decision b now nx = Inr nx'"
  shows "numbering (JObject nx) (JObject nx')"
proof (rule issue_request_get [OF assms])
  fix n q epoch binding
  assume "dict_get nx ''nextAdvisorySequence'' = Some (JInt n)" "advisory_request m epoch n decision b now = Inr q"
    "nx' = dict_set ''gatewayStates'' (JArray []) (dict_set ''nextAdvisorySequence'' (JInt (n + 1))
       (dict_set ''lastRequestMetadata'' binding (dict_set ''lastRequest'' q nx)))"
  then show ?thesis
    using advisory_request_get(1,5) [of m epoch n decision b now q] by (simp add: numbering_def dict_at_def at_integer_def)
qed

lemma with_ack_get:
  assumes "with_ack v ack = Inr v'"
  obtains nx reset where "v = JObject nx" "dict_get nx ''demoReset'' = Some (JObject reset)"
    "v' = JObject (dict_set ''demoReset'' (JObject (dict_set ''ack'' ack reset)) nx)"
  using assms that by (auto simp: with_ack_def ebind_eq_Inr json_object_eq dict_at_get)

lemma begin_reset_get:
  assumes "begin_reset m v command now = Inr nx'"
  obtains nx model i where "v = JObject nx" "dict_get nx ''model'' = Some model" "at_string command ''commandId'' = Inr i"
    "issue_request m i Good now (dict_set ''lastPublishedAt'' (JInt 0) (dict_set ''model'' JNull
       (dict_set ''demoReset'' (JObject (dict_init
         [(''command'', command), (''previousModel'', model), (''ack'', JNull), (''delivered'', JBool False)] [])) nx))) = Inr nx'"
  using assms that by (auto simp: begin_reset_def ebind_eq_Inr json_object_eq dict_at_get simp del: dict_init.simps)

lemma renew_lease_get:
  assumes "renew_lease m model now v = Inr nx'"
  obtains nx nx1 digest u where "v = JObject nx" "issue_request m (last_assessment model) (band model) now nx = Inr nx1"
    "write_model model digest (JObject nx1) = Inr u" "nx' = dict_set ''model'' u nx1"
  using assms that by (auto simp: renew_lease_def ebind_eq_Inr json_object_eq elim!: store_model_get)

lemma plan_numbering:
  assumes "plan_episode m v features ep digest = Inr (Some p)"
  shows "numbering v (plan_state p)"
  using assms
proof (rule plan_episode_get)
  fix nx model2 a
  assume v: "v = JObject nx" and "finish_plan m model2 a ep digest nx = Inr p"
  from this(2) show ?thesis
  proof (rule finish_plan_get)
    fix message i messages nx1 nx2 nx3
    assume n: "publish_assessment a ep message nx = Inr (messages, nx1)" "store_model (model2\<lparr>last_assessment := i\<rparr>) digest nx1 = Inr nx2"
      "(if lease_due a then schedule_lease m (model2\<lparr>last_assessment := i\<rparr>) digest (ep_ended ep) nx2 else Inr nx2) = Inr nx3"
      and p: "p = \<lparr>plan_state = JObject nx3, plan_messages = messages, plan_assessment = message, plan_lease = lease_due a\<rparr>"
    have same: "dict_get nx k = dict_get nx2 k" if "k \<in> {''producerEpoch'', ''lastRequest'', ''nextAdvisorySequence''}" for k
      using publish_get [OF n(1)] n(2) that by (auto elim!: store_model_get)
    show ?thesis
    proof (cases "lease_due a")
      case True
      then obtain nx' where i: "issue_request m (last_assessment (model2\<lparr>last_assessment := i\<rparr>)) (band (model2\<lparr>last_assessment := i\<rparr>)) (ep_ended ep) nx2 = Inr nx'"
        "store_model (model2\<lparr>last_assessment := i\<rparr>) digest nx' = Inr nx3"
        using n(3) by (auto simp: schedule_lease_def ebind_eq_Inr)
      from i(2) obtain u where "nx3 = dict_set ''model'' u nx'" by (rule store_model_get)
      then have "dict_get nx3 k = dict_get nx' k" if "k \<in> {''producerEpoch'', ''lastRequest'', ''nextAdvisorySequence''}" for k
        using that by auto
      then show ?thesis unfolding v p using numbering_trans_same [OF numbering_issue [OF i(1)] same] by simp
    next
      case False
      then show ?thesis using n(3) unfolding v p by (auto intro!: numbering_same simp: same)
    qed
  qed
qed

lemma state_step_numbering: "state_step m v v' \<Longrightarrow> numbering v v'"
proof (induction rule: state_step.induct)
  case (assessed digest features ep p)
  then show ?case by (intro plan_numbering)
next
  case (renewed model now nx')
  then show ?case
    by (auto elim!: renew_lease_get intro!: numbering_trans_same [OF numbering_issue])
next
  case (answered request status states answer v')
  then show ?case by (auto dest!: put_field_get intro!: numbering_same)
next
  case (reset_begun command binding now nx')
  then show ?case
    by (auto elim!: begin_reset_get intro!: numbering_trans_same [OF numbering_issue] simp del: dict_init.simps)
next
  case (reset_reissued command i now nx')
  then show ?case by (auto simp: ebind_eq_Inr json_object_eq intro!: numbering_issue)
next
  case (reset_cleared request status acked v')
  then show ?case by (auto simp: ebind_eq_Inr elim!: with_ack_get dest!: put_field_get intro!: numbering_same)
next
  case (reset_refused command outcome_name v')
  then show ?case by (auto simp: ebind_eq_Inr elim!: with_ack_get intro!: numbering_same)
next
  case (reset_delivered reset v')
  then show ?case by (auto simp: ebind_eq_Inr dest!: put_field_get intro!: numbering_same)
qed

section \<open>Requests handed out\<close>

text \<open>The text \<open>t\<close> is that of the request the state records.\<close>

definition hands :: "json \<Rightarrow> string \<Rightarrow> bool" where
  "hands v t \<longleftrightarrow> (\<exists>q. json_at v ''lastRequest'' = Inr q \<and> \<not> is_null q \<and> canonical q = Inr t)"

definition handed :: "string option outcome \<Rightarrow> string list" where
  "handed res = (case res of Done (Some t) \<Rightarrow> [t] | _ \<Rightarrow> [])"

text \<open>\<open>ends v m Q\<close>: started on state \<open>v\<close>, a result of \<open>m\<close> satisfies \<open>Q\<close> together with the state it leaves.\<close>

definition ends :: "json \<Rightarrow> 'a rt \<Rightarrow> ('a \<Rightarrow> json \<Rightarrow> bool) \<Rightarrow> bool" where
  "ends v m Q \<longleftrightarrow> meets (\<lambda>r w. memory w = v) m (\<lambda>x r w. Q x (memory w)) (\<lambda>r w. True)"

lemma ends_return: "Q x v \<Longrightarrow> ends v (m_return x) Q"
  by (simp add: ends_def meets_def m_return_def)

lemma ends_bind_quiet:
  assumes "quiet m" "\<And>x. ends v (f x) Q"
  shows "ends v (m_bind m f) Q"
  unfolding ends_def
proof (rule meets_bind)
  show "meets (\<lambda>r w. memory w = v) m (\<lambda>_ r w. memory w = v) (\<lambda>r w. True)"
    using assms(1) unfolding meets_def quiet_def by (auto split: prod.splits outcome.splits) (metis fst_conv snd_conv)
  show "meets (\<lambda>r w. memory w = v) (f x) (\<lambda>x r w. Q x (memory w)) (\<lambda>r w. True)" for x
    using assms(2) by (simp add: ends_def)
qed

lemma ends_bind_lift: "(\<And>x. t = Inr x \<Longrightarrow> ends v (f x) Q) \<Longrightarrow> ends v (m_bind (m_lift t) f) Q"
  by (cases t) (simp_all add: ends_def meets_throw)

lemma ends_lift: "(\<And>x. t = Inr x \<Longrightarrow> Q x v) \<Longrightarrow> ends v (m_lift t) Q"
  by (cases t) (simp_all add: ends_def meets_def m_return_def m_throw_def)

lemma ends_bind_state: "ends v (f v) Q \<Longrightarrow> ends v (m_bind rt_state f) Q"
  unfolding ends_def meets_def rt_state_def by (simp add: m_bind_def m_io_def get_memory_def)

lemma ends_bind_get: "(\<And>r. ends v (f (g r)) Q) \<Longrightarrow> ends v (m_bind (m_get g) f) Q"
  unfolding ends_def meets_def by (simp add: m_bind_def m_get_def)

lemma ends_bind_commit:
  assumes "\<And>b. ends nx (f b) Q"
  shows "ends v (m_bind (rt_commit nx ms) f) Q"
  unfolding ends_def
proof (rule meets_bind)
  show "meets (\<lambda>r w. memory w = v) (rt_commit nx ms) (\<lambda>_ r w. memory w = nx) (\<lambda>r w. True)"
  proof (rule meetsI)
    fix r :: Runtime and w :: world
    assume "memory w = v"
    from specD [OF commit_memory [of v "unit_system_uid (rt_metadata r)" nx ms], OF this]
    show "case rt_commit nx ms r w of (Done x, s', w') \<Rightarrow> memory w' = nx | (_, s', w') \<Rightarrow> True"
      by (auto simp: rt_commit_def m_simps split: prod.splits outcome.splits)
  qed
  show "meets (\<lambda>r w. memory w = nx) (f b) (\<lambda>x r w. Q x (memory w)) (\<lambda>r w. True)" for b
    using assms by (simp add: ends_def)
qed

lemma ends_if: "(b \<Longrightarrow> ends v m Q) \<Longrightarrow> (\<not> b \<Longrightarrow> ends v n Q) \<Longrightarrow> ends v (if b then m else n) Q"
  by simp

abbreviation hands_out :: "string option \<Rightarrow> json \<Rightarrow> bool" where
  "hands_out x v \<equiv> (\<forall>t. x = Some t \<longrightarrow> hands v t)"

lemma ends_request:
  assumes "json_at v ''lastRequest'' = Inr q"
  shows "ends v (m_bind (advisory_waiting q) (\<lambda>_. m_lift (emap Some (canonical q)))) hands_out"
proof (cases "is_null q")
  case True
  then have "q = JNull" by (simp add: is_null_def)
  then show ?thesis
    by (simp add: advisory_waiting_def at_string_def json_at_def invalid_def ends_def meets_throw m_bind_assoc)
next
  case False
  with assms show ?thesis
    by (intro ends_bind_quiet quiet_intros ends_lift) (auto simp: hands_def emap_eq_Inr)
qed

lemma ends_next_reset_advisory: "ends v (next_reset_advisory v now) hands_out"
  unfolding next_reset_advisory_def
proof (rule ends_bind_lift, rule ends_bind_lift, rule ends_bind_lift, rule ends_if, goal_cases)
  case (1 command t expires_at)
  show ?case by (rule ends_return) simp
next
  case (2 command t expires_at)
  have last: "ends nx (m_bind (m_set (\<lambda>r. r\<lparr>rt_last_write := now\<rparr>)) (\<lambda>_.
      m_bind (m_lift (json_at nx ''lastRequest'')) (\<lambda>request.
      m_bind (advisory_waiting request) (\<lambda>_. m_lift (emap Some (canonical request)))))) hands_out" for nx
    by (intro ends_bind_quiet quiet_intros ends_bind_lift ends_request) simp_all
  show ?case
  proof (rule ends_bind_get, rule ends_if, goal_cases)
    case (1 r)
    show ?case by (rule ends_return) simp
  next
    case (2 r)
    show ?case
    proof (cases "rt_refresh_at (id r) < 0 \<or> now - rt_refresh_at (id r) \<ge> 5000")
      case True
      show ?thesis
        unfolding if_P [OF True] m_bind_assoc m_bind_simps
        by (intro ends_bind_lift ends_bind_commit ends_bind_quiet quiet_intros last) simp
    next
      case False
      show ?thesis unfolding if_not_P [OF False] m_bind_simps by (rule last)
    qed
  qed
qed

lemma ends_next_advisory: "ends v (next_advisory now) hands_out"
  unfolding next_advisory_def
proof (rule ends_bind_get, rule ends_if, goal_cases)
  case (1 r)
  show ?case by (rule ends_return) simp
next
  case (2 r)
  show ?case
  proof (rule ends_bind_state, rule ends_bind_lift, rule ends_if [OF ends_next_reset_advisory], rule ends_bind_lift, rule ends_if,
      goal_cases)
    case (1 waiting model)
    show ?case by (rule ends_return) simp
  next
    case (2 waiting model)
    show ?case
      by (intro ends_bind_lift ends_bind_get ends_if ends_bind_quiet quiet_intros ends_request ends_bind_commit)
        (auto intro: ends_return)
  qed
qed

section \<open>Runs\<close>

text \<open>
  \<open>calls r0 w0 outs r w\<close>: a sequence of calls, some of which may throw, none of which stops the program, leads from
  \<open>(r0, w0)\<close> to \<open>(r, w)\<close> and hands out the requests \<open>outs\<close>.
\<close>

definition call_step :: "Runtime \<times> world \<Rightarrow> string list \<Rightarrow> Runtime \<times> world \<Rightarrow> bool" where
  "call_step a out b \<longleftrightarrow> (\<exists>c res. perform c (fst a) (snd a) = (res, fst b, snd b) \<and> res \<noteq> Crashed \<and> out = handed res)"

abbreviation calls :: "Runtime \<Rightarrow> world \<Rightarrow> string list \<Rightarrow> Runtime \<Rightarrow> world \<Rightarrow> bool" where
  "calls r0 w0 outs r w \<equiv> trace call_step (r0, w0) outs (r, w)"

lemma calls_one: "perform c r w = (res, r', w') \<Longrightarrow> res \<noteq> Crashed \<Longrightarrow> calls r w (handed res) r' w'"
  by (rule trace_one) (auto simp: call_step_def)

lemma handed_hands:
  assumes "perform c r w = (res, r', w')" "t \<in> set (handed res)"
  shows "handed res = [t] \<and> hands (memory w') t"
proof -
  have res: "res = Done (Some t)" using assms(2) by (auto simp: handed_def split: outcome.splits option.splits)
  have "\<exists>now. c = CallAdvisory now"
    using assms(1) unfolding res by (cases c) (auto simp: silently_def m_bind_def m_return_def split: prod.splits outcome.splits)
  then obtain now where "next_advisory now r w = (Done (Some t), r', w')" using assms(1) res by auto
  then have "hands (memory w') t"
    using meetsD [OF ends_next_advisory [of "memory w" now, unfolded ends_def], of w r] by simp
  then show ?thesis by (simp add: res handed_def)
qed

section \<open>Sequence numbers\<close>

definition before :: "json \<Rightarrow> json \<Rightarrow> bool" where
  "before q q' \<longleftrightarrow> (\<exists>i j. at_integer q ''sequence'' = Inr i \<and> at_integer q' ''sequence'' = Inr j \<and> i < j)"

lemma valid_last_request:
  assumes "validate_state uid v = Inr ()"
  obtains q n where "json_at v ''lastRequest'' = Inr q" "at_integer v ''nextAdvisorySequence'' = Inr n"
    "is_null q \<or> (\<exists>i. at_integer q ''sequence'' = Inr i \<and> i < n) \<and> at_string q ''producerEpoch'' = at_string v ''producerEpoch''"
proof -
  have c: "check_last_request v = Inr ()" and e: "check_envelope uid v = Inr ()"
    using assms by (auto simp: validate_state_def validate_round_def ebind_eq_Inr)
  obtain q where q: "json_at v ''lastRequest'' = Inr q" using c by (auto simp: check_last_request_def ebind_eq_Inr)
  obtain n where n: "at_integer v ''nextAdvisorySequence'' = Inr n"
    using e unfolding check_envelope_def ethrow_if_Inr eany_False by (auto simp: result_simps)
  have "is_null q \<or> (\<exists>i. at_integer q ''sequence'' = Inr i \<and> i < n) \<and> at_string q ''producerEpoch'' = at_string v ''producerEpoch''"
    using c q n unfolding check_last_request_def ethrow_if_Inr eany_False strings_differ_def
    by (auto simp: result_simps split: if_splits)
  then show thesis using that q n by blast
qed

text \<open>\<open>qs\<close> were handed out in this order; the state records the last of them or a later request.\<close>

definition in_order :: "json list \<Rightarrow> json \<Rightarrow> bool" where
  "in_order qs v \<longleftrightarrow>
     sorted_wrt (\<lambda>a b. a = b \<or> before a b) qs \<and>
     (\<forall>q\<in>set qs. \<not> is_null q \<and> at_string q ''producerEpoch'' = at_string v ''producerEpoch'' \<and>
        (\<exists>l. json_at v ''lastRequest'' = Inr l \<and> (q = l \<or> before q l)))"

lemma before_null: "\<not> before q JNull"
  by (simp add: before_def at_integer_def json_at_def invalid_def)

lemma in_order_step:
  assumes o: "in_order qs v" and n: "numbering v v'" and valid: "validate_state uid v = Inr ()"
  shows "in_order qs v'"
proof -
  obtain l k where l: "json_at v ''lastRequest'' = Inr l" "at_integer v ''nextAdvisorySequence'' = Inr k"
    "is_null l \<or> (\<exists>i. at_integer l ''sequence'' = Inr i \<and> i < k) \<and> at_string l ''producerEpoch'' = at_string v ''producerEpoch''"
    using valid by (rule valid_last_request)
  have epoch: "at_string v' ''producerEpoch'' = at_string v ''producerEpoch''"
    using n by (simp add: numbering_def at_string_def)
  have "\<exists>l'. json_at v' ''lastRequest'' = Inr l' \<and> (q = l' \<or> before q l')" if q: "q \<in> set qs" for q
  proof -
    have ql: "\<not> is_null q" "q = l \<or> before q l" using o q l(1) by (auto simp: in_order_def)
    then obtain i where i: "at_integer q ''sequence'' = Inr i" "i < k"
      using l(3) before_null [of q] by (auto simp: before_def is_null_def)
    show ?thesis
    proof (cases "json_at v' ''lastRequest'' = json_at v ''lastRequest''")
      case True
      then show ?thesis using ql l(1) by simp
    next
      case False
      then obtain q' where "json_at v' ''lastRequest'' = Inr q'" "at_integer q' ''sequence'' = Inr k"
        using n l(2) by (auto simp: numbering_def)
      then show ?thesis using i by (auto simp: before_def)
    qed
  qed
  then show ?thesis using o epoch by (auto simp: in_order_def)
qed

lemma in_order_hand:
  assumes o: "in_order qs v" and q: "json_at v ''lastRequest'' = Inr q" "\<not> is_null q" and valid: "validate_state uid v = Inr ()"
  shows "in_order (qs @ [q]) v"
  using valid
proof (rule valid_last_request)
  fix l n
  assume "json_at v ''lastRequest'' = Inr l"
    "is_null l \<or> (\<exists>i. at_integer l ''sequence'' = Inr i \<and> i < n) \<and> at_string l ''producerEpoch'' = at_string v ''producerEpoch''"
  then have "at_string q ''producerEpoch'' = at_string v ''producerEpoch''" using q by simp
  then show ?thesis using o q by (auto simp: in_order_def sorted_wrt_append)
qed

section \<open>From the start of the service\<close>

lemma io_bind_Done:
  "io_bind m f w = (Done y, w'') \<longleftrightarrow> (\<exists>x w'. m w = (Done x, w') \<and> f x w' = (Done y, w''))"
  by (auto simp: io_bind_def split: prod.splits outcome.splits)

lemma open_store_valid:
  assumes "open_store uid epoch w = (Done (), w')"
  shows "validate_state uid (memory w') = Inr ()"
proof -
  obtain w1 where "finish_open uid epoch w1 = (Done (), w')"
    using assms unfolding open_store_stages io_bind_Done by blast
  then obtain w2 where rest: "io_bind get_memory (\<lambda>state.
     io_bind (read_file Root ''state.sha256'' 64) (\<lambda>digest.
     io_bind (io_lift (canonical state)) (\<lambda>text.
     io_bind (io_throw_if (digest \<noteq> sha256_hex text) ''NOT_READY_STATE'') (\<lambda>_.
     io_bind (io_lift (validate_state uid state)) (\<lambda>_.
       validate_queue uid))))) w2 = (Done (), w')" (is "?m w2 = _")
    unfolding finish_open_def io_bind_Done by blast
  have "reads ?m" by (intro reads_intros)
  then have "snd (?m w2) = w2" by (simp only: reads_def)
  then have w: "w' = w2" by (simp only: rest snd_conv)
  obtain v where v: "get_memory w2 = (Done v, w2)" and r1: "io_bind (read_file Root ''state.sha256'' 64) (\<lambda>digest.
     io_bind (io_lift (canonical v)) (\<lambda>text.
     io_bind (io_throw_if (digest \<noteq> sha256_hex text) ''NOT_READY_STATE'') (\<lambda>_.
     io_bind (io_lift (validate_state uid v)) (\<lambda>_. validate_queue uid)))) w2 = (Done (), w')"
    using rest by (rule io_bind_reads [OF reads_basic(11)])
  obtain d where r2: "io_bind (io_lift (canonical v)) (\<lambda>text.
     io_bind (io_throw_if (d \<noteq> sha256_hex text) ''NOT_READY_STATE'') (\<lambda>_.
     io_bind (io_lift (validate_state uid v)) (\<lambda>_. validate_queue uid))) w2 = (Done (), w')"
    using r1 by (rule io_bind_reads [OF reads_basic(6)])
  obtain t where r3: "io_bind (io_throw_if (d \<noteq> sha256_hex t) ''NOT_READY_STATE'') (\<lambda>_.
     io_bind (io_lift (validate_state uid v)) (\<lambda>_. validate_queue uid)) w2 = (Done (), w')"
    using r2 by (rule io_bind_reads [OF reads_basic(3)])
  have "io_bind (io_lift (validate_state uid v)) (\<lambda>_. validate_queue uid) w2 = (Done (), w')"
    using r3 by (rule io_bind_reads [OF reads_basic(4)])
  then obtain u where "io_lift (validate_state uid v) w2 = (Done u, w2)"
    by (rule io_bind_reads [OF reads_basic(3)])
  then show ?thesis using v w by (auto simp: io_lift_def get_memory_def split: sum.splits)
qed

text \<open>The runtime as its constructor leaves it, with its store.\<close>

lemma runtime_start_valid:
  assumes "runtime_start epoch m w = (Done r, w')" "rt_store r"
  shows "rt_metadata r = m" "validate_state (unit_system_uid m) (memory w') = Inr ()"
proof -
  obtain res w1 where o: "open_store (unit_system_uid m) epoch w = (res, w1)" by fastforce
  let ?r = "fresh_runtime (case res of Done _ \<Rightarrow> True | _ \<Rightarrow> False) m"
  obtain u r' where rej: "reject_foreign_reset ?r w1 = (Done u, r, w')" and res: "res \<noteq> Crashed"
    using assms(1) o by (auto simp: runtime_start_def split: outcome.splits prod.splits)
  have "moved state_step m (memory w1) r w'"
    using meetsD [OF shifts_reject_foreign_reset [of m "memory w1", unfolded shifts_def], of ?r w1] rej
    by (simp add: at_state_def fresh_runtime_def)
  moreover have "validate_state (unit_system_uid m) (memory w1) = Inr ()"
  proof (cases res)
    case (Done x)
    then show ?thesis using o open_store_valid by simp
  next
    case (Threw e)
    then have "reject_foreign_reset ?r w1 = (Done (), ?r, w1)"
      by (simp add: reject_foreign_reset_def m_simps fresh_runtime_def)
    then have "\<not> rt_store r" using rej Threw by (auto simp: fresh_runtime_def)
    with assms(2) show ?thesis by simp
  qed (use res in simp)
  ultimately show "rt_metadata r = m" "validate_state (unit_system_uid m) (memory w') = Inr ()" by (auto simp: moved_def)
qed

lemma same_identity_trans: "same_identity a b \<Longrightarrow> same_identity b c \<Longrightarrow> same_identity a c"
  by (simp add: same_identity_def)

text \<open>
  The invariant of a runtime that serves a unit: its identity, a valid document, the epoch of the store, and the requests
  handed out in order.
\<close>

definition serves :: "Metadata \<Rightarrow> string result \<Rightarrow> string list \<Rightarrow> Runtime \<times> world \<Rightarrow> bool" where
  "serves m epoch outs a \<longleftrightarrow>
     same_identity m (rt_metadata (fst a)) \<and> validate_state (unit_system_uid m) (memory (snd a)) = Inr () \<and>
     at_string (memory (snd a)) ''producerEpoch'' = epoch \<and>
     (\<exists>qs. list_all2 (\<lambda>q t. canonical q = Inr t) qs outs \<and> in_order qs (memory (snd a)))"

lemma serves_hand:
  assumes "perform c r w = (res, r', w')" "validate_state uid (memory w') = Inr ()"
    "list_all2 (\<lambda>q t. canonical q = Inr t) qs outs" "in_order qs (memory w')"
  shows "\<exists>qs. list_all2 (\<lambda>q t. canonical q = Inr t) qs (outs @ handed res) \<and> in_order qs (memory w')"
proof (cases "handed res")
  case Nil
  then show ?thesis using assms(3,4) by auto
next
  case (Cons t ts)
  then have h: "handed res = [t]" "hands (memory w') t" using handed_hands [OF assms(1), of t] by auto
  then obtain q where q: "json_at (memory w') ''lastRequest'' = Inr q" "\<not> is_null q" "canonical q = Inr t" by (auto simp: hands_def)
  then have "in_order (qs @ [q]) (memory w')" using in_order_hand [OF assms(4) q(1,2) assms(2)] by simp
  moreover have "list_all2 (\<lambda>q t. canonical q = Inr t) (qs @ [q]) (outs @ handed res)"
    using assms(3) q(3) h(1) by (simp add: list_all2_appendI)
  ultimately show ?thesis by blast
qed

lemma serves_step:
  assumes "serves m epoch outs a" "call_step a out b"
  shows "serves m epoch (outs @ out) b"
proof -
  obtain c res where p: "perform c (fst a) (snd a) = (res, fst b, snd b)" "out = handed res"
    using assms(2) by (auto simp: call_step_def)
  obtain qs where i: "same_identity m (rt_metadata (fst a))" "validate_state (unit_system_uid m) (memory (snd a)) = Inr ()"
    "at_string (memory (snd a)) ''producerEpoch'' = epoch" "list_all2 (\<lambda>q t. canonical q = Inr t) qs outs" "in_order qs (memory (snd a))"
    using assms(1) by (auto simp: serves_def)
  note st = perform_step [OF p(1)]
  have id: "same_identity m (rt_metadata (fst b))" using st i(1) same_identity_trans by blast
  have valid: "validate_state (unit_system_uid m) (memory (snd b)) = Inr ()" using st i(1,2) by (auto simp: same_identity_def)
  have "memory (snd b) = memory (snd a) \<or> numbering (memory (snd a)) (memory (snd b))" using st state_step_numbering by blast
  then have "in_order qs (memory (snd b))" "at_string (memory (snd b)) ''producerEpoch'' = epoch"
    using i in_order_step [OF i(5) _ i(2)] by (auto simp: numbering_def at_string_def)
  then show ?thesis using serves_hand [OF p(1) valid i(4)] id valid by (simp add: serves_def p(2))
qed

interpretation methods: run_invariant call_step "serves m epoch" for m epoch
  by unfold_locales (rule serves_step)

lemma serves_start:
  assumes "runtime_start epoch m w = (Done r0, w0)" "rt_store r0"
  shows "serves m (at_string (memory w0) ''producerEpoch'') [] (r0, w0)"
  using runtime_start_valid [OF assms] by (auto simp: serves_def same_identity_def in_order_def)

section \<open>A concrete runtime\<close>

definition demo_runtime :: Runtime where
  "demo_runtime = fresh_runtime True demo_metadata"

lemma demo_start:
  obtains w where "runtime_start demo_epoch demo_metadata (demo_world []) = (Done demo_runtime, w)" "memory w = demo_state"
    "holds demo_contents w" "script w = []"
proof -
  have "triple (holds demo_contents) (open_store demo_uid demo_epoch) (\<lambda>_ w. memory w = demo_state \<and> holds demo_contents w)
      (\<lambda>w. True)"
    by (rule triple_weaken [OF open_clean_triple [OF demo_clean]]) simp_all
  moreover have "script (demo_world []) = []" by (simp add: demo_world_def)
  ultimately obtain w where w: "open_store demo_uid demo_epoch (demo_world []) = (Done (), w)" "memory w = demo_state"
    "holds demo_contents w" "script w = []"
    using demo_holds [of "[]"] unfolding triple_def runs_def by (metis old.unit.exhaust)
  have u: "unit_system_uid demo_metadata = demo_uid" by (simp add: demo_metadata_def demo_uid_def)
  have "reset_pending demo_state = Inr False"
    by (simp add: reset_pending_def has_field_def demo_state_fields dict_has_def emap_def)
  then have "runtime_start demo_epoch demo_metadata (demo_world []) = (Done demo_runtime, w)"
    using w by (simp add: runtime_start_def u reject_foreign_reset_def m_simps fresh_runtime_def demo_runtime_def rt_state_def get_memory_def)
  then show thesis using that w by blast
qed

section \<open>Properties\<close>

text \<open>C7: Every public method of \<^verbatim>\<open>Runtime\<close>, called in any state and whatever system calls fail or stop it, leaves
  the durable state as it was or moves it by exactly one step of the transition relation to a state that passes the
  store's validation, and it never changes the identity of the unit, the service version or the instance.\<close>

theorem methods_refine_steps:
  "case perform c r w of (res, r', w') \<Rightarrow>
     same_identity (rt_metadata r) (rt_metadata r') \<and>
     (memory w' = memory w \<or>
      state_step (rt_metadata r) (memory w) (memory w') \<and> validate_state (unit_system_uid (rt_metadata r)) (memory w') = Inr ())"
  using perform_step [of c r w] by (simp split: prod.splits)

text \<open>Advisory requests are numbered without reuse: over any sequence of calls on a runtime that has started, with
  any failures of system calls, the requests handed to the gateway are in the order of their sequence numbers, two of
  them with the same number are the same request sent again, and all carry the epoch of the store.\<close>

theorem advisory_requests_ordered:
  assumes "runtime_start epoch m w = (Done r0, w0)" "rt_store r0" "calls r0 w0 outs r1 w1"
  shows "\<exists>qs. list_all2 (\<lambda>q t. canonical q = Inr t) qs outs \<and> sorted_wrt (\<lambda>a b. a = b \<or> before a b) qs \<and>
    (\<forall>q\<in>set qs. at_string q ''producerEpoch'' = at_string (memory w0) ''producerEpoch'')"
  using methods.throughout [OF assms(3) serves_start [OF assms(1,2)]] by (auto simp: serves_def in_order_def)

theorem advisory_requests_ordered_witness:
  "\<exists>w0 res r1 w1 qs. runtime_start demo_epoch demo_metadata (demo_world []) = (Done demo_runtime, w0) \<and>
     perform (CallAdvisory 5000) demo_runtime w0 = (res, r1, w1) \<and> list_all2 (\<lambda>q t. canonical q = Inr t) qs (handed res) \<and>
     (\<forall>q\<in>set qs. at_string q ''producerEpoch'' = Inr demo_epoch)"
proof (rule demo_start)
  fix w0
  assume w0: "runtime_start demo_epoch demo_metadata (demo_world []) = (Done demo_runtime, w0)" "memory w0 = demo_state"
  have s: "rt_store demo_runtime" by (simp add: demo_runtime_def fresh_runtime_def)
  have "reset_pending demo_state = Inr False" "json_at demo_state ''model'' = Inr JNull"
    by (simp_all add: reset_pending_def has_field_def demo_state_fields dict_has_def emap_def dict_at_def)
  then have p: "perform (CallAdvisory 5000) demo_runtime w0 = (Done None, demo_runtime, w0)"
    using s w0(2) by (simp add: next_advisory_def m_simps rt_state_def get_memory_def read_model_def initial_model_def)
  have "calls demo_runtime w0 (handed (Done None)) demo_runtime w0" by (rule calls_one [OF p]) simp
  moreover have "at_string demo_state ''producerEpoch'' = Inr demo_epoch" by (simp add: demo_state_fields at_string_def dict_at_def)
  ultimately show ?thesis using advisory_requests_ordered [OF w0(1) s] w0 p by fastforce
qed

end
