(* ===== verification/Resets.thy ===== *)
theory Resets
  imports Advisories
begin

text \<open>
  The reset protocol as a small state machine over the field \<^verbatim>\<open>demoReset\<close>, and what a reset does to the list of
  exercises the model has consumed.
\<close>

section \<open>Phases\<close>

text \<open>The command a reset serves, its result once there is one, and whether the result was delivered.\<close>

datatype phase = Idle | Waiting string | Answered string string bool

definition reset_phase :: "json \<Rightarrow> phase" where
  "reset_phase v =
     (if has_field v ''demoReset'' \<noteq> Inr True then Idle
      else let r = projr (json_at v ''demoReset'');
               i = projr (ebind (json_at r ''command'') (\<lambda>c. at_string c ''commandId''));
               a = projr (json_at r ''ack'')
           in if is_null a then Waiting i else Answered i (projr (at_string a ''result'')) (projr (at_boolean r ''delivered'')))"

inductive phase_step :: "phase \<Rightarrow> phase \<Rightarrow> bool" where
  begin_first: "phase_step Idle (Waiting i)"
| begin_next: "i \<noteq> j \<Longrightarrow> phase_step (Answered i a d) (Waiting j)"
| answer: "a \<in> {''CLEARED'', ''FAILED'', ''REJECTED''} \<Longrightarrow> phase_step (Waiting i) (Answered i a False)"
| deliver: "phase_step (Answered i a d) (Answered i a True)"

inductive_simps phase_step_Idle: "phase_step Idle p"
inductive_simps phase_step_Waiting: "phase_step (Waiting i) p"
inductive_simps phase_step_Answered: "phase_step (Answered i a d) p"

lemma phase_of_fields:
  assumes "dict_get nx ''demoReset'' = Some (JObject r)" "dict_get r ''ack'' = Some a"
    "dict_get r ''command'' = Some c" "at_string c ''commandId'' = Inr i"
  shows "reset_phase (JObject nx) =
    (if is_null a then Waiting i else Answered i (projr (at_string a ''result'')) (projr (at_boolean (JObject r) ''delivered'')))"
  using assms by (simp add: reset_phase_def has_field_def dict_has_def emap_def dict_at_def)

lemma phase_same:
  assumes "dict_get nx' ''demoReset'' = dict_get nx ''demoReset''"
  shows "reset_phase (JObject nx') = reset_phase (JObject nx)"
  using assms by (simp add: reset_phase_def has_field_def dict_has_def dict_at_def emap_def)

text \<open>What validation says of a reset.\<close>

lemma valid_reset:
  assumes "validate_state uid (JObject nx) = Inr ()" "dict_get nx ''demoReset'' = Some reset"
  obtains r c a i d where "reset = JObject r" "dict_get r ''command'' = Some c" "dict_get r ''ack'' = Some a"
    "at_string c ''commandId'' = Inr i" "at_boolean reset ''delivered'' = Inr d" "is_null a \<Longrightarrow> \<not> d"
proof -
  let ?v = "JObject nx"
  have "check_demo_reset (validate_round (\<lambda>_. Inl OutOfFuel) uid) uid ?v = Inr ()"
    using assms(1) by (auto simp: validate_state_def validate_round_def ebind_eq_Inr)
  then obtain c none where c: "json_at reset ''command'' = Inr c" "check_reset_command uid ?v reset c = Inr ()"
    "check_reset_ack reset c = Inr ()" "null_at reset ''previousModel'' = Inr none"
    using assms(2) by (auto simp: check_demo_reset_def has_field_def dict_has_def emap_def dict_at_def ebind_eq_Inr)
  obtain i where i: "at_string c ''commandId'' = Inr i" and d: "\<exists>d. at_boolean reset ''delivered'' = Inr d"
    using c(2) unfolding check_reset_command_def ebind_eq_Inr ethrow_if_Inr eany_False by (auto simp: result_simps)
  obtain r where r: "reset = JObject r" using c(1) by (cases reset) (auto simp: json_at_def invalid_def)
  obtain a where a: "json_at reset ''ack'' = Inr a" "is_null a \<longrightarrow> at_boolean reset ''delivered'' = Inr False"
    using c(3) by (auto simp: check_reset_ack_def ebind_eq_Inr ethrow_if_Inr split: if_splits)
  show thesis
    using c(1) i d a r by (intro that [of r c a i "projr (at_boolean reset ''delivered'')"]) (auto simp: dict_at_get)
qed

section \<open>Steps and phases\<close>

text \<open>Issuing a request and storing a model touch only their own fields.\<close>

lemma issue_request_other:
  assumes "issue_request m decision b now nx = Inr nx'" "k \<notin> set request_fields"
  shows "dict_get nx' k = dict_get nx k"
  using assms by (auto elim!: issue_request_get simp: request_fields_def)

lemma store_model_other: "store_model model digest nx = Inr nx' \<Longrightarrow> k \<noteq> ''model'' \<Longrightarrow> dict_get nx' k = dict_get nx k"
  by (auto elim!: store_model_get)

lemma plan_state_get:
  assumes "plan_episode m v features ep digest = Inr (Some p)"
  obtains nx nx' where "v = JObject nx" "plan_state p = JObject nx'"
    "\<And>k. k \<notin> set (''lastPublishedAt'' # ''model'' # request_fields) \<Longrightarrow> dict_get nx' k = dict_get nx k"
  using assms
proof (rule plan_episode_get)
  fix nx model2 a
  assume v: "v = JObject nx" and f: "finish_plan m model2 a ep digest nx = Inr p"
  from f show thesis
  proof (rule finish_plan_get)
    fix message i messages nx1 nx2 nx3
    assume n: "publish_assessment a ep message nx = Inr (messages, nx1)" "store_model (model2\<lparr>last_assessment := i\<rparr>) digest nx1 = Inr nx2"
      "(if lease_due a then schedule_lease m (model2\<lparr>last_assessment := i\<rparr>) digest (ep_ended ep) nx2 else Inr nx2) = Inr nx3"
      and p: "p = \<lparr>plan_state = JObject nx3, plan_messages = messages, plan_assessment = message, plan_lease = lease_due a\<rparr>"
    have "dict_get nx3 k = dict_get nx k" if k: "k \<notin> set (''lastPublishedAt'' # ''model'' # request_fields)" for k
    proof -
      have "dict_get nx2 k = dict_get nx k" using publish_get [OF n(1)] store_model_other [OF n(2)] k by auto
      moreover have "dict_get nx3 k = dict_get nx2 k"
        using n(3) k by (auto simp: schedule_lease_def ebind_eq_Inr issue_request_other store_model_other split: if_splits)
      ultimately show ?thesis by simp
    qed
    then show thesis using that [OF v, of nx3] p by simp
  qed
qed

lemma with_ack_phase:
  assumes valid: "validate_state uid v = Inr ()" and waiting: "reset_pending v = Inr True" and ack: "with_ack v ack = Inr v'"
    and a: "\<not> is_null ack" "at_string ack ''result'' = Inr res" "res \<in> {''CLEARED'', ''FAILED'', ''REJECTED''}"
  shows "phase_step (reset_phase v) (reset_phase v')"
  using ack
proof (rule with_ack_get)
  fix nx reset
  assume v: "v = JObject nx" "dict_get nx ''demoReset'' = Some (JObject reset)"
    "v' = JObject (dict_set ''demoReset'' (JObject (dict_set ''ack'' ack reset)) nx)"
  from valid [unfolded v(1)] v(2) show ?thesis
  proof (rule valid_reset)
    fix r c x i d
    assume r: "JObject reset = JObject r" "dict_get r ''command'' = Some c" "dict_get r ''ack'' = Some x"
      "at_string c ''commandId'' = Inr i" "at_boolean (JObject reset) ''delivered'' = Inr d" "is_null x \<Longrightarrow> \<not> d"
    have null: "is_null x"
      using waiting v r by (simp add: reset_pending_def has_field_def dict_has_def emap_def dict_at_def null_at_def split: if_splits)
    have "reset_phase v = Waiting i" using phase_of_fields [of nx r x c i] v r null by simp
    moreover have "reset_phase v' = Answered i res False"
      using phase_of_fields [of "dict_set ''demoReset'' (JObject (dict_set ''ack'' ack r)) nx" "dict_set ''ack'' ack r" ack c i]
        v r null a by (simp add: at_boolean_def dict_at_def)
    ultimately show ?thesis using a(3) by (simp add: phase_step.answer)
  qed
qed

lemma refused_ack_get:
  assumes "refused_ack outcome_name command = Inr ack"
  shows "\<not> is_null ack" "at_string ack ''result'' = Inr outcome_name"
  using assms by (auto simp: refused_ack_def ebind_eq_Inr at_string_def dict_at_def)

lemma cleared_ack_get:
  assumes "cleared_ack m v request status = Inr ack"
  shows "\<not> is_null ack" "at_string ack ''result'' = Inr ''CLEARED''"
  using assms by (auto simp: cleared_ack_def ebind_eq_Inr at_string_def dict_at_def)

lemma begin_reset_phase:
  assumes valid: "validate_state uid v = Inr ()" and idle: "reset_pending v = Inr False"
    and rep: "repeated_command v command = Inr False" and b: "begin_reset m v command now = Inr nx'"
  shows "phase_step (reset_phase v) (reset_phase (JObject nx'))"
  using b
proof (rule begin_reset_get)
  fix nx model i
  assume v: "v = JObject nx" and i: "at_string command ''commandId'' = Inr i"
    and iss: "issue_request m i Good now (dict_set ''lastPublishedAt'' (JInt 0) (dict_set ''model'' JNull
       (dict_set ''demoReset'' (JObject (dict_init
         [(''command'', command), (''previousModel'', model), (''ack'', JNull), (''delivered'', JBool False)] [])) nx))) = Inr nx'"
  let ?r = "dict_init [(''command'', command), (''previousModel'', model), (''ack'', JNull), (''delivered'', JBool False)] []"
  have "dict_get nx' ''demoReset'' = Some (JObject ?r)"
    using issue_request_other [OF iss, of "''demoReset''"] by (simp add: request_fields_def)
  moreover have "dict_get ?r ''ack'' = Some JNull" "dict_get ?r ''command'' = Some command" by (simp_all add: dict_get_emplace)
  ultimately have new: "reset_phase (JObject nx') = Waiting i" using phase_of_fields [of nx' ?r JNull command i] i by simp
  show ?thesis
  proof (cases "dict_get nx ''demoReset''")
    case None
    then have "reset_phase v = Idle" by (simp add: v reset_phase_def has_field_def dict_has_def emap_def)
    then show ?thesis by (simp add: new phase_step.begin_first)
  next
    case (Some reset)
    from valid [unfolded v] Some show ?thesis
    proof (rule valid_reset)
      fix r c a j d
      assume r: "reset = JObject r" "dict_get r ''command'' = Some c" "dict_get r ''ack'' = Some a" "at_string c ''commandId'' = Inr j"
      have "\<not> is_null a"
        using idle Some v r by (simp add: reset_pending_def has_field_def dict_has_def emap_def dict_at_def null_at_def split: if_splits)
      then obtain x d' where "reset_phase v = Answered j x d'" using phase_of_fields [of nx r a c j] Some v r by auto
      moreover have "i \<noteq> j"
        using rep Some v r i
        by (auto simp: repeated_command_def has_field_def dict_has_def emap_def dict_at_def strings_differ_def ebind_eq_Inr split: if_splits)
      ultimately show ?thesis by (simp add: new phase_step.begin_next)
    qed
  qed
qed

lemma delivered_phase:
  assumes valid: "validate_state uid v = Inr ()" and reset: "json_at v ''demoReset'' = Inr reset" "null_at reset ''ack'' = Inr False"
    and d: "ebind (put_field ''delivered'' (JBool True) reset) (\<lambda>d. put_field ''demoReset'' d v) = Inr v'"
  shows "phase_step (reset_phase v) (reset_phase v')"
proof -
  obtain nx r where v: "v = JObject nx" "reset = JObject r" "v' = JObject (dict_set ''demoReset'' (JObject (dict_set ''delivered'' (JBool True) r)) nx)"
    using d by (auto simp: ebind_eq_Inr dest!: put_field_get)
  have "dict_get nx ''demoReset'' = Some reset" using reset(1) v(1) by (simp add: dict_at_get)
  from valid [unfolded v(1)] this show ?thesis
  proof (rule valid_reset)
    fix r' c a i b
    assume r: "reset = JObject r'" "dict_get r' ''command'' = Some c" "dict_get r' ''ack'' = Some a" "at_string c ''commandId'' = Inr i"
    have a: "\<not> is_null a" using reset(2) r v(2) by (simp add: null_at_def emap_def dict_at_def)
    have "reset_phase v = Answered i (projr (at_string a ''result'')) (projr (at_boolean (JObject r') ''delivered''))"
      using phase_of_fields [of nx r' a c i] v r reset(1) a by (simp add: dict_at_get)
    moreover have "reset_phase v' = Answered i (projr (at_string a ''result'')) True"
      using phase_of_fields [of "dict_set ''demoReset'' (JObject (dict_set ''delivered'' (JBool True) r')) nx" "dict_set ''delivered'' (JBool True) r'" a c i]
        v r a by (simp add: at_boolean_def dict_at_def)
    ultimately show ?thesis by (simp add: phase_step.deliver)
  qed
qed

lemma state_step_phase:
  assumes "state_step m v v'" "validate_state uid v = Inr ()"
  shows "reset_phase v' = reset_phase v \<or> phase_step (reset_phase v) (reset_phase v')"
  using assms
proof (induction rule: state_step.induct)
  case (assessed digest features ep p)
  obtain nx nx' where n: "v = JObject nx" "plan_state p = JObject nx'"
    "\<And>k. k \<notin> set (''lastPublishedAt'' # ''model'' # request_fields) \<Longrightarrow> dict_get nx' k = dict_get nx k"
    using plan_state_get [OF assessed(3)] by metis
  have "dict_get nx' ''demoReset'' = dict_get nx ''demoReset''" by (rule n(3)) (simp add: request_fields_def)
  then show ?case unfolding n(1,2) by (intro disjI1 phase_same)
next
  case (renewed model now nx')
  from renewed(4) show ?case
    by (rule renew_lease_get) (auto simp: issue_request_other request_fields_def intro!: phase_same)
next
  case (answered request status states answer v')
  then show ?case by (auto dest!: put_field_get intro!: phase_same)
next
  case (reset_begun command binding now nx')
  then show ?case by (intro disjI2 begin_reset_phase)
next
  case (reset_reissued command i now nx')
  then show ?case by (auto simp: ebind_eq_Inr json_object_eq issue_request_other request_fields_def intro!: phase_same)
next
  case (reset_cleared request status acked v')
  obtain ack where ack: "cleared_ack m v request status = Inr ack" "with_ack v ack = Inr acked"
    using reset_cleared(5) by (auto simp: ebind_eq_Inr)
  have "phase_step (reset_phase v) (reset_phase acked)"
    using with_ack_phase [OF reset_cleared.prems reset_cleared(1) ack(2)] cleared_ack_get [OF ack(1)] by simp
  moreover have "reset_phase v' = reset_phase acked" using reset_cleared(6) by (auto dest!: put_field_get intro!: phase_same)
  ultimately show ?case by simp
next
  case (reset_refused command outcome_name v')
  then obtain ack where ack: "refused_ack outcome_name command = Inr ack" "with_ack v ack = Inr v'" by (auto simp: ebind_eq_Inr)
  show ?case
    using with_ack_phase [OF reset_refused.prems reset_refused(1) ack(2)] refused_ack_get [OF ack(1)] reset_refused(3) by auto
next
  case (reset_delivered reset v')
  then show ?case by (intro disjI2 delivered_phase)
qed

section \<open>Consumed exercises\<close>

definition recent_of :: "json \<Rightarrow> string list" where
  "recent_of j = (case ebind (at_array j ''recentSourceExerciseIds'') (emapM json_string) of Inr ids \<Rightarrow> ids | Inl _ \<Rightarrow> [])"

text \<open>The exercises the model remembers to have consumed; after a reset, those of the model before it.\<close>

definition consumed :: "json \<Rightarrow> string list" where
  "consumed v =
     (case json_at v ''model'' of
        Inl _ \<Rightarrow> []
      | Inr m \<Rightarrow>
          if \<not> is_null m then recent_of m
          else (case ebind (json_at v ''demoReset'') (\<lambda>r. json_at r ''previousModel'') of Inl _ \<Rightarrow> [] | Inr pm \<Rightarrow> recent_of pm))"

lemma recent_of_null [simp]: "recent_of JNull = []"
  by (simp add: recent_of_def at_array_def json_at_def invalid_def)

lemma emapM_strings: "emapM json_string (map JString ss) = Inr ss"
  by (induction ss) simp_all

lemma recent_of_written:
  assumes "write_model model digest v = Inr u"
  shows "recent_of u = recent model" "\<not> is_null u"
proof -
  let ?es = "[(''schemaVersion'', Inr (JInt 1)), (''modelId'', Inr (JString ''tire-condition-demo-v1'')),
        (''modelConfigSha256'', Inr (JString digest)), (''conditionScore'', Inr (JInt (score model))),
        (''conditionBand'', Inr (JString (band_name (band model)))), (''confidencePercent'', Inr (JInt (confidence model))),
        (''betterBandCandidate'', Inr (JString (if better model = NotEvaluated then ''NONE'' else band_name (better model)))),
        (''betterBandEpisodeCount'', Inr (JInt (better_count model))),
        (''lastAppliedSourceExerciseId'', Inr (JString (last_source model))), (''lastAssessmentId'', Inr (JString (last_assessment model))),
        (''recentSourceExerciseIds'', Inr (JArray (map JString (recent model)))),
        (''producerEpoch'', json_at v ''producerEpoch''), (''nextAdvisorySequence'', json_at v ''nextAdvisorySequence'')]"
  obtain d where d: "object_of ?es = Inr d" and u: "u = JObject d" using assms by (auto simp: write_model_def emap_eq_Inr)
  have "distinct (map fst ?es)" by simp
  from object_of_get(1) [OF d this, of "''recentSourceExerciseIds''"]
  have "dict_get d ''recentSourceExerciseIds'' = Some (JArray (map JString (recent model)))" by simp
  then show "recent_of u = recent model" "\<not> is_null u"
    by (simp_all add: u recent_of_def at_array_def dict_at_def emapM_strings)
qed

lemma read_model_recent:
  assumes "read_model j = Inr model"
  shows "recent model = recent_of j" "is_null j \<Longrightarrow> model = initial_model"
  using assms by (auto simp: read_model_def recent_of_def ebind_eq_Inr initial_model_def is_null_def at_array_def json_at_def invalid_def split: if_splits)

text \<open>An episode is planned from exactly the exercises remembered, and only for a new one.\<close>

lemma carry_consumed_recent:
  assumes v: "v = JObject nx" "dict_get nx ''model'' = Some j" and r: "read_model j = Inr model0"
    and c: "carry_consumed v i model0 = Inr (Some model1)"
  shows "recent model1 = consumed v"
proof (cases "is_null j")
  case False
  then have "model1 = model0"
    using c v by (auto simp: carry_consumed_def ebind_eq_Inr null_at_def emap_eq_Inr dict_at_get split: if_splits)
  then show ?thesis using False v read_model_recent(1) [OF r] by (simp add: consumed_def dict_at_def)
next
  case True
  then have m0: "recent model0 = []" using read_model_recent [OF r] by (simp add: initial_model_def)
  have con: "consumed v = (case ebind (json_at v ''demoReset'') (\<lambda>r. json_at r ''previousModel'') of Inl _ \<Rightarrow> [] | Inr pm \<Rightarrow> recent_of pm)"
    using True v by (simp add: consumed_def dict_at_def)
  from c obtain b where b: "eall [has_field v ''demoReset'',
      ebind (json_at v ''demoReset'') (\<lambda>r. emap Not (null_at r ''previousModel''))] = Inr b"
    by (auto simp: carry_consumed_def ebind_eq_Inr)
  show ?thesis
  proof (cases b)
    case True
    with c b obtain pm ids names where pm: "ebind (json_at v ''demoReset'') (\<lambda>r. json_at r ''previousModel'') = Inr pm"
      "at_array pm ''recentSourceExerciseIds'' = Inr ids" "emapM json_string ids = Inr names" "model1 = model0\<lparr>recent := recent model0 @ names\<rparr>"
      using v \<open>is_null j\<close> by (auto simp: carry_consumed_def ebind_eq_Inr null_at_def emap_eq_Inr dict_at_get split: if_splits)
    then show ?thesis using m0 by (simp add: con recent_of_def)
  next
    case False
    then have "model1 = model0" using c b by (simp add: carry_consumed_def)
    moreover have "consumed v = []"
    proof (cases "dict_get nx ''demoReset''")
      case None
      then show ?thesis unfolding con by (simp add: v dict_at_def)
    next
      case (Some reset)
      then obtain p where "json_at reset ''previousModel'' = Inr p" "is_null p"
        using b False v by (auto simp: has_field_def dict_has_def emap_def dict_at_def null_at_def ebind_eq_Inr split: if_splits sum.splits)
      then show ?thesis using Some unfolding con by (simp add: v dict_at_def is_null_def)
    qed
    ultimately show ?thesis using m0 by simp
  qed
qed

lemma plan_consumed:
  assumes "plan_episode m v features ep digest = Inr (Some p)"
  shows "ep_id ep \<notin> set (consumed v)" "consumed (plan_state p) = remember (ep_id ep) (consumed v)"
proof -
  obtain nx j model0 model1 model2 a where v: "v = JObject nx" "dict_get nx ''model'' = Some j" and r: "read_model j = Inr model0"
    and c: "carry_consumed v (ep_id ep) model0 = Inr (Some model1)"
    and a: "assess model1 features (int (length (ep_samples ep))) (ep_id ep) = (model2, Some a)"
    and f: "finish_plan m model2 a ep digest nx = Inr p"
    using assms by (rule plan_episode_get)
  have rec: "recent model1 = consumed v" by (rule carry_consumed_recent [OF v r c])
  have m2: "ep_id ep \<notin> set (recent model1)" "recent model2 = remember (ep_id ep) (recent model1)"
    using a by (auto simp: assess_def Let_def split: if_splits)
  then show "ep_id ep \<notin> set (consumed v)" by (simp add: rec)
  from f show "consumed (plan_state p) = remember (ep_id ep) (consumed v)"
  proof (rule finish_plan_get)
    fix message i messages nx1 nx2 nx3
    assume n: "store_model (model2\<lparr>last_assessment := i\<rparr>) digest nx1 = Inr nx2"
      "(if lease_due a then schedule_lease m (model2\<lparr>last_assessment := i\<rparr>) digest (ep_ended ep) nx2 else Inr nx2) = Inr nx3"
      and p: "p = \<lparr>plan_state = JObject nx3, plan_messages = messages, plan_assessment = message, plan_lease = lease_due a\<rparr>"
    obtain nx' where "store_model (model2\<lparr>last_assessment := i\<rparr>) digest nx' = Inr nx3"
      using n by (auto simp: schedule_lease_def ebind_eq_Inr split: if_splits)
    then obtain u where u: "write_model (model2\<lparr>last_assessment := i\<rparr>) digest (JObject nx') = Inr u" "nx3 = dict_set ''model'' u nx'"
      by (rule store_model_get)
    then have "consumed (JObject nx3) = recent model2" using recent_of_written [OF u(1)] by (simp add: consumed_def dict_at_def)
    then show ?thesis using m2(2) by (simp add: p rec)
  qed
qed



lemma begin_reset_consumed:
  assumes "begin_reset m v command now = Inr nx'"
  obtains j where "json_at v ''model'' = Inr j" "consumed (JObject nx') = recent_of j"
  using assms
proof (rule begin_reset_get)
  fix nx model i
  assume v: "v = JObject nx" "dict_get nx ''model'' = Some model"
    and iss: "issue_request m i Good now (dict_set ''lastPublishedAt'' (JInt 0) (dict_set ''model'' JNull
       (dict_set ''demoReset'' (JObject (dict_init
         [(''command'', command), (''previousModel'', model), (''ack'', JNull), (''delivered'', JBool False)] [])) nx))) = Inr nx'"
  have "dict_get nx' ''model'' = Some JNull" "dict_get nx' ''demoReset'' = Some (JObject (dict_init
         [(''command'', command), (''previousModel'', model), (''ack'', JNull), (''delivered'', JBool False)] []))"
    using issue_request_other [OF iss, of "''demoReset''"] issue_request_other [OF iss, of "''model''"]
    by (simp_all add: request_fields_def)
  then have "consumed (JObject nx') = recent_of model" by (simp add: consumed_def dict_at_def dict_get_emplace)
  then show thesis using that [of model] v by (simp add: dict_at_def)
qed


section \<open>Properties\<close>

text \<open>C8: The reset protocol: whatever a method does and whatever fails, the recorded reset stays as it is or takes one
  step of the protocol. A command waits until it is answered once, by \<^verbatim>\<open>CLEARED\<close>, \<^verbatim>\<open>FAILED\<close> or \<^verbatim>\<open>REJECTED\<close>; the
  answer never changes afterwards except that it is marked as delivered; and only a command with another identifier
  replaces an answered one.\<close>

theorem reset_protocol:
  assumes "validate_state (unit_system_uid (rt_metadata r)) (memory w) = Inr ()"
  shows "case perform c r w of (res, r', w') \<Rightarrow>
    reset_phase (memory w') = reset_phase (memory w) \<or> phase_step (reset_phase (memory w)) (reset_phase (memory w'))"
proof -
  obtain res r' w' where p: "perform c r w = (res, r', w')" by (metis prod_cases3)
  show ?thesis using perform_step [OF p] state_step_phase [OF _ assms] by (auto simp: p)
qed

theorem reset_protocol_witness:
  "case perform (CallAck 60000) demo_runtime (demo_world [Fine, Fail]) of (res, r', w') \<Rightarrow>
    reset_phase (memory w') = reset_phase (memory (demo_world [Fine, Fail])) \<or>
    phase_step (reset_phase (memory (demo_world [Fine, Fail]))) (reset_phase (memory w'))"
proof -
  have "validate_state (unit_system_uid (rt_metadata demo_runtime)) (memory (demo_world [Fine, Fail])) = Inr ()"
    using demo_state_valid
    by (simp add: demo_runtime_def fresh_runtime_def demo_metadata_def demo_world_def demo_uid_def)
  then show ?thesis by (rule reset_protocol)
qed


text \<open>C11: An exercise that is remembered as consumed is not applied again: \<open>apply_episode\<close> does not return true for it
  and changes nothing, neither the runtime nor a file.\<close>

theorem consumed_exercise_ignored:
  assumes "ep_id ep \<in> set (consumed (memory w))"
  shows "\<exists>res. apply_episode features ep digest r w = (res, r, w) \<and> res \<noteq> Done True"
proof (cases "plan_episode (rt_metadata r) (memory w) features ep digest")
  case (Inl e)
  then show ?thesis
    by (cases "reset_pending (memory w)")
      (auto simp: apply_episode_def m_simps rt_state_def get_memory_def)
next
  case (Inr planned)
  then have "planned = None" using plan_consumed(1) assms by (cases planned) auto
  then show ?thesis
    using Inr by (cases "reset_pending (memory w)")
      (auto simp: apply_episode_def m_simps rt_state_def get_memory_def)
qed

definition demo_model :: json where
  "demo_model = JObject [(''recentSourceExerciseIds'', JArray [JString demo_epoch])]"

definition demo_assessed :: json where
  "demo_assessed = JObject [(''gatewayStates'', JArray []), (''model'', demo_model)]"

definition demo_episode :: Episode where
  "demo_episode = \<lparr>ep_id = demo_epoch, ep_started = 0, ep_ended = 3000, ep_samples = [], ep_terminal = ''COMPLETE''\<rparr>"

theorem consumed_exercise_ignored_witness:
  "\<exists>res. apply_episode \<lparr>longitudinal = 1, lateral = 2, dispersion = 3, persistence = 4\<rparr> demo_episode (replicate 64 (CHR ''a'')) demo_runtime
     ((demo_world [])\<lparr>memory := demo_assessed\<rparr>) = (res, demo_runtime, (demo_world [])\<lparr>memory := demo_assessed\<rparr>) \<and> res \<noteq> Done True"
proof (rule consumed_exercise_ignored)
  have "consumed demo_assessed = [demo_epoch]" by code_simp
  then show "ep_id demo_episode \<in> set (consumed (memory ((demo_world [])\<lparr>memory := demo_assessed\<rparr>)))"
    by (simp add: demo_episode_def)
qed

text \<open>The exception, which the comment at \<^verbatim>\<open>apply_episode\<close> excludes: when a second reset begins before the model
  was assessed again, the exercises consumed before the first reset are forgotten.\<close>

lemma second_reset_forgets:
  assumes "json_at v ''model'' = Inr JNull" "begin_reset m v command now = Inr nx"
  shows "consumed (JObject nx) = []"
  using assms(2) by (rule begin_reset_consumed) (simp add: assms(1))

definition demo_twice :: json where
  "demo_twice = JObject
     [(''demoReset'', JObject [(''ack'', JBool True), (''previousModel'', demo_model)]), (''model'', JNull), (''nextAdvisorySequence'', JInt 4),
      (''producerEpoch'', JString demo_epoch)]"

lemma second_reset_forgets_case:
  "\<exists>nx. consumed demo_twice = [demo_epoch] \<and>
     begin_reset sample_metadata demo_twice (JObject [(''commandId'', JString demo_epoch)]) 5000 = Inr nx \<and> consumed (JObject nx) = []"
proof -
  let ?c = "JObject [(''commandId'', JString demo_epoch)]"
  have d: "is_uuid demo_epoch" "\<not> isl (decode_uuid demo_epoch)" "show_int 4 = ''4''" by code_simp+
  then have "\<exists>bs. decode_uuid demo_epoch = Inr bs" by (simp add: isl_def) (metis sum.exhaust)
  then obtain u where u: "uuid_v5 demo_epoch [''4''] = Inr u"
    using uuid_v5_total [of demo_epoch _ "[''4'']"] by (auto simp: forbidden_byte_def byte_def)
  obtain t t' where t: "utc_timestamp 5000 = Inr t" "utc_timestamp 35000 = Inr t'"
    using utc_timestamp_stamp [of 5000] utc_timestamp_stamp [of 35000] by simp
  obtain q where q: "advisory_request sample_metadata demo_epoch 4 demo_epoch Good 5000 = Inr q"
    using d u t by (simp add: advisory_request_def object_of_def emap_def)
  obtain b where b: "metadata_binding sample_metadata = Inr b" using sample_binding by blast
  have f: "json_at demo_twice ''model'' = Inr JNull" by code_simp
  have "\<exists>nx. begin_reset sample_metadata demo_twice ?c 5000 = Inr nx"
    using q b by (simp add: begin_reset_def demo_twice_def dict_at_def at_string_def issue_request_def del: dict_init.simps)
  moreover have "consumed demo_twice = [demo_epoch]" by code_simp
  ultimately show ?thesis using second_reset_forgets [OF f] by blast
qed

end
