(* ===== verification/Ledger.thy ===== *)
theory Ledger
  imports Observation Effects
begin

text \<open>
  \<^verbatim>\<open>FunctionObservation\<close> of \<^verbatim>\<open>include/aosedge/function_observation.hpp\<close>: the ledger of observations that wait for
  delivery. Every start takes a new generation, every observation the next sequence number in it, and each change is
  committed by writing \<^verbatim>\<open>ledger.next\<close> and renaming it over \<^verbatim>\<open>ledger.json\<close>. The ledger has a directory of its own,
  \<open>Root\<close> of the directories here, and \<open>memory\<close> is its member \<^verbatim>\<open>ledger_\<close>. The fault callback is the script.
\<close>

section \<open>Messages\<close>

definition check_instance :: "json \<Rightarrow> unit result" where
  "check_instance b =
     ebind (check_keys b [''serviceId'', ''subjectId'', ''instanceIndex'', ''instanceId'']) (\<lambda>_.
     ebind (ebind (json_at b ''serviceId'') check_id) (\<lambda>_.
     ebind (ebind (json_at b ''subjectId'') check_id) (\<lambda>_.
     ebind (ebind (json_at b ''instanceId'') check_id) (\<lambda>_.
       ebind (json_at b ''instanceIndex'') (\<lambda>x. check_integer x False)))))"

definition identity_text :: "json \<Rightarrow> string result" where
  "identity_text m =
     ebind (emapM (json_at m) [''unitSystemUid'', ''messageType'', ''serviceInstance'', ''generation'', ''sequence'']) (\<lambda>vs.
       canonical (JArray vs))"

definition message_keys :: "string list" where
  "message_keys =
     [''schemaVersion'', ''contractVersion'', ''messageType'', ''unitSystemUid'', ''unitRole'', ''serviceVersion'', ''serviceProfile'',
      ''serviceInstance'', ''generation'', ''sequence'', ''observedAt'', ''content'', ''contentSha256'']"

text \<open>The checks of a message; the result is the digest that identifies it.\<close>

definition validate_message :: "json \<Rightarrow> string result" where
  "validate_message m =
     ebind (check_keys m message_keys) (\<lambda>_.
     ebind (ofail_if (eany [emap (\<lambda>n. n \<noteq> 3) (at_integer m ''schemaVersion''), emap (\<lambda>s. s \<noteq> ''3.0.0'') (at_string m ''contractVersion'')])) (\<lambda>_.
     ebind (ebind (json_at m ''messageType'') (\<lambda>x. check_pick x [''BRAKE_FUNCTION_OBSERVATION'', ''TIRE_FUNCTION_OBSERVATION''])) (\<lambda>_.
     ebind (emap (\<lambda>s. s = ''BRAKE_FUNCTION_OBSERVATION'') (at_string m ''messageType'')) (\<lambda>brake.
     ebind (ebind (json_at m ''unitSystemUid'') check_id) (\<lambda>_.
     ebind (ebind (json_at m ''unitRole'') (\<lambda>x. check_pick x [''VALIDATION'', ''PRODUCTION''])) (\<lambda>_.
     ebind (ebind (json_at m ''serviceVersion'') check_version) (\<lambda>_.
     ebind (ebind (json_at m ''serviceInstance'') check_instance) (\<lambda>_.
     ebind (at_string m ''serviceProfile'') (\<lambda>profile.
     ebind (ebind (json_at m ''serviceProfile'') (\<lambda>x. check_pick x [''v1'', ''v2'', ''v3''])) (\<lambda>_.
     ebind (ofail_if (Inr (\<not> brake \<and> profile \<noteq> ''v1''))) (\<lambda>_.
     ebind (ebind (json_at m ''generation'') (\<lambda>x. check_integer x True)) (\<lambda>_.
     ebind (ebind (json_at m ''sequence'') (\<lambda>x. check_integer x True)) (\<lambda>_.
     ebind (ebind (json_at m ''observedAt'') check_instant) (\<lambda>_.
     ebind (ebind (json_at m ''content'') (\<lambda>c. check_content c profile brake)) (\<lambda>_.
     ebind (ofail_if (eany [emap (\<lambda>t. length t > 8192) (canonical m), emap Not (digest_matches m)])) (\<lambda>_.
       emap sha256_hex (identity_text m)))))))))))))))))"

section \<open>The ledger\<close>

text \<open>The members beside \<^verbatim>\<open>ledger_\<close>.\<close>

record ObservationStream =
  os_base :: json
  os_poisoned :: bool
  os_last_emit :: int
  os_last_content :: string

type_synonym 'a os = "(ObservationStream, 'a) method_of"

definition ledger_fail :: string where
  "ledger_fail = ''FUNCTION_OBSERVATION_UNAVAILABLE''"

fun same_texts :: "(json \<times> json) list \<Rightarrow> bool result" where
  "same_texts [] = Inr True"
| "same_texts ((a, b) # ps) =
     ebind (canonical a) (\<lambda>x. ebind (canonical b) (\<lambda>y. if x \<noteq> y then Inr False else same_texts ps))"

definition same_allocation :: "json \<Rightarrow> json \<Rightarrow> bool result" where
  "same_allocation left right =
     ebind (json_array left) (\<lambda>a.
     ebind (json_array right) (\<lambda>b.
     if length a \<noteq> 3 \<or> length b \<noteq> 3 then Inr False else
     ebind (same_texts [(a ! 0, b ! 0), (a ! 1, b ! 1)]) (\<lambda>same. if \<not> same then Inr False else
     ebind (check_keys (a ! 2) [''serviceId'', ''subjectId'', ''instanceIndex'', ''instanceId'']) (\<lambda>_.
     ebind (check_keys (b ! 2) [''serviceId'', ''subjectId'', ''instanceIndex'', ''instanceId'']) (\<lambda>_.
       same_fields [''serviceId'', ''subjectId'', ''instanceIndex''] (a ! 2) (b ! 2))))))"

definition allocation :: "json \<Rightarrow> json result" where
  "allocation m = emap JArray (emapM (json_at m) [''unitSystemUid'', ''messageType'', ''serviceInstance''])"

definition initial_ledger :: "json \<Rightarrow> json" where
  "initial_ledger binding =
     JObject (dict_init [(''schemaVersion'', JInt 1), (''binding'', binding), (''generation'', JInt 0), (''sequence'', JInt 0),
       (''pending'', JArray [])] [])"

text \<open>The entries found at the start; \<open>seen\<close> are the identities so far.\<close>

fun check_entries :: "json \<Rightarrow> json \<Rightarrow> string list \<Rightarrow> json list \<Rightarrow> unit result" where
  "check_entries ledger binding seen [] = Inr ()"
| "check_entries ledger binding seen (e # es) =
     ebind (check_keys e [''attempted'', ''message'', ''digest'']) (\<lambda>_.
     ebind (at_boolean e ''attempted'') (\<lambda>_.
     ebind (json_at e ''message'') (\<lambda>m.
     ebind (validate_message m) (\<lambda>key.
     ebind (ofail_if (eany
       [Inr (key \<in> set seen), ebind (at_string e ''digest'') (\<lambda>d. emap (\<lambda>t. d \<noteq> sha256_hex t) (canonical m)),
        emap Not (ebind (allocation m) (\<lambda>a. same_allocation a binding)),
        ebind (at_integer m ''generation'') (\<lambda>g. emap (\<lambda>h. g > h) (at_integer ledger ''generation'')),
        eall [ebind (at_integer m ''generation'') (\<lambda>g. emap (\<lambda>h. g = h) (at_integer ledger ''generation'')),
              ebind (at_integer m ''sequence'') (\<lambda>n. emap (\<lambda>k. n > k) (at_integer ledger ''sequence''))]])) (\<lambda>_.
       check_entries ledger binding (key # seen) es)))))"

definition check_ledger :: "json \<Rightarrow> json \<Rightarrow> unit result" where
  "check_ledger ledger binding =
     ebind (check_keys ledger [''schemaVersion'', ''binding'', ''generation'', ''sequence'', ''pending'']) (\<lambda>_.
     ebind (ofail_if (eany [emap (\<lambda>n. n \<noteq> 1) (at_integer ledger ''schemaVersion''),
                            emap Not (ebind (json_at ledger ''binding'') (\<lambda>b. same_allocation b binding))])) (\<lambda>_.
     ebind (ebind (json_at ledger ''generation'') (\<lambda>x. check_integer x False)) (\<lambda>_.
     ebind (ebind (json_at ledger ''sequence'') (\<lambda>x. check_integer x False)) (\<lambda>_.
     ebind (at_array ledger ''pending'') (\<lambda>entries.
     ebind (ofail_if (Inr (length entries > 64))) (\<lambda>_.
     ebind (check_entries ledger binding [] entries) (\<lambda>_.
       ofail_if (emap (\<lambda>g. g = maximum_integer) (at_integer ledger ''generation'')))))))))"

text \<open>The ledger of a new generation.\<close>

definition next_generation :: "json \<Rightarrow> json \<Rightarrow> json result" where
  "next_generation ledger binding =
     ebind (json_object ledger) (\<lambda>l.
     ebind (at_integer ledger ''generation'') (\<lambda>g.
       Inr (JObject (dict_set ''sequence'' (JInt 0) (dict_set ''generation'' (JInt (g + 1)) (dict_set ''binding'' binding l))))))"

section \<open>Committing\<close>

definition create_exclusive :: "string \<Rightarrow> unit io" where
  "create_exclusive n w =
     (case get_file Root n w of
        None \<Rightarrow> require_ok (syscall (put_file Root n [])) ledger_fail w
      | Some _ \<Rightarrow> io_throw ledger_fail w)"

definition write_ledger :: "string \<Rightarrow> unit io" where
  "write_ledger bytes =
     io_bind (require_ok (write_loop Root ''ledger.next'' [] bytes) ledger_fail) (\<lambda>_.
     io_bind (require_ok (syscall id) ledger_fail) (\<lambda>_.
     io_bind (require_ok (syscall (rename_file Root ''ledger.next'' ''ledger.json'')) ledger_fail) (\<lambda>_.
       require_ok (syscall id) ledger_fail)))"

text \<open>\<^verbatim>\<open>catch(...) {poisoned_ = true; unlinkat(dir_, "ledger.next", 0); throw;}\<close>\<close>

definition or_poison :: "'a io \<Rightarrow> 'a os" where
  "or_poison m s w =
     (case or_unlink Root ''ledger.next'' m w of
        (Threw e, w') \<Rightarrow> (Threw e, s\<lparr>os_poisoned := True\<rparr>, w')
      | (r, w') \<Rightarrow> (r, s, w'))"

definition ledger_commit :: "json \<Rightarrow> unit os" where
  "ledger_commit next =
     m_bind (m_lift (canonical next)) (\<lambda>bytes.
     if length bytes > 700000 then m_throw OBSERVATION_UNAVAILABLE else
     m_bind (m_io (create_exclusive ''ledger.next'')) (\<lambda>_.
       or_poison (io_bind (write_ledger bytes) (\<lambda>_. set_memory next))))"

section \<open>Opening\<close>

text \<open>
  The calls on the directory: \<^verbatim>\<open>lstat\<close> of its ancestors, none of which may be a symbolic link, \<^verbatim>\<open>create_directories\<close>,
  \<^verbatim>\<open>lstat\<close>, \<^verbatim>\<open>chmod\<close>, \<^verbatim>\<open>open\<close> and \<^verbatim>\<open>flock\<close>, each of which may fail.
\<close>

definition open_directory :: "unit io" where
  "open_directory =
     io_bind (require_ok (syscall id) ledger_fail) (\<lambda>_.
     io_bind (require_ok (syscall id) ledger_fail) (\<lambda>_.
     io_bind (require_ok (syscall id) ledger_fail) (\<lambda>_.
     io_bind (require_ok (syscall id) ledger_fail) (\<lambda>_.
     io_bind (require_ok (syscall id) ledger_fail) (\<lambda>_.
       require_ok (syscall id) ledger_fail)))))"

definition read_ledger :: "string option io" where
  "read_ledger w =
     (case get_file Root ''ledger.json'' w of
        None \<Rightarrow> (Done None, w)
      | Some f \<Rightarrow>
          if \<not> entry_private f \<or> entry_bytes f = [] \<or> length (entry_bytes f) > 700000 then io_throw ledger_fail w
          else (Done (Some (entry_bytes f)), w))"

definition fresh_stream :: "json \<Rightarrow> ObservationStream" where
  "fresh_stream base_object = \<lparr>os_base = base_object, os_poisoned = False, os_last_emit = -1, os_last_content = []\<rparr>"

text \<open>The constructor after the directory is open; an exception from it destroys the object.\<close>

definition start_stream :: "json \<Rightarrow> unit os" where
  "start_stream base_object =
     m_bind (m_lift (allocation base_object)) (\<lambda>binding.
     m_bind (m_io read_ledger) (\<lambda>existing.
     m_bind (case existing of Some t \<Rightarrow> m_lift (parse_json t 700000) | None \<Rightarrow> m_return (initial_ledger binding)) (\<lambda>ledger.
     m_bind (m_io (set_memory ledger)) (\<lambda>_.
     m_bind (m_lift (check_ledger ledger binding)) (\<lambda>_.
     m_bind (m_lift (next_generation ledger binding)) (\<lambda>next.
     m_bind (m_io (require_ok (syscall (drop_file Root ''ledger.next'')) ledger_fail)) (\<lambda>_.
       ledger_commit next)))))))"

definition open_stream :: "json \<Rightarrow> ObservationStream io" where
  "open_stream base_object =
     io_bind open_directory (\<lambda>_ w.
       (case start_stream base_object (fresh_stream base_object) w of
          (Done _, s, w') \<Rightarrow> (Done s, w') | (Threw e, _, w') \<Rightarrow> (Threw e, w') | (Crashed, _, w') \<Rightarrow> (Crashed, w')))"

section \<open>Observing and delivering\<close>

text \<open>The entries from the newest to the oldest, without the newest that was never sent.\<close>

fun drop_unsent :: "json list \<Rightarrow> json list option result" where
  "drop_unsent [] = Inr None"
| "drop_unsent (e # es) =
     ebind (at_boolean e ''attempted'') (\<lambda>sent.
       if \<not> sent then Inr (Some es) else emap (map_option (Cons e)) (drop_unsent es))"

text \<open>Room for one more entry among at most 64.\<close>

definition make_room :: "json list \<Rightarrow> json list option result" where
  "make_room entries =
     (if length entries \<noteq> 64 then Inr (Some entries) else emap (map_option rev) (drop_unsent (rev entries)))"

definition observation_message :: "json \<Rightarrow> json \<Rightarrow> json \<Rightarrow> int \<Rightarrow> string \<Rightarrow> json result" where
  "observation_message base_object ledger c wall bytes =
     ebind (json_object base_object) (\<lambda>b.
     ebind (json_at ledger ''generation'') (\<lambda>g.
     ebind (at_integer ledger ''sequence'') (\<lambda>n.
     ebind (utc_timestamp wall) (\<lambda>t.
       Inr (JObject (dict_set ''contentSha256'' (JString (sha256_hex bytes)) (dict_set ''content'' c
         (dict_set ''observedAt'' (JString t) (dict_set ''sequence'' (JInt (n + 1)) (dict_set ''generation'' g
         (dict_set ''contractVersion'' (JString ''3.0.0'') (dict_set ''schemaVersion'' (JInt 3) b))))))))))))"

definition new_entry :: "json \<Rightarrow> string \<Rightarrow> json" where
  "new_entry m t =
     JObject (dict_init [(''attempted'', JBool False), (''message'', m), (''digest'', JString (sha256_hex t))] [])"

definition check_poisoned :: "unit os" where
  "check_poisoned = m_bind (m_get os_poisoned) (\<lambda>b. if b then m_throw OBSERVATION_UNAVAILABLE else m_return ())"

definition too_soon :: "ObservationStream \<Rightarrow> string \<Rightarrow> int \<Rightarrow> bool" where
  "too_soon s bytes monotonic =
     (os_last_emit s \<ge> 0 \<and>
      (monotonic < os_last_emit s \<or> monotonic - os_last_emit s < 5000 \<or>
       (bytes = os_last_content s \<and> monotonic - os_last_emit s < 30000)))"

definition with_entries :: "json list \<Rightarrow> json \<Rightarrow> json result" where
  "with_entries entries ledger = put_field ''pending'' (JArray entries) ledger"

definition observe :: "json \<Rightarrow> int \<Rightarrow> int \<Rightarrow> bool os" where
  "observe c wall monotonic =
     m_bind check_poisoned (\<lambda>_.
     m_bind (m_get id) (\<lambda>s.
     m_bind (m_lift (at_string (os_base s) ''serviceProfile'')) (\<lambda>profile.
     m_bind (m_lift (at_string (os_base s) ''messageType'')) (\<lambda>kind.
     m_bind (m_lift (check_content c profile (kind = ''BRAKE_FUNCTION_OBSERVATION''))) (\<lambda>_.
     m_bind (m_lift (canonical c)) (\<lambda>bytes.
     if too_soon s bytes monotonic then m_return False else
     m_bind (m_io get_memory) (\<lambda>ledger.
     m_bind (m_lift (ebind (at_array ledger ''pending'') make_room)) (\<lambda>room.
     case room of None \<Rightarrow> m_return False | Some entries \<Rightarrow>
     m_bind (m_lift (ofail_if (emap (\<lambda>n. n = maximum_integer) (at_integer ledger ''sequence'')))) (\<lambda>_.
     m_bind (m_lift (observation_message (os_base s) ledger c wall bytes)) (\<lambda>m.
     m_bind (m_lift (validate_message m)) (\<lambda>_.
     m_bind (m_lift (canonical m)) (\<lambda>t.
     m_bind (m_lift (json_at m ''sequence'')) (\<lambda>n.
     m_bind (m_lift (ebind (put_field ''sequence'' n ledger) (with_entries (entries @ [new_entry m t])))) (\<lambda>next.
     m_bind (ledger_commit next) (\<lambda>_.
     m_bind (m_set (\<lambda>s. s\<lparr>os_last_emit := monotonic, os_last_content := bytes\<rparr>)) (\<lambda>_.
       m_return True))))))))))))))))"

definition next_observation :: "string option os" where
  "next_observation =
     m_bind check_poisoned (\<lambda>_.
     m_bind (m_io get_memory) (\<lambda>ledger.
     m_bind (m_lift (at_array ledger ''pending'')) (\<lambda>entries.
     case entries of [] \<Rightarrow> m_return None | e # es \<Rightarrow>
     m_bind (m_lift (at_boolean e ''attempted'')) (\<lambda>sent.
     m_bind (if sent then m_return ()
             else m_bind (m_lift (ebind (put_field ''attempted'' (JBool True) e) (\<lambda>e'. with_entries (e' # es) ledger))) ledger_commit) (\<lambda>_.
       m_lift (emap Some (ebind (json_at e ''message'') canonical)))))))"

definition receipt_matches :: "json \<Rightarrow> int \<Rightarrow> string \<Rightarrow> bool result" where
  "receipt_matches m status response =
     ebind (parse_json response 8192) (\<lambda>ack.
     ebind (check_keys ack [''schemaVersion'', ''contractVersion'', ''receiptId'', ''messageKeySha256'', ''contentSha256'', ''state'', ''receivedAt'']) (\<lambda>_.
     ebind (eany
       [emap (\<lambda>n. n \<noteq> 1) (at_integer ack ''schemaVersion''), emap (\<lambda>s. s \<noteq> ''1.0.0'') (at_string ack ''contractVersion''),
        emap (\<lambda>s. \<not> is_uuid s) (at_string ack ''receiptId''),
        ebind (at_string ack ''messageKeySha256'') (\<lambda>k. emap (\<lambda>v. k \<noteq> v) (validate_message m)),
        strings_differ ack ''contentSha256'' m ''contentSha256'',
        emap (\<lambda>s. s \<noteq> (if status = 201 then ''DURABLE_ACCEPTED'' else ''DUPLICATE_ACCEPTED'')) (at_string ack ''state'')]) (\<lambda>bad.
     if bad then Inr False else
     ebind (ebind (json_at ack ''receivedAt'') check_instant) (\<lambda>_. Inr True))))"

text \<open>\<^verbatim>\<open>catch(...) {return false;}\<close> around the checks of the receipt.\<close>

definition accept_observation :: "string \<Rightarrow> int \<Rightarrow> string \<Rightarrow> bool os" where
  "accept_observation attempted status response =
     m_bind check_poisoned (\<lambda>_.
     if status \<noteq> 200 \<and> status \<noteq> 201 then m_return False else
     m_bind (m_io get_memory) (\<lambda>ledger.
     m_bind (m_lift (at_array ledger ''pending'')) (\<lambda>entries.
     case entries of [] \<Rightarrow> m_return False | e # es \<Rightarrow>
     m_bind (m_lift (eany [emap Not (at_boolean e ''attempted''),
       emap (\<lambda>t. t \<noteq> attempted) (ebind (json_at e ''message'') canonical)])) (\<lambda>other. if other then m_return False else
     m_bind (m_lift (json_at e ''message'')) (\<lambda>m.
     if receipt_matches m status response \<noteq> Inr True then m_return False else
     m_bind (m_bind (m_lift (with_entries es ledger)) ledger_commit) (\<lambda>_.
       m_return True))))))"

definition generation :: "int os" where
  "generation = m_bind (m_io get_memory) (\<lambda>ledger. m_lift (at_integer ledger ''generation''))"

definition queued_observations :: "nat os" where
  "queued_observations = m_bind (m_io get_memory) (\<lambda>ledger. m_lift (emap length (at_array ledger ''pending'')))"

end
