(* ===== verification/Numbering.thy ===== *)
theory Numbering
  imports Ledger Transitions "HOL-Library.Product_Lexorder"
begin

text \<open>
  The ledger under failures: what a commit leaves in memory and on disk, and that a pair of generation and sequence
  number never names two different observations, however often the service is stopped and started.
\<close>

section \<open>A commit\<close>

definition disk :: "world \<Rightarrow> entry option" where
  "disk w = get_file Root ''ledger.json'' w"

abbreviation temp :: "place \<times> string" where
  "temp \<equiv> (Root, ''ledger.next'')"

abbreviation ledger_file :: "place \<times> string" where
  "ledger_file \<equiv> (Root, ''ledger.json'')"

definition half_written :: "contents \<Rightarrow> string \<Rightarrow> world \<Rightarrow> bool" where
  "half_written c t w \<longleftrightarrow>
     holds c w \<or> (\<exists>s. holds (c(temp \<mapsto> own s)) w) \<or> holds (c(temp := None)) w \<or> holds (c(temp := None, ledger_file \<mapsto> own t)) w"

lemma half_written_script [simp]: "half_written c t (w\<lparr>script := fs\<rparr>) \<longleftrightarrow> half_written c t w"
  by (simp add: half_written_def)

lemma half_written_drop: "half_written c t w \<Longrightarrow> half_written c t (drop_file Root ''ledger.next'' w)"
  unfolding half_written_def
  by (elim disjE exE; drule holds_drop [where p = Root and n = "''ledger.next''"]) (auto simp: fun_upd_twist)

lemma write_ledger_spec:
  "spec (holds (c(temp \<mapsto> own []))) (write_ledger t) (\<lambda>_. holds (c(temp := None, ledger_file \<mapsto> own t))) (half_written c t)"
proof -
  have step: "spec (holds (c(temp \<mapsto> own []))) (require_ok (write_loop Root ''ledger.next'' [] t) ledger_fail)
      (\<lambda>_. holds (c(temp \<mapsto> own t))) (half_written c t)"
    unfolding require_ok_def
  proof (rule spec_bind)
    show "spec (holds (c(temp \<mapsto> own []))) (write_loop Root ''ledger.next'' [] t)
      (\<lambda>ok w. if ok then holds (c(temp \<mapsto> own t)) w else \<exists>s. holds (c(temp \<mapsto> own s)) w) (half_written c t)"
      by (rule spec_weaken [OF write_loop_spec]) (auto simp: half_written_def split: if_splits)
    show "spec (\<lambda>w. if ok then holds (c(temp \<mapsto> own t)) w else \<exists>s. holds (c(temp \<mapsto> own s)) w)
      (io_throw_if (\<not> ok) ledger_fail) (\<lambda>_. holds (c(temp \<mapsto> own t))) (half_written c t)" for ok
      by (cases ok) (auto simp: io_throw_if_def half_written_def intro!: spec_return spec_throw)
  qed
  have sync: "spec (holds d) (require_ok (syscall id) ledger_fail) (\<lambda>_. holds d) (half_written c t)"
    if "\<And>w. holds d w \<Longrightarrow> half_written c t w" for d
    by (rule spec_syscall_id) (rule that)
  have move: "spec (holds (c(temp \<mapsto> own t))) (require_ok (syscall (rename_file Root ''ledger.next'' ''ledger.json'')) ledger_fail)
      (\<lambda>_. holds (c(temp := None, ledger_file \<mapsto> own t))) (half_written c t)"
    by (rule spec_syscall) (auto simp: half_written_def intro: holds_rename)
  show ?thesis
    unfolding write_ledger_def
    by (rule spec_bind [OF step], rule spec_bind [OF sync], (simp add: half_written_def), blast,
        rule spec_bind [OF move], rule sync) (auto simp: half_written_def)
qed

lemma steady_write_ledger: "steady (write_ledger t)"
  unfolding write_ledger_def by (intro steady_intros) simp_all

lemma spec_and: "spec P m Q E \<Longrightarrow> spec P' m Q' E' \<Longrightarrow> spec (\<lambda>w. P w \<and> P' w) m (\<lambda>x w. Q x w \<and> Q' x w) (\<lambda>w. E w \<and> E' w)"
  unfolding spec_def by (fastforce split: prod.splits outcome.splits)

text \<open>How a commit ends: with the new ledger in memory and on disk; or with the old one in memory, and then unless
  nothing was written the object is poisoned; or stopped.\<close>

definition commit_outcome :: "ObservationStream \<Rightarrow> world \<Rightarrow> json \<Rightarrow> unit outcome \<times> ObservationStream \<times> world \<Rightarrow> bool" where
  "commit_outcome s w nx r \<longleftrightarrow>
     (case r of (res, s', w') \<Rightarrow>
        world_ok w' \<and> (disk w' = disk w \<or> (\<exists>t. canonical nx = Inr t \<and> length t \<le> 700000 \<and> disk w' = Some (own t))) \<and>
        (case res of
           Done _ \<Rightarrow> s' = s \<and> memory w' = nx \<and> (\<exists>t. canonical nx = Inr t \<and> length t \<le> 700000 \<and> disk w' = Some (own t))
         | Threw e \<Rightarrow> memory w' = memory w \<and> (s' = s \<and> disk w' = disk w \<or> s' = s\<lparr>os_poisoned := True\<rparr>)
         | Crashed \<Rightarrow> True))"

lemma half_written_disk:
  assumes "half_written c t w" "holds c w0"
  shows "world_ok w \<and> (disk w = disk w0 \<or> disk w = Some (own t))"
  using assms by (auto simp: half_written_def disk_def get_file_holds holds_def contents_def get_file_def fun_eq_iff)

lemma create_exclusive_spec:
  "spec (\<lambda>w. holds c w \<and> memory w = v) (create_exclusive ''ledger.next'')
     (\<lambda>_ w. holds (c(temp \<mapsto> own [])) w \<and> memory w = v) (\<lambda>w. holds c w \<and> memory w = v)"
proof (rule specI)
  fix w
  assume w: "holds c w \<and> memory w = v"
  have "spec (holds c) (require_ok (syscall (put_file Root ''ledger.next'' [])) ledger_fail) (\<lambda>_. holds (c(temp \<mapsto> own []))) (holds c)"
    by (rule spec_syscall) auto
  moreover have "steady (require_ok (syscall (put_file Root ''ledger.next'' [])) ledger_fail)" by (intro steady_intros) simp
  ultimately have "spec (\<lambda>w. holds c w \<and> memory w = v) (require_ok (syscall (put_file Root ''ledger.next'' [])) ledger_fail)
      (\<lambda>_ w. holds (c(temp \<mapsto> own [])) w \<and> memory w = v) (\<lambda>w. holds c w \<and> memory w = v)"
    by (intro spec_and spec_steady)
  from specD [OF this w] show "case create_exclusive ''ledger.next'' w of
      (Done x, w') \<Rightarrow> holds (c(temp \<mapsto> own [])) w' \<and> memory w' = v | (_, w') \<Rightarrow> holds c w' \<and> memory w' = v"
    using w by (simp add: create_exclusive_def io_throw_def split: option.splits)
qed

lemma unlink_spec:
  assumes "spec P m Q (\<lambda>w. half_written c t w \<and> memory w = v)"
  shows "spec P (or_unlink Root ''ledger.next'' m) Q (\<lambda>w. half_written c t w \<and> memory w = v)"
proof (rule specI)
  fix w
  assume "P w"
  from specD [OF assms this]
  show "case or_unlink Root ''ledger.next'' m w of (Done x, w') \<Rightarrow> Q x w' | (_, w') \<Rightarrow> half_written c t w' \<and> memory w' = v"
    using half_written_drop [of c t]
    by (auto simp: or_unlink_def syscall_def next_fault_def split: prod.splits outcome.splits list.splits fault.splits)
qed

lemma write_body_spec:
  "spec (\<lambda>w. holds (c(temp \<mapsto> own [])) w \<and> memory w = v)
     (or_unlink Root ''ledger.next'' (io_bind (write_ledger t) (\<lambda>_. set_memory nx)))
     (\<lambda>_ w. holds (c(temp := None, ledger_file \<mapsto> own t)) w \<and> memory w = nx) (\<lambda>w. half_written c t w \<and> memory w = v)"
proof (rule unlink_spec, rule spec_bind)
  show "spec (\<lambda>w. holds (c(temp \<mapsto> own [])) w \<and> memory w = v) (write_ledger t)
      (\<lambda>_ w. holds (c(temp := None, ledger_file \<mapsto> own t)) w \<and> memory w = v) (\<lambda>w. half_written c t w \<and> memory w = v)"
    by (intro spec_and write_ledger_spec spec_steady steady_write_ledger)
  show "spec (\<lambda>w. holds (c(temp := None, ledger_file \<mapsto> own t)) w \<and> memory w = v) (set_memory nx)
      (\<lambda>_ w. holds (c(temp := None, ledger_file \<mapsto> own t)) w \<and> memory w = nx) (\<lambda>w. half_written c t w \<and> memory w = v)" for u :: unit
    by (simp add: spec_def set_memory_def)
qed

lemma disk_holds: "holds c w \<Longrightarrow> disk w = c ledger_file"
  by (simp add: disk_def get_file_holds)

lemma ledger_commit_outcome:
  assumes ok: "world_ok w"
  shows "commit_outcome s w nx (ledger_commit nx s w)"
proof (cases "\<exists>t. canonical nx = Inr t \<and> length t \<le> 700000")
  case False
  then have "\<exists>e. ledger_commit nx s w = (Threw e, s, w)"
    by (cases "canonical nx") (auto simp: ledger_commit_def m_throw_def)
  then show ?thesis using ok by (auto simp: commit_outcome_def)
next
  case True
  then obtain t where t: "canonical nx = Inr t" "length t \<le> 700000" by blast
  define c where "c = contents w"
  have c: "holds c w" using ok by (simp add: holds_def c_def)
  have eq: "ledger_commit nx = m_bind (m_io (create_exclusive ''ledger.next'')) (\<lambda>_. or_poison (io_bind (write_ledger t) (\<lambda>_. set_memory nx)))"
    using t by (simp add: ledger_commit_def)
  obtain r w1 where r: "create_exclusive ''ledger.next'' w = (r, w1)" by fastforce
  have s1: "case r of Done _ \<Rightarrow> holds (c(temp \<mapsto> own [])) w1 \<and> memory w1 = memory w | _ \<Rightarrow> holds c w1 \<and> memory w1 = memory w"
    using specD [OF create_exclusive_spec [of c "memory w"], of w] c r by (auto split: outcome.splits)
  show ?thesis
  proof (cases r)
    case (Done u)
    obtain q w2 where q: "or_unlink Root ''ledger.next'' (io_bind (write_ledger t) (\<lambda>_. set_memory nx)) w1 = (q, w2)" by fastforce
    have s2: "case q of Done _ \<Rightarrow> holds (c(temp := None, ledger_file \<mapsto> own t)) w2 \<and> memory w2 = nx
        | _ \<Rightarrow> half_written c t w2 \<and> memory w2 = memory w"
      using specD [OF write_body_spec [of c "memory w" t nx], of w1] s1 Done q by (auto split: outcome.splits)
    have w2: "world_ok w2 \<and> (disk w2 = disk w \<or> disk w2 = Some (own t))"
      using s2 half_written_disk [OF _ c, of t w2] by (auto simp: half_written_def split: outcome.splits)
    show ?thesis
      using s2 w2 t Done r q disk_holds [of _ w2] unfolding eq
      by (auto simp: commit_outcome_def m_bind_def m_io_def or_poison_def split: outcome.splits)
  qed (use s1 r ok disk_holds [OF c] disk_holds [of c w1] in
      \<open>auto simp: eq commit_outcome_def m_bind_def m_io_def holds_def\<close>)
qed

section \<open>The ledger and its history\<close>

text \<open>The number of an observation: its generation and its sequence number in it, compared in this order.\<close>

definition numbered :: "json \<Rightarrow> int \<times> int \<Rightarrow> bool" where
  "numbered m p \<longleftrightarrow> at_integer m ''generation'' = Inr (fst p) \<and> at_integer m ''sequence'' = Inr (snd p)"

definition message_number :: "json \<Rightarrow> int \<times> int" where
  "message_number m = (case (at_integer m ''generation'', at_integer m ''sequence'') of (Inr g, Inr n) \<Rightarrow> (g, n) | _ \<Rightarrow> (0, 0))"

lemma number_numbered: "numbered m p \<Longrightarrow> message_number m = p"
  by (cases p) (simp add: numbered_def message_number_def)

text \<open>What is ever sent: a message with a number whose text the receiver parses back to it.\<close>

definition proper :: "json \<Rightarrow> bool" where
  "proper m \<longleftrightarrow> (\<exists>p. numbered m p) \<and> shape 21 m \<and> (\<exists>t. canonical m = Inr t \<and> length t \<le> 8192)"

text \<open>The number of a ledger and its pending messages.\<close>

definition ledger_at :: "json \<Rightarrow> int \<times> int \<Rightarrow> json list \<Rightarrow> bool" where
  "ledger_at l p ms \<longleftrightarrow>
     numbered l p \<and> (\<exists>es. at_array l ''pending'' = Inr es \<and> list_all2 (\<lambda>e m. json_at e ''message'' = Inr m) es ms)"

text \<open>
  \<open>H\<close> are the messages that were ever durable, \<open>S\<close> those that were sent. None of \<open>H\<close> is numbered after the ledger and no
  two share a number; the pending ones are in order, and nothing was sent that comes after one of them.
\<close>

definition covers :: "json set \<Rightarrow> json set \<Rightarrow> json \<Rightarrow> bool" where
  "covers H S l \<longleftrightarrow>
     (\<exists>p ms. ledger_at l p ms \<and> set ms \<subseteq> H \<and> S \<subseteq> H \<and> (\<forall>m\<in>H. proper m \<and> message_number m \<le> p) \<and> inj_on message_number H \<and>
        sorted_wrt (<) (map message_number ms) \<and> (\<forall>m\<in>S. \<forall>m'\<in>set ms. message_number m \<le> message_number m'))"

lemma coversE:
  assumes "covers H S l" "ledger_at l p ms"
  shows "set ms \<subseteq> H" "S \<subseteq> H" "\<forall>m\<in>H. proper m \<and> message_number m \<le> p" "inj_on message_number H" "sorted_wrt (<) (map message_number ms)"
    "\<forall>m\<in>S. \<forall>m'\<in>set ms. message_number m \<le> message_number m'"
proof -
  obtain q ns where l: "ledger_at l q ns" "set ns \<subseteq> H" "S \<subseteq> H" "\<forall>m\<in>H. proper m \<and> message_number m \<le> q" "inj_on message_number H"
    "sorted_wrt (<) (map message_number ns)" "\<forall>m\<in>S. \<forall>m'\<in>set ns. message_number m \<le> message_number m'"
    using assms(1) unfolding covers_def by blast
  have "q = p" using l(1) assms(2) number_numbered unfolding ledger_at_def by metis
  moreover have "ns = ms"
    using l(1) assms(2) unfolding ledger_at_def list_all2_conv_all_nth
    by (auto intro!: nth_equalityI)
  ultimately show "set ms \<subseteq> H" "S \<subseteq> H" "\<forall>m\<in>H. proper m \<and> message_number m \<le> p" "inj_on message_number H" "sorted_wrt (<) (map message_number ms)"
    "\<forall>m\<in>S. \<forall>m'\<in>set ms. message_number m \<le> message_number m'"
    using l by simp_all
qed

text \<open>A new generation is numbered after everything.\<close>

lemma covers_generation:
  assumes "covers H S l" "next_generation l binding = Inr l'"
  shows "covers H S l'"
proof -
  obtain g n ms where l: "ledger_at l (g, n) ms" using assms(1) unfolding covers_def by auto
  obtain d where d: "l = JObject d"
    "l' = JObject (dict_set ''sequence'' (JInt 0) (dict_set ''generation'' (JInt (g + 1)) (dict_set ''binding'' binding d)))"
    using assms(2) l by (cases l) (auto simp: next_generation_def ledger_at_def numbered_def ebind_eq_Inr invalid_def)
  have "ledger_at l' (g + 1, 0) ms"
    using l by (simp add: d ledger_at_def numbered_def at_integer_def at_array_def dict_at_def)
  moreover have "\<forall>m\<in>H. proper m \<and> message_number m \<le> (g + 1, 0)"
    using coversE(3) [OF assms(1) l] by (fastforce simp: less_eq_prod_def)
  ultimately show ?thesis unfolding covers_def using coversE [OF assms(1) l] by blast
qed

text \<open>So is the next message of a generation.\<close>

lemma covers_message:
  assumes "covers H S l" "ledger_at l (g, n) ms" "numbered m (g, n + 1)" "proper m" "ledger_at l' (g, n + 1) (ns @ [m])"
    and ns: "sorted_wrt (<) (map message_number ns)" "set ns \<subseteq> set ms"
  shows "covers (insert m H) S l'"
proof -
  note l = coversE [OF assms(1,2)]
  have m: "message_number m = (g, n + 1)" by (rule number_numbered [OF assms(3)])
  have less: "message_number x < message_number m" if "x \<in> H" for x using l(3) that by (fastforce simp: m less_prod_def less_eq_prod_def)
  have "\<forall>x\<in>insert m H. proper x \<and> message_number x \<le> (g, n + 1)" using less assms(4) m l(3) by (auto simp: less_imp_le)
  moreover have "inj_on message_number (insert m H)" using l(4) less by (force simp: inj_on_insert)
  moreover have "sorted_wrt (<) (map message_number (ns @ [m]))" using ns l(1) less by (auto simp: sorted_wrt_append)
  moreover have "\<forall>x\<in>S. \<forall>y\<in>set (ns @ [m]). message_number x \<le> message_number y" using l(2,6) ns(2) less by (fastforce simp: less_imp_le)
  moreover have "set (ns @ [m]) \<subseteq> insert m H" "S \<subseteq> insert m H" using ns(2) l(1,2) by auto
  ultimately show ?thesis unfolding covers_def using assms(5) by blast
qed

text \<open>Pending messages may be dropped, and the first of them sent.\<close>

lemma covers_pending:
  assumes "covers H S l" "ledger_at l p ms" "ledger_at l' p ns" "sorted_wrt (<) (map message_number ns)" "set ns \<subseteq> set ms"
  shows "covers H S l'"
proof -
  note l = coversE [OF assms(1,2)]
  have "set ns \<subseteq> H" "\<forall>m\<in>S. \<forall>m'\<in>set ns. message_number m \<le> message_number m'" using l(1,6) assms(5) by auto
  then show ?thesis unfolding covers_def using assms(3,4) l(2,3,4) by blast
qed

lemma covers_sent:
  assumes "covers H S l" "ledger_at l p (m # ms)"
  shows "covers H (insert m S) l" "m \<in> H" "\<forall>x\<in>S. message_number x \<le> message_number m"
proof -
  note l = coversE [OF assms]
  have "\<forall>x\<in>insert m S. \<forall>y\<in>set (m # ms). message_number x \<le> message_number y" using l(5,6) by (auto simp: less_imp_le)
  moreover have "insert m S \<subseteq> H" using l(1,2) by auto
  ultimately show "covers H (insert m S) l" unfolding covers_def using assms(2) l(1,3,4,5) by blast
  show "m \<in> H" "\<forall>x\<in>S. message_number x \<le> message_number m" using l(1,6) by auto
qed

lemma covers_initial: "covers {} {} (initial_ledger binding)"
proof -
  have "ledger_at (initial_ledger binding) (0, 0) []"
    by (simp add: ledger_at_def numbered_def initial_ledger_def at_integer_def at_array_def dict_at_def dict_get_emplace)
  then show ?thesis unfolding covers_def by force
qed

section \<open>Durable ledgers\<close>

lemma shape_array: "(\<And>x. x \<in> set xs \<Longrightarrow> shape n x) \<Longrightarrow> shape (Suc n) (JArray xs)"
  by (auto simp: shape_def list_all_iff foldr_max_le)

lemma shape_array_in: "shape (Suc n) (JArray xs) \<Longrightarrow> x \<in> set xs \<Longrightarrow> shape n x"
  by (auto simp: shape_def list_all_iff foldr_max_le)

definition durable :: "json \<Rightarrow> world \<Rightarrow> bool" where
  "durable l w \<longleftrightarrow> (\<exists>t. canonical l = Inr t \<and> length t \<le> 700000 \<and> disk w = Some (own t))"

lemma durable_read:
  assumes "durable l w" "shape 24 l"
  obtains t where "read_ledger w = (Done (Some t), w)" "parse_json t 700000 = Inr l"
proof -
  obtain t where t: "canonical l = Inr t" "length t \<le> 700000" "disk w = Some (own t)"
    using assms by (auto simp: durable_def)
  have "t \<noteq> []" using t(1) canonical_nonempty by blast
  then have "read_ledger w = (Done (Some t), w)" using t by (simp add: read_ledger_def disk_def)
  moreover have "parse_json t 700000 = Inr l" using t assms(2) by (intro parse_canonical) (auto simp: shape_def)
  ultimately show thesis by (rule that)
qed

lemma durable_disk: "durable l w \<Longrightarrow> disk w' = disk w \<Longrightarrow> durable l w'"
  by (simp add: durable_def)

section \<open>Runs\<close>

text \<open>
  \<open>good x w S\<close>: the directory holds no ledger yet, or a durable one that covers what was sent; a running object that is
  not poisoned has this ledger in memory.
\<close>

definition good :: "ObservationStream option \<Rightarrow> world \<Rightarrow> json set \<Rightarrow> bool" where
  "good x w S \<longleftrightarrow>
     world_ok w \<and>
     (disk w = None \<and> S = {} \<and> x = None \<or>
      (\<exists>l H. durable l w \<and> shape 24 l \<and> covers H S l \<and>
         (\<forall>s. x = Some s \<longrightarrow> shape 21 (os_base s) \<and> (\<not> os_poisoned s \<longrightarrow> memory w = l))))"

lemma good_stop: "good x w S \<Longrightarrow> good None w S"
  by (auto simp: good_def)

lemma good_script: "good x w S \<Longrightarrow> good x (w\<lparr>script := fs\<rparr>) S"
  by (simp add: good_def durable_def disk_def get_file_def world_ok_def)

lemma good_disk: "good None w S \<Longrightarrow> world_ok w' \<Longrightarrow> disk w' = disk w \<Longrightarrow> good None w' S"
  by (auto simp: good_def durable_def)

lemma good_memory:
  assumes "good (Some s) w S" "\<not> os_poisoned s"
  obtains H where "shape 24 (memory w)" "covers H S (memory w)" "durable (memory w) w" "shape 21 (os_base s)" "world_ok w"
  using assms by (auto simp: good_def)

lemma good_sent:
  assumes "good (Some s) w S" "\<not> os_poisoned s" "ledger_at (memory w) p (m # ms)"
  shows "good (Some s) w (insert m S)" "proper m" "inj_on message_number (insert m S)" "\<forall>x\<in>S. message_number x \<le> message_number m"
proof -
  obtain H where l: "durable (memory w) w" "shape 24 (memory w)" "covers H S (memory w)" "shape 21 (os_base s)" "world_ok w"
    using good_memory [OF assms(1,2)] by blast
  note c = covers_sent [OF l(3) assms(3)]
  show "good (Some s) w (insert m S)" using l c(1) unfolding good_def by auto
  show "proper m" using coversE(3) [OF l(3) assms(3)] c(2) by blast
  show "inj_on message_number (insert m S)"
    using coversE(4) [OF c(1) assms(3)] coversE(2) [OF c(1) assms(3)] by (rule inj_on_subset)
  show "\<forall>x\<in>S. message_number x \<le> message_number m" by (rule c(3))
qed

lemma commit_good:
  assumes "good None w S" "commit_outcome s w nx (r, s', w')" "shape 24 nx" "covers H S nx" "shape 21 (os_base s)"
  shows "good None w' S" "r = Done u \<Longrightarrow> good (Some s) w' S \<and> s' = s \<and> memory w' = nx"
proof -
  have w': "world_ok w'" "disk w' = disk w \<or> durable nx w'"
    using assms(2) by (auto simp: commit_outcome_def durable_def)
  have new: "good None w' S" if "durable nx w'" using that w'(1) assms(3,4) unfolding good_def by blast
  show "good None w' S" using w'(2) good_disk [OF assms(1) w'(1)] new by blast
  assume "r = Done u"
  then have "s' = s" "memory w' = nx" "durable nx w'" using assms(2) by (auto simp: commit_outcome_def durable_def)
  then show "good (Some s) w' S \<and> s' = s \<and> memory w' = nx" using w'(1) assms(3-5) unfolding good_def by auto
qed

text \<open>The result of a method: \<open>Q\<close> when it returns, and otherwise still \<open>good\<close>, after a stop without the object.\<close>

definition leads :: "json set \<Rightarrow> ('a \<Rightarrow> ObservationStream \<Rightarrow> world \<Rightarrow> bool) \<Rightarrow> 'a outcome \<times> ObservationStream \<times> world \<Rightarrow> bool" where
  "leads S Q r \<longleftrightarrow>
     (case r of (Done x, s, w) \<Rightarrow> Q x s w | (Threw e, s, w) \<Rightarrow> good (Some s) w S | (Crashed, s, w) \<Rightarrow> good None w S)"

lemma leads_return: "Q x s w \<Longrightarrow> leads S Q (m_return x s w)"
  by (simp add: leads_def m_return_def)

lemma leads_throw: "good (Some s) w S \<Longrightarrow> leads S Q (m_throw e s w)"
  by (simp add: leads_def m_throw_def)

lemma leads_lift:
  assumes "good (Some s) w S" "\<And>x. r = Inr x \<Longrightarrow> leads S Q (f x s w)"
  shows "leads S Q (m_bind (m_lift r) f s w)"
  using assms by (cases r) (auto simp: leads_throw)

lemma leads_poisoned:
  assumes "good (Some s) w S" "\<not> os_poisoned s \<Longrightarrow> leads S Q (f () s w)"
  shows "leads S Q (m_bind check_poisoned f s w)"
  using assms by (simp add: check_poisoned_def m_bind_def m_get_def m_throw_def m_return_def leads_def)

lemma leads_memory: "leads S Q (f (memory w) s w) \<Longrightarrow> leads S Q (m_bind (m_io get_memory) f s w)"
  by (simp add: m_bind_def m_io_def get_memory_def)

lemma leads_if: "(b \<Longrightarrow> leads S Q (f s w)) \<Longrightarrow> (\<not> b \<Longrightarrow> leads S Q (h s w)) \<Longrightarrow> leads S Q ((if b then f else h) s w)"
  by simp

lemma leads_get: "leads S Q (f (p s) s w) \<Longrightarrow> leads S Q (m_bind (m_get p) f s w)"
  by (simp add: m_bind_def m_get_def)

lemma leads_commit:
  assumes g: "good (Some s) w S" "\<not> os_poisoned s" and nx: "shape 24 nx" "covers H S nx"
    and after: "\<And>w'. good (Some s) w' S \<Longrightarrow> memory w' = nx \<Longrightarrow> leads S Q (f () s w')"
  shows "leads S Q (m_bind (ledger_commit nx) f s w)"
proof -
  obtain K where l: "durable (memory w) w" "shape 24 (memory w)" "covers K S (memory w)" "shape 21 (os_base s)" "world_ok w"
    using good_memory [OF g] by blast
  obtain r s' w' where r: "ledger_commit nx s w = (r, s', w')" by (metis prod_cases3)
  have out: "commit_outcome s w nx (r, s', w')" using ledger_commit_outcome [OF l(5), of s nx] r by simp
  note c = commit_good [OF good_stop [OF g(1)] out nx l(4)]
  have "good (Some s') w' S" if "r = Threw e" for e
  proof -
    have "memory w' = memory w" "s' = s \<and> disk w' = disk w \<or> s' = s\<lparr>os_poisoned := True\<rparr>" "world_ok w'"
      using out that by (auto simp: commit_outcome_def)
    moreover have "durable (memory w) w'" if "disk w' = disk w" using durable_disk [OF l(1)] that .
    ultimately show ?thesis
      using c(1) l nx out unfolding good_def by (auto simp: commit_outcome_def durable_def)
  qed
  then show ?thesis
    using c after by (cases r) (auto simp: m_bind_def r leads_def)
qed

section \<open>The ledgers that the methods commit\<close>

lemma shape_put:
  assumes "put_field k v l = Inr l'" "shape (Suc n) l" "shape n v"
  shows "shape (Suc n) l'"
  using assms by (auto dest!: put_field_get simp: shape_object_iff obj_shape_set)

lemma shape_pending:
  assumes "shape 24 l" "at_array l ''pending'' = Inr es" "e \<in> set es"
  shows "shape 22 e"
proof -
  have "json_at l ''pending'' = Inr (JArray es)"
    using assms(2) by (auto simp: at_array_def ebind_eq_Inr json_array_eq)
  then have "shape 23 (JArray es)" using shape_at [of 23 l] assms(1) by simp
  then show ?thesis using shape_array_in [of 22 es e] assms(3) by simp
qed

lemma shape_entries:
  assumes "with_entries es l = Inr l'" "shape 24 l" "\<And>e. e \<in> set es \<Longrightarrow> shape 22 e"
  shows "shape 24 l'"
  using shape_put [of _ _ _ _ 23, simplified] shape_array [of es 22, simplified] assms unfolding with_entries_def by blast

lemma ledger_at_entries:
  assumes "with_entries es l = Inr l'" "numbered l p" "list_all2 (\<lambda>e m. json_at e ''message'' = Inr m) es ms"
  shows "ledger_at l' p ms"
proof -
  obtain d where "l = JObject d" "l' = JObject (dict_set ''pending'' (JArray es) d)"
    using assms(1) unfolding with_entries_def by (auto dest!: put_field_get)
  then show ?thesis using assms(2,3) by (simp add: ledger_at_def numbered_def at_integer_def at_array_def dict_at_def)
qed

text \<open>Marking the first entry as sent, and removing it.\<close>

lemma mark_ledger:
  assumes "covers H S l" "shape 24 l" "at_array l ''pending'' = Inr (e # es)"
    and "put_field ''attempted'' (JBool True) e = Inr e'" "with_entries (e' # es) l = Inr l'"
  shows "covers H S l'" "shape 24 l'"
proof -
  obtain p ms where l: "ledger_at l p ms" using assms(1) by (auto simp: covers_def)
  then have ms: "numbered l p" "list_all2 (\<lambda>e m. json_at e ''message'' = Inr m) (e # es) ms"
    using assms(3) by (auto simp: ledger_at_def)
  obtain d where d: "e = JObject d" "e' = JObject (dict_set ''attempted'' (JBool True) d)" using put_field_get [OF assms(4)] by blast
  have "list_all2 (\<lambda>e m. json_at e ''message'' = Inr m) (e' # es) ms"
    using ms(2) by (auto simp: d list_all2_Cons1 dict_at_def)
  then have "ledger_at l' p ms" by (rule ledger_at_entries [OF assms(5) ms(1)])
  then show "covers H S l'" using covers_pending [OF assms(1) l] coversE(5) [OF assms(1) l] by blast
  have "shape 22 x" if "x \<in> set (e # es)" for x using shape_pending [OF assms(2,3) that] .
  then have "shape 22 x" if "x \<in> set (e' # es)" for x
    using that shape_put [OF assms(4), of 21, simplified] by auto
  then show "shape 24 l'" by (rule shape_entries [OF assms(5,2)])
qed

lemma accept_ledger:
  assumes "covers H S l" "shape 24 l" "at_array l ''pending'' = Inr (e # es)" "with_entries es l = Inr l'"
  shows "covers H S l'" "shape 24 l'"
proof -
  obtain p ms where l: "ledger_at l p ms" using assms(1) by (auto simp: covers_def)
  then obtain m ns where ms: "ms = m # ns" "numbered l p" "list_all2 (\<lambda>e m. json_at e ''message'' = Inr m) es ns"
    using assms(3) by (auto simp: ledger_at_def list_all2_Cons1)
  have "ledger_at l' p ns" by (rule ledger_at_entries [OF assms(4) ms(2,3)])
  then show "covers H S l'" using covers_pending [OF assms(1) l] coversE(5) [OF assms(1) l] ms(1) by fastforce
  show "shape 24 l'" using shape_entries [OF assms(4,2)] shape_pending [OF assms(2,3)] by simp
qed

text \<open>Adding an observation: at most one entry is dropped for it.\<close>

lemma some_map_option: "Some y = map_option f x \<longleftrightarrow> (\<exists>z. x = Some z \<and> y = f z)"
  by (cases x) auto

lemma drop_unsent_removes: "drop_unsent es = Inr (Some es') \<Longrightarrow> \<exists>a e b. es = a @ e # b \<and> es' = a @ b"
proof (induction es arbitrary: es')
  case (Cons x xs)
  then consider "es' = xs" | ys where "es' = x # ys" "drop_unsent xs = Inr (Some ys)"
    by (auto simp: ebind_eq_Inr emap_eq_Inr some_map_option split: if_splits)
  then show ?case
  proof cases
    case 1
    then show ?thesis by (metis append_Nil)
  next
    case 2
    then show ?thesis using Cons.IH by (metis append_Cons)
  qed
qed simp

lemma make_room_entries:
  assumes "make_room es = Inr (Some es')" "list_all2 P es ms"
  obtains a b ns where "list_all2 P es' ns" "set es' \<subseteq> set es" "set ns \<subseteq> set ms"
    "\<And>f :: 'a \<Rightarrow> int \<times> int. sorted_wrt (<) (map f ms) \<Longrightarrow> sorted_wrt (<) (map f ns)"
proof (cases "es' = es")
  case True
  then show ?thesis using that assms(2) by blast
next
  case False
  then have "\<exists>ys. es' = rev ys \<and> drop_unsent (rev es) = Inr (Some ys)"
    using assms(1) by (auto simp: make_room_def emap_eq_Inr some_map_option split: if_splits)
  then obtain a e b where d: "rev es = a @ e # b" "es' = rev (a @ b)" using drop_unsent_removes by blast
  then have "es = rev b @ e # rev a" by (metis append_assoc append_Cons append_Nil rev.simps(2) rev_append rev_rev_ident)
  then obtain us m vs where ms: "ms = us @ m # vs" "list_all2 P (rev b) us" "list_all2 P (rev a) vs"
    using assms(2) by (auto simp: list_all2_append1 list_all2_Cons1)
  show ?thesis
  proof (rule that [of "us @ vs"])
    show "list_all2 P es' (us @ vs)" using ms d by (simp add: list_all2_appendI)
    show "set es' \<subseteq> set es" using d \<open>es = _\<close> by auto
  qed (use ms in \<open>auto simp: sorted_wrt_append\<close>)
qed

lemma observation_message_get:
  assumes "observation_message b l c wall bytes = Inr m" "numbered l (g, n)" "shape 21 b" "shape 20 c"
  shows "numbered m (g, n + 1)" "json_at m ''sequence'' = Inr (JInt (n + 1))" "shape 21 m"
proof -
  obtain d gj ts where m: "b = JObject d" "json_at l ''generation'' = Inr gj"
    "m = JObject (dict_set ''contentSha256'' (JString (sha256_hex bytes)) (dict_set ''content'' c
           (dict_set ''observedAt'' (JString ts) (dict_set ''sequence'' (JInt (n + 1)) (dict_set ''generation'' gj
           (dict_set ''contractVersion'' (JString ''3.0.0'') (dict_set ''schemaVersion'' (JInt 3) d)))))))"
    using assms(1,2) by (auto simp: observation_message_def numbered_def ebind_eq_Inr json_object_eq)
  moreover have "gj = JInt g" using m(2) assms(2) by (cases gj) (auto simp: numbered_def at_integer_def invalid_def)
  ultimately have m: "b = JObject d" "m = JObject (dict_set ''contentSha256'' (JString (sha256_hex bytes)) (dict_set ''content'' c
           (dict_set ''observedAt'' (JString ts) (dict_set ''sequence'' (JInt (n + 1)) (dict_set ''generation'' (JInt g)
           (dict_set ''contractVersion'' (JString ''3.0.0'') (dict_set ''schemaVersion'' (JInt 3) d)))))))" by simp_all
  then show "numbered m (g, n + 1)" "json_at m ''sequence'' = Inr (JInt (n + 1))"
    by (simp_all add: numbered_def at_integer_def dict_at_def)
  have "obj_shape 20 d" using assms(3) shape_object_iff [of 20 d] by (simp add: m(1))
  then have "shape (Suc 20) m" unfolding m(2) shape_object_iff by (intro obj_shape_set shape_atom assms(4))
  then show "shape 21 m" by simp
qed

lemma validate_message_length:
  assumes "validate_message m = Inr k" "canonical m = Inr t"
  shows "length t \<le> 8192"
  using assms by (auto simp: validate_message_def ebind_eq_Inr ofail_if_def emap_eq_Inr ethrow_if_def split: if_splits)

lemma observe_ledger:
  assumes c: "covers H S l" "shape 24 l" and room: "at_array l ''pending'' = Inr es" "make_room es = Inr (Some es')"
    and m: "observation_message b l c wall bytes = Inr m" "validate_message m = Inr k" "canonical m = Inr t"
    and nx: "json_at m ''sequence'' = Inr v" "ebind (put_field ''sequence'' v l) (with_entries (es' @ [new_entry m t])) = Inr l'"
    and "shape 21 b" "shape 20 c"
  shows "covers (insert m H) S l'" "shape 24 l'"
proof -
  obtain g n ms where l: "ledger_at l (g, n) ms" using c(1) by (auto simp: covers_def)
  then have ms: "numbered l (g, n)" "list_all2 (\<lambda>e m. json_at e ''message'' = Inr m) es ms" using room(1) by (auto simp: ledger_at_def)
  note m' = observation_message_get [OF m(1) ms(1) assms(10,11)]
  obtain ns where ns: "list_all2 (\<lambda>e m. json_at e ''message'' = Inr m) es' ns" "set es' \<subseteq> set es" "set ns \<subseteq> set ms"
    "sorted_wrt (<) (map message_number ns)"
    using make_room_entries [OF room(2) ms(2)] coversE(5) [OF c(1) l] by metis
  obtain l1 where l1: "put_field ''sequence'' (JInt (n + 1)) l = Inr l1" "with_entries (es' @ [new_entry m t]) l1 = Inr l'"
    using nx m'(2) by (auto simp: ebind_eq_Inr)
  have "numbered l1 (g, n + 1)" using ms(1) put_field_get [OF l1(1)] by (auto simp: numbered_def at_integer_def dict_at_def)
  moreover have entry: "json_at (new_entry m t) ''message'' = Inr m" by (simp add: new_entry_def dict_at_def dict_get_emplace)
  ultimately have "ledger_at l' (g, n + 1) (ns @ [m])"
    using ns(1) by (intro ledger_at_entries [OF l1(2)]) (auto intro: list_all2_appendI)
  moreover have "proper m" using m'(1,3) m(3) validate_message_length [OF m(2,3)] by (auto simp: proper_def)
  ultimately show "covers (insert m H) S l'" using covers_message [OF c(1) l m'(1)] ns by blast
  have "shape 24 l1" using shape_put [OF l1(1), of 23] c(2) by simp
  moreover have "shape (Suc 21) (new_entry m t)"
    unfolding new_entry_def by (intro shape_object obj_shape_init) (auto simp: m'(3))
  ultimately show "shape 24 l'"
    using shape_entries [OF l1(2)] shape_pending [OF c(2) room(1)] ns(2) by auto
qed

section \<open>The methods\<close>

definition stays :: "json set \<Rightarrow> 'a \<Rightarrow> ObservationStream \<Rightarrow> world \<Rightarrow> bool" where
  "stays S x s w \<longleftrightarrow> good (Some s) w S"

lemma observe_good:
  assumes g: "good (Some s) w S" and c: "shape 20 c"
  shows "leads S (stays S) (observe c wall monotonic s w)"
  unfolding observe_def
proof ((rule leads_poisoned [OF g] leads_get leads_lift [OF g])+, goal_cases)
  case (1 profile kind u bytes)
  show ?case
  proof (cases "too_soon (id s) bytes monotonic")
    case True
    then show ?thesis using g by (simp add: leads_return stays_def)
  next
    case fresh: False
    obtain H where l: "covers H S (memory w)" "shape 24 (memory w)" "shape 21 (os_base s)" using good_memory [OF g 1(1)] by blast
    show ?thesis unfolding if_not_P [OF fresh]
    proof ((rule leads_memory leads_lift [OF g])+, goal_cases)
      case (1 room)
      show ?case
      proof (cases room)
        case None
        then show ?thesis using g by (simp add: leads_return stays_def)
      next
        case (Some es')
        obtain es where es: "at_array (memory w) ''pending'' = Inr es" "make_room es = Inr (Some es')"
          using 1 Some by (auto simp: ebind_eq_Inr)
        show ?thesis unfolding Some option.case
        proof ((rule leads_lift [OF g])+, goal_cases)
          case m: (1 _ m _ t v nx)
          have b: "shape 21 (os_base (id s))" using l(3) by simp
          note nx = observe_ledger [OF l(1,2) es m(2-6) b c]
          show ?case
          proof (rule leads_commit [OF g \<open>\<not> os_poisoned s\<close> nx(2,1)])
            fix w'
            assume "good (Some s) w' S"
            then show "leads S (stays S) (m_bind (m_set (\<lambda>s. s\<lparr>os_last_emit := monotonic, os_last_content := bytes\<rparr>)) (\<lambda>_. m_return True) s w')"
              by (simp add: leads_def stays_def m_bind_def m_set_def m_return_def good_def)
          qed
        qed
      qed
    qed
  qed
qed

lemma accept_good:
  assumes g: "good (Some s) w S"
  shows "leads S (stays S) (accept_observation attempted status response s w)"
  unfolding accept_observation_def
proof (rule leads_poisoned [OF g], rule leads_if, goal_cases)
  case 1
  then show ?case using g by (simp add: leads_return stays_def)
next
  case sound: 2
  obtain H where l: "covers H S (memory w)" "shape 24 (memory w)" using good_memory [OF g sound(1)] by blast
  show ?case
  proof ((rule leads_memory leads_lift [OF g])+, goal_cases)
    case (1 entries)
    show ?case
    proof (cases entries)
      case Nil
      then show ?thesis using g by (simp add: leads_return stays_def)
    next
      case (Cons e es)
      then have es: "at_array (memory w) ''pending'' = Inr (e # es)" using 1 by simp
      have remove: "leads S (stays S) (m_bind (m_bind (m_lift (with_entries es (memory w))) ledger_commit) (\<lambda>_. m_return True) s w)"
        unfolding m_bind_assoc
      proof (rule leads_lift [OF g])
        fix nx
        assume "with_entries es (memory w) = Inr nx"
        note nx = accept_ledger [OF l es this]
        show "leads S (stays S) (m_bind (ledger_commit nx) (\<lambda>_. m_return True) s w)"
          by (rule leads_commit [OF g sound(1) nx(2,1)]) (simp add: leads_return stays_def)
      qed
      have stay: "leads S (stays S) (m_return False s w)" using g by (simp add: leads_return stays_def)
      show ?thesis unfolding Cons list.case
        by (rule leads_lift [OF g], rule leads_if, rule stay, rule leads_lift [OF g], rule leads_if, rule stay, rule remove)
    qed
  qed
qed

text \<open>What is sent is the first pending message, durably marked as sent.\<close>

definition sends :: "json set \<Rightarrow> string option \<Rightarrow> ObservationStream \<Rightarrow> world \<Rightarrow> bool" where
  "sends S x s w \<longleftrightarrow>
     (case x of
        None \<Rightarrow> good (Some s) w S
      | Some t \<Rightarrow> \<exists>m. canonical m = Inr t \<and> proper m \<and> good (Some s) w (insert m S) \<and> inj_on message_number (insert m S) \<and>
          (\<forall>m'\<in>S. message_number m' \<le> message_number m))"

lemma leads_send:
  assumes "good (Some s) w S" "\<not> os_poisoned s" "at_array (memory w) ''pending'' = Inr (e # es)"
  shows "leads S (sends S) (m_lift (emap Some (ebind (json_at e ''message'') canonical)) s w)"
proof (cases "emap Some (ebind (json_at e ''message'') canonical)")
  case (Inl err)
  then show ?thesis using assms(1) by (simp add: leads_throw)
next
  case (Inr x)
  then obtain m t where m: "json_at e ''message'' = Inr m" "canonical m = Inr t" "x = Some t"
    by (auto simp: emap_eq_Inr ebind_eq_Inr)
  obtain H where "covers H S (memory w)" using good_memory [OF assms(1,2)] by blast
  then obtain p ms where "ledger_at (memory w) p ms" by (auto simp: covers_def)
  then have "\<exists>ms. ledger_at (memory w) p (m # ms)" using assms(3) m(1) by (auto simp: ledger_at_def list_all2_Cons1)
  then obtain ms where "ledger_at (memory w) p (m # ms)" ..
  note sent = good_sent [OF assms(1,2) this]
  have "sends S x s w" unfolding sends_def m(3) option.case using m(2) sent by blast
  then show ?thesis unfolding Inr by (simp add: leads_return)
qed

lemma next_good:
  assumes g: "good (Some s) w S"
  shows "leads S (sends S) (next_observation s w)"
  unfolding next_observation_def
proof ((rule leads_poisoned [OF g] leads_memory leads_lift [OF g])+, goal_cases)
  case (1 entries)
  show ?case
  proof (cases entries)
    case Nil
    then show ?thesis using g by (simp add: leads_return sends_def)
  next
    case (Cons e es)
    then have es: "at_array (memory w) ''pending'' = Inr (e # es)" using 1 by simp
    obtain H where l: "covers H S (memory w)" "shape 24 (memory w)" using good_memory [OF g 1(1)] by blast
    show ?thesis unfolding Cons list.case
    proof (rule leads_lift [OF g])
      fix sent
      show "leads S (sends S)
        (m_bind (if sent then m_return ()
           else m_bind (m_lift (ebind (put_field ''attempted'' (JBool True) e) (\<lambda>e'. with_entries (e' # es) (memory w)))) ledger_commit)
           (\<lambda>_. m_lift (emap Some (ebind (json_at e ''message'') canonical))) s w)"
      proof (cases sent)
        case True
        then show ?thesis using leads_send [OF g 1(1) es] by simp
      next
        case False
        show ?thesis unfolding if_not_P [OF False] m_bind_assoc
        proof (rule leads_lift [OF g])
          fix nx
          assume "ebind (put_field ''attempted'' (JBool True) e) (\<lambda>e'. with_entries (e' # es) (memory w)) = Inr nx"
          then obtain e' where e': "put_field ''attempted'' (JBool True) e = Inr e'" "with_entries (e' # es) (memory w) = Inr nx"
            by (auto simp: ebind_eq_Inr)
          note nx = mark_ledger [OF l es e']
          have same: "json_at e' ''message'' = json_at e ''message''"
            using put_field_get [OF e'(1)] by (auto simp: dict_at_def)
          have pending: "at_array nx ''pending'' = Inr (e' # es)"
            using put_field_get [OF e'(2) [unfolded with_entries_def]] by (auto simp: at_array_def dict_at_def)
          show "leads S (sends S) (m_bind (ledger_commit nx) (\<lambda>_. m_lift (emap Some (ebind (json_at e ''message'') canonical))) s w)"
          proof (rule leads_commit [OF g 1(1) nx(2,1)])
            fix w'
            assume "good (Some s) w' S" "memory w' = nx"
            then show "leads S (sends S) (m_lift (emap Some (ebind (json_at e ''message'') canonical)) s w')"
              using leads_send [of s w' S e' es] 1(1) pending same by simp
          qed
        qed
      qed
    qed
  qed
qed

section \<open>Opening\<close>

definition opens :: "json set \<Rightarrow> 'a outcome \<times> ObservationStream \<times> world \<Rightarrow> bool" where
  "opens S r \<longleftrightarrow> (case r of (Done x, s, w) \<Rightarrow> good (Some s) w S | (_, s, w) \<Rightarrow> good None w S)"

lemma opens_lift:
  assumes "good None w S" "\<And>x. r = Inr x \<Longrightarrow> opens S (f x s w)"
  shows "opens S (m_bind (m_lift r) f s w)"
  using assms by (cases r) (auto simp: opens_def m_throw_def)

lemma opens_commit:
  assumes "good None w S" "shape 24 nx" "covers H S nx" "shape 21 (os_base s)"
  shows "opens S (ledger_commit nx s w)"
proof -
  have ok: "world_ok w" using assms(1) by (simp add: good_def)
  obtain r s' w' where r: "ledger_commit nx s w = (r, s', w')" by (metis prod_cases3)
  then have out: "commit_outcome s w nx (r, s', w')" using ledger_commit_outcome [OF ok, of s nx] by simp
  note c = commit_good [OF assms(1) out assms(2-4)]
  show ?thesis using c by (cases r) (auto simp: r opens_def)
qed

text \<open>Calls that leave \<^verbatim>\<open>ledger.json\<close> alone.\<close>

definition untouched :: "json set \<Rightarrow> 'a io \<Rightarrow> bool" where
  "untouched S m \<longleftrightarrow> spec (\<lambda>w. good None w S) m (\<lambda>_ w. good None w S) (\<lambda>w. good None w S)"

lemma untouched_syscall:
  assumes "\<And>w. good None w S \<Longrightarrow> good None (eff w) S"
  shows "untouched S (require_ok (syscall eff) e)"
  unfolding untouched_def
proof (rule specI)
  fix w
  assume "good None w S"
  then have "good None (w\<lparr>script := fs\<rparr>) S" for fs by (rule good_script)
  then show "case require_ok (syscall eff) e w of (Done x, w') \<Rightarrow> good None w' S | (_, w') \<Rightarrow> good None w' S"
    using assms \<open>good None w S\<close> by (auto simp: io_simps split: list.splits fault.splits)
qed

lemma untouched_sync: "untouched S (require_ok (syscall id) e)"
  by (rule untouched_syscall) simp

lemma untouched_bind: "untouched S m \<Longrightarrow> (\<And>x. untouched S (f x)) \<Longrightarrow> untouched S (io_bind m f)"
  unfolding untouched_def by (rule spec_bind)

lemma untouched_directory: "untouched S open_directory"
  unfolding open_directory_def by (intro untouched_bind untouched_sync)

lemma good_drop: "good None w S \<Longrightarrow> good None (drop_file Root ''ledger.next'' w) S"
proof (rule good_disk)
  assume "good None w S"
  then have "holds (contents w) w" by (simp add: good_def holds_def)
  from this holds_drop [OF this] show "world_ok (drop_file Root ''ledger.next'' w)" "disk (drop_file Root ''ledger.next'' w) = disk w"
    by (auto simp: disk_holds holds_def)
qed

lemma untouched_drop: "untouched S (require_ok (syscall (drop_file Root ''ledger.next'')) e)"
  by (rule untouched_syscall) (rule good_drop)

lemma opens_untouched:
  assumes "untouched S m" "good None w S" "\<And>x w'. good None w' S \<Longrightarrow> opens S (f x s w')"
  shows "opens S (m_bind (m_io m) f s w)"
proof -
  obtain r w' where r: "m w = (r, w')" by fastforce
  have "good None w' S" using specD [OF assms(1) [unfolded untouched_def] assms(2)] r by (simp split: outcome.splits)
  then show ?thesis using assms(3) by (cases r) (auto simp: m_bind_def m_io_def r opens_def)
qed

lemma shape_initial: "shape 21 binding \<Longrightarrow> shape 24 (initial_ledger binding)"
proof -
  assume "shape 21 binding"
  then have "shape 23 binding" by (rule shape_mono) simp
  moreover have "shape (Suc 22) (JArray [])" by (rule shape_array) simp
  ultimately have "shape (Suc 23) (initial_ledger binding)"
    unfolding initial_ledger_def by (intro shape_object obj_shape_init) auto
  then show ?thesis by simp
qed

lemma shape_generation:
  assumes "next_generation l binding = Inr l'" "shape 24 l" "shape 21 binding"
  shows "shape 24 l'"
proof -
  obtain d g where d: "l = JObject d"
    "l' = JObject (dict_set ''sequence'' (JInt 0) (dict_set ''generation'' (JInt (g + 1)) (dict_set ''binding'' binding d)))"
    using assms(1) by (auto simp: next_generation_def ebind_eq_Inr json_object_eq)
  have "shape 23 binding" using assms(3) by (rule shape_mono) simp
  moreover have "obj_shape 23 d" using assms(2) shape_object_iff [of 23 d] by (simp add: d(1))
  ultimately have "shape (Suc 23) l'" unfolding d(2) shape_object_iff by (intro obj_shape_set shape_atom)
  then show ?thesis by simp
qed

lemma shape_allocation:
  assumes "allocation b = Inr binding" "shape 21 b"
  shows "shape 21 binding"
proof -
  obtain vs where vs: "binding = JArray vs" "emapM (json_at b) [''unitSystemUid'', ''messageType'', ''serviceInstance''] = Inr vs"
    using assms(1) by (auto simp: allocation_def emap_eq_Inr)
  have "shape 20 v" if "v \<in> set vs" for v
    using vs(2) that shape_at [of 20 b _ v] assms(2) by (auto simp: ebind_eq_Inr)
  then show ?thesis using shape_array [of vs 20] by (simp add: vs(1))
qed

text \<open>What the constructor starts from, whether it reads a ledger or makes one.\<close>

lemma start_ledger:
  assumes "good None w S" "shape 21 binding"
    and "read_ledger w = (Done existing, w')" "(case existing of Some t \<Rightarrow> parse_json t 700000 | None \<Rightarrow> Inr (initial_ledger binding)) = Inr l"
  shows "\<exists>H. shape 24 l \<and> covers H S l"
proof (cases "disk w")
  case None
  then have "S = {}" "l = initial_ledger binding" using assms by (auto simp: good_def durable_def read_ledger_def disk_def)
  then show ?thesis using shape_initial [OF assms(2)] covers_initial by blast
next
  case (Some f)
  then obtain k H where k: "durable k w" "shape 24 k" "covers H S k" using assms(1) by (auto simp: good_def)
  obtain t where "read_ledger w = (Done (Some t), w)" "parse_json t 700000 = Inr k" by (rule durable_read [OF k(1,2)])
  then show ?thesis using assms(3,4) k by auto
qed

lemma start_good:
  assumes g: "good None w S" and b: "shape 21 b"
  shows "opens S (start_stream b (fresh_stream b) w)"
  unfolding start_stream_def
proof (rule opens_lift [OF g])
  fix binding
  assume binding: "allocation b = Inr binding"
  have sb: "shape 21 binding" by (rule shape_allocation [OF binding b])
  have "snd (read_ledger w) = w" by (simp add: read_ledger_def io_throw_def split: option.splits)
  then obtain r where r: "read_ledger w = (r, w)" by (metis prod.collapse)
  show "opens S (m_bind (m_io read_ledger) (\<lambda>existing.
     m_bind (case existing of Some t \<Rightarrow> m_lift (parse_json t 700000) | None \<Rightarrow> m_return (initial_ledger binding)) (\<lambda>ledger.
     m_bind (m_io (set_memory ledger)) (\<lambda>_.
     m_bind (m_lift (check_ledger ledger binding)) (\<lambda>_.
     m_bind (m_lift (next_generation ledger binding)) (\<lambda>next.
     m_bind (m_io (require_ok (syscall (drop_file Root ''ledger.next'')) ledger_fail)) (\<lambda>_.
       ledger_commit next)))))) (fresh_stream b) w)" (is "opens S (m_bind _ (\<lambda>x. m_bind (?ledger x) ?rest) _ _)")
  proof (cases r)
    case (Done existing)
    have eq: "?ledger x = m_lift (case x of Some t \<Rightarrow> parse_json t 700000 | None \<Rightarrow> Inr (initial_ledger binding))" for x
      by (simp split: option.splits)
    have "opens S (m_bind (?ledger existing) ?rest (fresh_stream b) w)" unfolding eq
    proof (rule opens_lift [OF g])
      fix l
      assume "(case existing of Some t \<Rightarrow> parse_json t 700000 | None \<Rightarrow> Inr (initial_ledger binding)) = Inr l"
      from start_ledger [OF g sb r [unfolded Done] this] obtain H where l: "shape 24 l" "covers H S l" by blast
      have g': "good None (w\<lparr>memory := l\<rparr>) S" by (rule good_disk [OF g]) (use g in \<open>auto simp: good_def world_ok_def disk_def get_file_def\<close>)
      have "opens S (m_bind (m_lift (check_ledger l binding)) (\<lambda>_. m_bind (m_lift (next_generation l binding)) (\<lambda>next.
          m_bind (m_io (require_ok (syscall (drop_file Root ''ledger.next'')) ledger_fail)) (\<lambda>_. ledger_commit next)))
          (fresh_stream b) (w\<lparr>memory := l\<rparr>))"
      proof ((rule opens_lift [OF g'])+, rule opens_untouched [OF untouched_drop g'])
        fix nx w'
        assume "next_generation l binding = Inr nx" "good None w' S"
        then show "opens S (ledger_commit nx (fresh_stream b) w')"
          using opens_commit [OF _ shape_generation [OF _ l(1) sb] covers_generation [OF l(2)]] b by (simp add: fresh_stream_def)
      qed
      then show "opens S (?rest l (fresh_stream b) w)" by (simp add: m_bind_def m_io_def set_memory_def)
    qed
    then show ?thesis by (simp add: m_bind_def m_io_def r Done)
  qed (use g r in \<open>auto simp: m_bind_def m_io_def opens_def\<close>)
qed

lemma open_good:
  assumes "good None w S" "shape 21 b" "open_stream b w = (r, w')"
  shows "good (case r of Done s \<Rightarrow> Some s | _ \<Rightarrow> None) w' S"
proof -
  obtain q w1 where q: "open_directory w = (q, w1)" by fastforce
  have w1: "good None w1 S"
    using specD [OF untouched_directory [unfolded untouched_def] assms(1)] q by (simp split: outcome.splits)
  obtain p s w2 where p: "start_stream b (fresh_stream b) w1 = (p, s, w2)" by (metis prod_cases3)
  have "opens S (p, s, w2)" using start_good [OF w1 assms(2)] p by simp
  then show ?thesis
    using assms(3) w1 by (cases q; cases p) (auto simp: open_stream_def io_bind_def q p opens_def)
qed

section \<open>Runs of the ledger\<close>

text \<open>
  The life of the directory: objects are opened on it, called and stopped, with any script of faults, and \<open>ts\<close> are the
  texts handed out for delivery so far. The base and the contents are documents of limited depth.
\<close>

inductive ledger_run :: "ObservationStream option \<Rightarrow> world \<Rightarrow> string list \<Rightarrow> bool" where
  Empty: "ledger_run None w []" if "world_ok w" "disk w = None"
| Open: "ledger_run (case r of Done s \<Rightarrow> Some s | _ \<Rightarrow> None) w' ts"
    if "ledger_run None w ts" "shape 21 b" "open_stream b w = (r, w')"
| Observe: "ledger_run (if r = Crashed then None else Some s') w' ts"
    if "ledger_run (Some s) w ts" "shape 20 c" "observe c wall monotonic s w = (r, s', w')"
| Next: "ledger_run (if r = Crashed then None else Some s') w' (case r of Done (Some t) \<Rightarrow> ts @ [t] | _ \<Rightarrow> ts)"
    if "ledger_run (Some s) w ts" "next_observation s w = (r, s', w')"
| Accept: "ledger_run (if r = Crashed then None else Some s') w' ts"
    if "ledger_run (Some s) w ts" "accept_observation attempted status response s w = (r, s', w')"
| Stop: "ledger_run None w ts" if "ledger_run x w ts"
| Script: "ledger_run x (w\<lparr>script := fs\<rparr>) ts" if "ledger_run x w ts"

text \<open>The messages of the texts.\<close>

definition delivered :: "string list \<Rightarrow> json list \<Rightarrow> bool" where
  "delivered ts ms \<longleftrightarrow>
     list_all2 (\<lambda>t m. canonical m = Inr t \<and> proper m) ts ms \<and> sorted (map message_number ms) \<and> inj_on message_number (set ms)"

lemma leads_stays: "leads S (stays S) (r, s', w') \<Longrightarrow> good (if r = Crashed then None else Some s') w' S"
  by (cases r) (auto simp: leads_def stays_def)

lemma delivered_send:
  assumes "delivered ts ms" "leads (set ms) (sends (set ms)) (r, s', w')"
  shows "\<exists>ns. delivered (case r of Done (Some t) \<Rightarrow> ts @ [t] | _ \<Rightarrow> ts) ns \<and> good (if r = Crashed then None else Some s') w' (set ns)"
proof (cases "\<exists>t. r = Done (Some t)")
  case True
  then obtain t where t: "r = Done (Some t)" by blast
  then have "sends (set ms) (Some t) s' w'" using assms(2) by (simp add: leads_def)
  then obtain m where m: "canonical m = Inr t" "proper m" "good (Some s') w' (insert m (set ms))"
    "inj_on message_number (insert m (set ms))" "\<forall>m'\<in>set ms. message_number m' \<le> message_number m"
    unfolding sends_def option.case by blast
  have "delivered (ts @ [t]) (ms @ [m])"
    using assms(1) m unfolding delivered_def by (simp add: list_all2_appendI sorted_append)
  then show ?thesis using m(3) t by (intro exI [of _ "ms @ [m]"]) simp
next
  case False
  then have "good (if r = Crashed then None else Some s') w' (set ms)"
    using assms(2) by (cases r) (auto simp: leads_def sends_def split: option.splits)
  then show ?thesis using assms(1) False by (intro exI [of _ ms]) (auto split: outcome.splits option.splits)
qed

lemma ledger_run_good: "ledger_run x w ts \<Longrightarrow> \<exists>ms. delivered ts ms \<and> good x w (set ms)"
proof (induction rule: ledger_run.induct)
  case (Empty w)
  then show ?case by (intro exI [of _ "[]"]) (simp add: delivered_def good_def)
next
  case (Open w ts b r w')
  then show ?case using open_good by blast
next
  case (Observe s w ts c wall monotonic r s' w')
  then show ?case using observe_good leads_stays by metis
next
  case (Next s w ts r s' w')
  then show ?case using delivered_send next_good by metis
next
  case (Accept s w ts attempted status response r s' w')
  then show ?case using accept_good leads_stays by metis
next
  case (Stop x w ts)
  then show ?case using good_stop by blast
next
  case (Script x w ts fs)
  then show ?case using good_script by blast
qed

end
