(* ===== verification/Handover.thy ===== *)
theory Handover
  imports Numbering
begin

text \<open>
  What the ledger hands out for delivery: the theorem on its numbers, and a run of it without failures, from an empty
  directory to the first observation, worked out on concrete values.
\<close>

section \<open>The length of a text\<close>

text \<open>Values whose text exists and is bounded: no floating-point numbers, and strings without characters to escape.\<close>

fun simple :: "json \<Rightarrow> bool" where
  "simple JNull = True"
| "simple (JBool b) = True"
| "simple (JInt n) = (0 \<le> n \<and> n < 10)"
| "simple (JDouble d) = False"
| "simple (JString s) = list_all plain_char s"
| "simple (JObject m) = list_all (\<lambda>e. list_all plain_char (fst e) \<and> simple (snd e)) m"
| "simple (JArray xs) = list_all simple xs"

fun text_bound :: "json \<Rightarrow> nat" where
  "text_bound JNull = 4"
| "text_bound (JBool b) = 5"
| "text_bound (JInt n) = 1"
| "text_bound (JDouble d) = 0"
| "text_bound (JString s) = length s + 2"
| "text_bound (JObject m) = 2 + sum_list (map (\<lambda>e. length (fst e) + 4 + text_bound (snd e)) m)"
| "text_bound (JArray xs) = 2 + sum_list (map (\<lambda>x. 1 + text_bound x) xs)"

lemma plain_ascii: "list_all plain_char k \<Longrightarrow> ascii_key k"
  by (auto simp: ascii_key_def plain_char_def list_all_iff)

lemma simple_canonical: "simple j \<Longrightarrow> \<exists>t. canonical j = Inr t \<and> length t \<le> text_bound j"
proof (induction j)
  case (JInt n)
  then show ?case by (auto simp: show_int_def show_nat.simps nat_less_iff)
next
  case (JString s)
  then show ?case by (simp add: quote_json_plain)
next
  case (JObject m)
  have "\<exists>ts. emapM field_text m = Inr ts \<and> length ts = length m \<and>
      sum_list (map length ts) \<le> sum_list (map (\<lambda>e. length (fst e) + 3 + text_bound (snd e)) m)"
    using JObject
  proof (induction m)
    case (Cons e m)
    obtain k v where e: "e = (k, v)" by fastforce
    have "\<exists>t. canonical v = Inr t \<and> length t \<le> text_bound v"
      using Cons.prems(1) [of e v] Cons.prems(2) e by (simp add: snds.simps)
    then obtain t where "canonical v = Inr t" "length t \<le> text_bound v" by blast
    then have "\<exists>u. field_text e = Inr u \<and> length u \<le> length k + 3 + text_bound v"
      using Cons.prems e by (simp add: field_text_def quote_json_plain plain_ascii)
    moreover have "\<exists>ts. emapM field_text m = Inr ts \<and> length ts = length m \<and>
      sum_list (map length ts) \<le> sum_list (map (\<lambda>e. length (fst e) + 3 + text_bound (snd e)) m)"
      by (rule Cons.IH) (use Cons.prems in \<open>auto simp: snds.simps\<close>)
    ultimately show ?case using e by auto
  qed simp
  then obtain ts where ts: "emapM field_text m = Inr ts" "length ts = length m"
    "sum_list (map length ts) \<le> sum_list (map (\<lambda>e. length (fst e) + 3 + text_bound (snd e)) m)" by blast
  have "sum_list (map (\<lambda>e. length (fst e) + 4 + text_bound (snd e)) m) = length m + sum_list (map (\<lambda>e. length (fst e) + 3 + text_bound (snd e)) m)"
    by (induction m) auto
  then show ?case using ts length_join [of ts] unfolding canonical_object by simp
next
  case (JArray xs)
  have "\<exists>ts. emapM canonical xs = Inr ts \<and> length ts = length xs \<and> sum_list (map length ts) \<le> sum_list (map text_bound xs)"
    using JArray
  proof (induction xs)
    case (Cons x xs)
    then show ?case by fastforce
  qed simp
  then obtain ts where ts: "emapM canonical xs = Inr ts" "length ts = length xs" "sum_list (map length ts) \<le> sum_list (map text_bound xs)" by blast
  have "sum_list (map (\<lambda>x. 1 + text_bound x) xs) = length xs + sum_list (map text_bound xs)" by (induction xs) auto
  then show ?case using ts length_join [of ts] unfolding canonical_array by simp
qed auto

section \<open>Without failures\<close>

definition idle :: "json \<Rightarrow> world \<Rightarrow> bool" where
  "idle l w \<longleftrightarrow> script w = [] \<and> memory w = l \<and> get_file Root ''ledger.next'' w = None \<and> world_ok w"

lemma commit_fine:
  assumes "idle l w" "canonical nx = Inr t" "length t \<le> 700000"
  shows "\<exists>w'. ledger_commit nx s w = (Done (), s, w') \<and> idle nx w'"
proof -
  have w: "script w = []" "get_file Root ''ledger.next'' w = None" "world_ok w" using assms(1) by (auto simp: idle_def)
  have "t \<noteq> []" using canonical_nonempty assms(2) by blast
  then have loop: "write_loop Root ''ledger.next'' [] t v = (Done True, put_file Root ''ledger.next'' t v)" if "script v = []" for v
    using that by (simp add: write_loop.simps)
  define w1 where "w1 = put_file Root ''ledger.next'' t (put_file Root ''ledger.next'' [] w)"
  define w2 where "w2 = rename_file Root ''ledger.next'' ''ledger.json'' w1"
  have s1: "script (put_file Root ''ledger.next'' [] w) = []" "script w1 = []" "script w2 = []"
    using w(1) by (simp_all add: w1_def w2_def put_file_def rename_file_def drop_file_def split: option.splits)
  have eq: "ledger_commit nx s w = (Done (), s, w2\<lparr>memory := nx\<rparr>)"
    using assms(2,3) w(1,2) s1
    by (simp add: ledger_commit_def create_exclusive_def or_poison_def or_unlink_def write_ledger_def loop m_simps io_simps w2_def [symmetric] w1_def [symmetric])
  have "holds (contents w) w" using w(3) by (simp add: holds_def)
  then have "holds ((contents w)(temp \<mapsto> own t)) w1" unfolding w1_def by (metis fun_upd_upd holds_put)
  then have "holds ((contents w)(temp := None, ledger_file \<mapsto> own t)) w2" unfolding w2_def by (rule holds_rename) simp
  then have "idle nx (w2\<lparr>memory := nx\<rparr>)" using s1(3) by (auto simp: idle_def holds_def world_ok_def contents_def get_file_def fun_eq_iff)
  then show ?thesis using eq by blast
qed

section \<open>A first observation\<close>

definition empty_place :: world where
  "empty_place = \<lparr>dirs = (\<lambda>_. []), dir_ok = (\<lambda>_. True), script = [], memory = JNull\<rparr>"

definition demo_instance :: json where
  "demo_instance = JObject [(''instanceId'', JString ''i-3''), (''instanceIndex'', JInt 3), (''serviceId'', JString ''tire''), (''subjectId'', JString ''car'')]"

definition demo_base :: json where
  "demo_base = JObject
     [(''messageType'', JString ''TIRE_FUNCTION_OBSERVATION''), (''serviceInstance'', demo_instance), (''serviceProfile'', JString ''v1''),
      (''serviceVersion'', JString ''1.2.0''), (''unitRole'', JString ''VALIDATION''), (''unitSystemUid'', JString ''unit-7'')]"

definition demo_allocation :: json where
  "demo_allocation = JArray [JString ''unit-7'', JString ''TIRE_FUNCTION_OBSERVATION'', demo_instance]"

definition demo_ledger :: "int \<Rightarrow> int \<Rightarrow> json list \<Rightarrow> json" where
  "demo_ledger g n es = JObject
     [(''binding'', demo_allocation), (''generation'', JInt g), (''pending'', JArray es), (''schemaVersion'', JInt 1), (''sequence'', JInt n)]"

definition demo_observation :: "string \<Rightarrow> json" where
  "demo_observation h = JObject
     [(''content'', initial_facts True), (''contentSha256'', JString h), (''contractVersion'', JString ''3.0.0''), (''generation'', JInt 1),
      (''messageType'', JString ''TIRE_FUNCTION_OBSERVATION''), (''observedAt'', JString ''1970-01-01T00:00:05.000Z''),
      (''schemaVersion'', JInt 3), (''sequence'', JInt 1), (''serviceInstance'', demo_instance), (''serviceProfile'', JString ''v1''),
      (''serviceVersion'', JString ''1.2.0''), (''unitRole'', JString ''VALIDATION''), (''unitSystemUid'', JString ''unit-7'')]"

lemma demo_opening:
  "allocation demo_base = Inr demo_allocation" "check_ledger (initial_ledger demo_allocation) demo_allocation = Inr ()"
  "next_generation (initial_ledger demo_allocation) demo_allocation = Inr (demo_ledger 1 0 [])"
  by code_simp+

lemma demo_facts: "check_content (initial_facts True) ''v1'' False = Inr ()"
  by code_simp

lemma demo_simple: "simple (demo_ledger 1 0 [])" "text_bound (demo_ledger 1 0 []) \<le> 1000" "simple (initial_facts True)"
  by code_simp+

lemma demo_open: "\<exists>s w. open_stream demo_base empty_place = (Done s, w) \<and> idle (demo_ledger 1 0 []) w \<and> s = fresh_stream demo_base"
proof -
  obtain t where t: "canonical (demo_ledger 1 0 []) = Inr t" "length t \<le> 700000"
    using simple_canonical [OF demo_simple(1)] demo_simple(2) by auto
  let ?l = "initial_ledger demo_allocation"
  have d: "open_directory empty_place = (Done (), empty_place)" by (simp add: open_directory_def io_simps empty_place_def)
  have "idle ?l (drop_file Root ''ledger.next'' (empty_place\<lparr>memory := ?l\<rparr>))"
    by (simp add: idle_def empty_place_def drop_file_def get_file_def world_ok_def)
  from commit_fine [OF this t, of "fresh_stream demo_base"] obtain w where
    w: "ledger_commit (demo_ledger 1 0 []) (fresh_stream demo_base) (drop_file Root ''ledger.next'' (empty_place\<lparr>memory := ?l\<rparr>)) =
      (Done (), fresh_stream demo_base, w)" "idle (demo_ledger 1 0 []) w" by blast
  have r: "read_ledger empty_place = (Done None, empty_place)" by (simp add: read_ledger_def empty_place_def get_file_def)
  have u: "require_ok (syscall (drop_file Root ''ledger.next'')) ledger_fail (empty_place\<lparr>memory := ?l\<rparr>) =
      (Done (), drop_file Root ''ledger.next'' (empty_place\<lparr>memory := ?l\<rparr>))"
    by (simp add: io_simps empty_place_def)
  have "start_stream demo_base (fresh_stream demo_base) empty_place = (Done (), fresh_stream demo_base, w)"
    using w(1) by (simp add: start_stream_def demo_opening r u m_bind_def m_io_def m_return_def set_memory_def)
  then show ?thesis using w(2) d by (simp add: open_stream_def io_bind_def)
qed


lemma demo_validate:
  assumes "canonical (initial_facts True) = Inr cs" "canonical (demo_observation (sha256_hex cs)) = Inr t" "length t \<le> 8192"
  shows "\<exists>k. validate_message (demo_observation (sha256_hex cs)) = Inr k"
proof -
  have c: "check_keys (demo_observation h) message_keys = Inr ()" "at_integer (demo_observation h) ''schemaVersion'' = Inr 3"
    "json_at (demo_observation h) ''contractVersion'' = Inr (JString ''3.0.0'')" "json_at (demo_observation h) ''messageType'' = Inr (JString ''TIRE_FUNCTION_OBSERVATION'')"
    "json_at (demo_observation h) ''unitSystemUid'' = Inr (JString ''unit-7'')" "json_at (demo_observation h) ''unitRole'' = Inr (JString ''VALIDATION'')"
    "json_at (demo_observation h) ''serviceVersion'' = Inr (JString ''1.2.0'')" "json_at (demo_observation h) ''serviceInstance'' = Inr demo_instance"
    "json_at (demo_observation h) ''serviceProfile'' = Inr (JString ''v1'')" "json_at (demo_observation h) ''generation'' = Inr (JInt 1)"
    "json_at (demo_observation h) ''sequence'' = Inr (JInt 1)" "json_at (demo_observation h) ''observedAt'' = Inr (JString ''1970-01-01T00:00:05.000Z'')"
    "json_at (demo_observation h) ''content'' = Inr (initial_facts True)" "json_at (demo_observation h) ''contentSha256'' = Inr (JString h)" for h
    by code_simp+
  have p: "check_pick (JString ''TIRE_FUNCTION_OBSERVATION'') [''BRAKE_FUNCTION_OBSERVATION'', ''TIRE_FUNCTION_OBSERVATION''] = Inr ()"
    "check_id (JString ''unit-7'') = Inr ()" "check_pick (JString ''VALIDATION'') [''VALIDATION'', ''PRODUCTION''] = Inr ()"
    "check_version (JString ''1.2.0'') = Inr ()" "check_instance demo_instance = Inr ()" "check_pick (JString ''v1'') [''v1'', ''v2'', ''v3''] = Inr ()"
    "check_integer (JInt 1) True = Inr ()" "check_instant (JString ''1970-01-01T00:00:05.000Z'') = Inr ()" by code_simp+
  have "simple (JArray [JString ''unit-7'', JString ''TIRE_FUNCTION_OBSERVATION'', demo_instance, JInt 1, JInt 1])" by code_simp
  then have "\<exists>t. canonical (JArray [JString ''unit-7'', JString ''TIRE_FUNCTION_OBSERVATION'', demo_instance, JInt 1, JInt 1]) = Inr t"
    using simple_canonical by blast
  then obtain k where "identity_text (demo_observation (sha256_hex cs)) = Inr k" by (auto simp: identity_text_def c simp del: canonical.simps)
  moreover have "digest_matches (demo_observation (sha256_hex cs)) = Inr True"
    using assms(1) by (simp add: digest_matches_def c at_string_def emap_def del: canonical.simps)
  ultimately show ?thesis
    using assms(2,3) demo_facts
    by (auto simp: validate_message_def c p at_string_def ofail_if_def ethrow_if_def emap_def demo_facts del: canonical.simps)
qed

lemma digest_plain: "list_all plain_char (sha256_hex x)" "length (sha256_hex x) = 64"
  using sha256_hex_is_sha256 [of x] by (auto simp: is_sha256_def list_all_iff intro!: lower_hex_plain)

lemma demo_observation_simple:
  assumes "list_all plain_char h" "length h = 64"
  shows "simple (demo_observation h)" "text_bound (demo_observation h) \<le> 2000"
proof -
  have "simple (initial_facts True)" "text_bound (initial_facts True) \<le> 600" "simple demo_instance" "text_bound demo_instance \<le> 100"
    "list_all plain_char ''TIRE_FUNCTION_OBSERVATION''" "list_all plain_char ''1970-01-01T00:00:05.000Z''"
    "list_all plain_char ''3.0.0''" "list_all plain_char ''v1''" "list_all plain_char ''1.2.0''" "list_all plain_char ''VALIDATION''" "list_all plain_char ''unit-7''"
    by code_simp+
  moreover have "list_all (list_all plain_char) message_keys" by code_simp
  ultimately show "simple (demo_observation h)" "text_bound (demo_observation h) \<le> 2000"
    using assms by (simp_all add: demo_observation_def message_keys_def)
qed

lemma demo_entry_simple:
  assumes "simple m" "text_bound m \<le> 2000" "list_all plain_char d" "length d = 64"
  shows "simple (demo_ledger 1 1 [JObject [(''attempted'', JBool b), (''digest'', JString d), (''message'', m)]])"
    "text_bound (demo_ledger 1 1 [JObject [(''attempted'', JBool b), (''digest'', JString d), (''message'', m)]]) \<le> 3000"
proof -
  have "simple demo_allocation" "text_bound demo_allocation \<le> 200"
    "list_all (list_all plain_char) [''binding'', ''generation'', ''pending'', ''schemaVersion'', ''sequence'', ''attempted'', ''digest'', ''message'']"
    by code_simp+
  then show "simple (demo_ledger 1 1 [JObject [(''attempted'', JBool b), (''digest'', JString d), (''message'', m)]])"
    "text_bound (demo_ledger 1 1 [JObject [(''attempted'', JBool b), (''digest'', JString d), (''message'', m)]]) \<le> 3000"
    using assms by (simp_all add: demo_ledger_def)
qed

lemma new_entry_fields: "new_entry m t = JObject [(''attempted'', JBool False), (''digest'', JString (sha256_hex t)), (''message'', m)]"
  by (simp add: new_entry_def dict_emplace_def dict_has_def less_list_code less_char_def)

lemma demo_observe:
  assumes w: "idle (demo_ledger 1 0 []) w"
  shows "\<exists>s w' m t. observe (initial_facts True) 5000 0 (fresh_stream demo_base) w = (Done True, s, w') \<and> \<not> os_poisoned s \<and>
     canonical m = Inr t \<and> simple m \<and> text_bound m \<le> 2000 \<and> idle (demo_ledger 1 1 [new_entry m t]) w'"
proof -
  obtain cs where cs: "canonical (initial_facts True) = Inr cs" using simple_canonical demo_simple(3) by blast
  let ?m = "demo_observation (sha256_hex cs)"
  note m = demo_observation_simple [OF digest_plain, of cs]
  obtain t where t: "canonical ?m = Inr t" "length t \<le> 8192" using simple_canonical [OF m(1)] m(2) by auto
  obtain k where k: "validate_message ?m = Inr k" using demo_validate [OF cs t] by blast
  note n = demo_entry_simple [OF m digest_plain, of False t, folded new_entry_fields]
  obtain u where u: "canonical (demo_ledger 1 1 [new_entry ?m t]) = Inr u" "length u \<le> 700000"
    using simple_canonical [OF n(1)] n(2) by auto
  from commit_fine [OF w u, of "fresh_stream demo_base"] obtain w' where
    w': "ledger_commit (demo_ledger 1 1 [new_entry ?m t]) (fresh_stream demo_base) w = (Done (), fresh_stream demo_base, w')"
      "idle (demo_ledger 1 1 [new_entry ?m t]) w'" by blast
  have b: "at_string demo_base ''serviceProfile'' = Inr ''v1''" "at_string demo_base ''messageType'' = Inr ''TIRE_FUNCTION_OBSERVATION''"
    "at_array (demo_ledger 1 0 []) ''pending'' = Inr []" "at_integer (demo_ledger 1 0 []) ''sequence'' = Inr 0"
    "json_at ?m ''sequence'' = Inr (JInt 1)"
    by (simp_all add: demo_base_def demo_ledger_def demo_observation_def at_string_def at_array_def at_integer_def dict_at_def)
  have msg: "observation_message demo_base (demo_ledger 1 0 []) (initial_facts True) 5000 cs = Inr ?m"
    by (simp add: observation_message_def demo_base_def demo_ledger_def demo_time at_integer_def dict_at_def demo_observation_def less_list_code less_char_def)
  have nx: "ebind (put_field ''sequence'' (JInt 1) (demo_ledger 1 0 [])) (with_entries ([] @ [new_entry ?m t])) = Inr (demo_ledger 1 1 [new_entry ?m t])"
    by (simp add: put_field_def with_entries_def demo_ledger_def less_list_code less_char_def)
  have soon: "\<not> too_soon (fresh_stream demo_base) cs 0" by (simp add: too_soon_def fresh_stream_def)
  have mem: "memory w = demo_ledger 1 0 []" using w by (simp add: idle_def)
  have fs: "os_base (fresh_stream demo_base) = demo_base" "\<not> os_poisoned (fresh_stream demo_base)" by (simp_all add: fresh_stream_def)
  have "observe (initial_facts True) 5000 0 (fresh_stream demo_base) w =
      (Done True, (fresh_stream demo_base)\<lparr>os_last_emit := 0, os_last_content := cs\<rparr>, w')"
    using w'(1) nx
    by (simp add: observe_def check_poisoned_def m_bind_def m_get_def m_return_def m_io_def m_set_def fs b demo_facts cs soon mem get_memory_def make_room_def
        emap_def ofail_if_def ethrow_if_def maximum_integer_def msg k t(1) del: canonical.simps)
  moreover have "\<not> os_poisoned ((fresh_stream demo_base)\<lparr>os_last_emit := 0, os_last_content := cs\<rparr>)" by (simp add: fresh_stream_def)
  ultimately show ?thesis using t(1) m w'(2) by blast
qed

lemma demo_next:
  assumes w: "idle (demo_ledger 1 1 [new_entry m t]) w" and s: "\<not> os_poisoned s" and m: "canonical m = Inr t" "simple m" "text_bound m \<le> 2000"
  shows "\<exists>w'. next_observation s w = (Done (Some t), s, w')"
proof -
  let ?e = "JObject [(''attempted'', JBool True), (''digest'', JString (sha256_hex t)), (''message'', m)]"
  note n = demo_entry_simple [OF m(2,3) digest_plain, of True t]
  obtain u where u: "canonical (demo_ledger 1 1 [?e]) = Inr u" "length u \<le> 700000" using simple_canonical [OF n(1)] n(2) by auto
  from commit_fine [OF w u, of s] obtain w' where w': "ledger_commit (demo_ledger 1 1 [?e]) s w = (Done (), s, w')" by blast
  have mem: "memory w = demo_ledger 1 1 [new_entry m t]" using w by (simp add: idle_def)
  have f: "at_array (demo_ledger 1 1 [new_entry m t]) ''pending'' = Inr [new_entry m t]" "at_boolean (new_entry m t) ''attempted'' = Inr False"
    "put_field ''attempted'' (JBool True) (new_entry m t) = Inr ?e" "with_entries [?e] (demo_ledger 1 1 [new_entry m t]) = Inr (demo_ledger 1 1 [?e])"
    "json_at (new_entry m t) ''message'' = Inr m"
    by (simp_all add: demo_ledger_def new_entry_fields at_array_def at_boolean_def dict_at_def put_field_def with_entries_def less_list_code less_char_def)
  show ?thesis
    using w' s by (simp add: next_observation_def check_poisoned_def m_bind_def m_get_def m_return_def m_io_def get_memory_def mem f m(1) emap_def
        del: canonical.simps)
qed

section \<open>Properties\<close>

text \<open>C6: Over the whole life of the directory of the ledger, whatever calls fail and wherever the service is stopped and
  started again, the observations handed out for delivery are texts that parse back to numbered messages; they come in
  the order of generation and sequence number, and a number names one message: the same number is only handed out again
  with the same text.
\<close>

theorem observation_numbers:
  assumes "ledger_run x w ts"
  shows "\<exists>ms. map (\<lambda>t. parse_json t 8192) ts = map Inr ms \<and> sorted (map message_number ms) \<and> inj_on message_number (set ms) \<and>
     map (\<lambda>m. at_integer m ''generation'') ms = map (Inr \<circ> fst \<circ> message_number) ms \<and>
     map (\<lambda>m. at_integer m ''sequence'') ms = map (Inr \<circ> snd \<circ> message_number) ms"
proof -
  obtain ms where ms: "delivered ts ms" using ledger_run_good [OF assms] by blast
  have one: "parse_json t 8192 = Inr m \<and> at_integer m ''generation'' = Inr (fst (message_number m)) \<and> at_integer m ''sequence'' = Inr (snd (message_number m))"
    if t: "canonical m = Inr t" and m: "proper m" for t m
  proof -
    obtain p where p: "numbered m p" "shape 21 m" "length t \<le> 8192" using t m unfolding proper_def by force
    have "parse_json t 8192 = Inr m" using t p by (intro parse_canonical) (auto simp: shape_def)
    then show ?thesis using p(1) number_numbered [OF p(1)] by (simp add: numbered_def)
  qed
  have "map (\<lambda>t. parse_json t 8192) ts = map Inr ms"
    using ms one unfolding delivered_def list_all2_conv_all_nth by (auto intro!: nth_equalityI)
  moreover have "\<forall>m\<in>set ms. proper m" using ms unfolding delivered_def list_all2_conv_all_nth by (auto simp: in_set_conv_nth)
  then have "\<forall>m\<in>set ms. \<exists>t. canonical m = Inr t \<and> proper m" by (auto simp: proper_def)
  ultimately show ?thesis using ms one unfolding delivered_def by (intro exI [of _ ms]) auto
qed

theorem observation_numbers_witness:
  "\<exists>x w t ms. ledger_run x w [t] \<and> map (\<lambda>t. parse_json t 8192) [t] = map Inr ms \<and> sorted (map message_number ms) \<and>
     map (\<lambda>m. at_integer m ''generation'') ms = map (Inr \<circ> fst \<circ> message_number) ms"
proof -
  have e: "ledger_run None empty_place []" by (rule ledger_run.Empty) (simp_all add: world_ok_def empty_place_def disk_def get_file_def)
  obtain s w where o: "open_stream demo_base empty_place = (Done s, w)" "idle (demo_ledger 1 0 []) w" "s = fresh_stream demo_base"
    using demo_open by blast
  have "shape 21 demo_base" "shape 20 (initial_facts True)" by code_simp+
  note sh = this
  have r1: "ledger_run (Some (fresh_stream demo_base)) w []" using ledger_run.Open [OF e sh(1) o(1)] o(3) by simp
  obtain s2 w2 m t where ob: "observe (initial_facts True) 5000 0 (fresh_stream demo_base) w = (Done True, s2, w2)" "\<not> os_poisoned s2"
    "canonical m = Inr t" "simple m" "text_bound m \<le> 2000" "idle (demo_ledger 1 1 [new_entry m t]) w2"
    using demo_observe [OF o(2)] by blast
  have r2: "ledger_run (Some s2) w2 []" using ledger_run.Observe [OF r1 sh(2) ob(1)] by simp
  obtain w3 where nx: "next_observation s2 w2 = (Done (Some t), s2, w3)" using demo_next [OF ob(6,2,3,4,5)] by blast
  have "ledger_run (Some s2) w3 [t]" using ledger_run.Next [OF r2 nx] by simp
  from this observation_numbers [OF this] show ?thesis by blast
qed

end
