(* ===== verification/Session.thy ===== *)
theory Session
  imports Identity Runs
begin

text \<open>
  The session bookkeeping of \<^verbatim>\<open>session_reconnect.hpp\<close> and \<^verbatim>\<open>readiness_publication.hpp\<close>: the cause of
  an interruption, which several threads raise through a compare-and-swap loop, what a failed subscription
  is reported as, and the pacing of readiness publications.
\<close>

section \<open>Order of the causes\<close>

text \<open>The underlying values of \<^verbatim>\<open>enum class SessionInputChange\<close>, which \<^verbatim>\<open>change > previous\<close> compares.\<close>

fun change_value :: "SessionInputChange \<Rightarrow> nat" where
  "change_value InputsNone = 0"
| "change_value TokenReplaced = 1"
| "change_value InputsUnavailable = 2"

instantiation SessionInputChange :: linorder
begin

definition less_eq_SessionInputChange :: "SessionInputChange \<Rightarrow> SessionInputChange \<Rightarrow> bool" where
  "less_eq_SessionInputChange a b = (change_value a \<le> change_value b)"

definition less_SessionInputChange :: "SessionInputChange \<Rightarrow> SessionInputChange \<Rightarrow> bool" where
  "less_SessionInputChange a b = (change_value a < change_value b)"

instance
proof
  fix a b :: SessionInputChange
  show "a \<le> b \<Longrightarrow> b \<le> a \<Longrightarrow> a = b"
    by (cases a; cases b) (simp_all add: less_eq_SessionInputChange_def)
qed (auto simp: less_eq_SessionInputChange_def less_SessionInputChange_def)

end

lemma change_least [simp]: "InputsNone \<le> c" "c \<le> InputsNone \<longleftrightarrow> c = InputsNone"
  by (cases c; simp add: less_eq_SessionInputChange_def)+

lemma change_greatest [simp]: "c \<le> InputsUnavailable" "InputsUnavailable \<le> c \<longleftrightarrow> c = InputsUnavailable"
  by (cases c; simp add: less_eq_SessionInputChange_def)+

section \<open>Raising the cause\<close>

text \<open>
  A call of \<open>observe\<close> in progress: entered, having loaded \<open>previous\<close>, or returned. The state is the atomic
  \<^verbatim>\<open>cause_\<close> and the calls of all threads; a step is one atomic action of one of them. A failed
  \<^verbatim>\<open>compare_exchange_weak\<close>, which may also fail without a reason, loads the current value.
\<close>

datatype observer =
    Entered SessionInputChange
  | Loaded SessionInputChange SessionInputChange
  | Returned SessionInputChange

type_synonym interruption = "SessionInputChange \<times> observer list"

inductive observe_step :: "interruption \<Rightarrow> interruption \<Rightarrow> bool" where
  load: "i < length os \<Longrightarrow> os ! i = Entered change \<Longrightarrow> observe_step (cause, os) (cause, os[i := Loaded change cause])"
| leave: "i < length os \<Longrightarrow> os ! i = Loaded change prev \<Longrightarrow> \<not> change > prev \<Longrightarrow>
    observe_step (cause, os) (cause, os[i := Returned change])"
| exchange: "i < length os \<Longrightarrow> os ! i = Loaded change prev \<Longrightarrow> change > prev \<Longrightarrow> cause = prev \<Longrightarrow>
    observe_step (cause, os) (change, os[i := Returned change])"
| retry: "i < length os \<Longrightarrow> os ! i = Loaded change prev \<Longrightarrow> change > prev \<Longrightarrow>
    observe_step (cause, os) (cause, os[i := Loaded change cause])"

inductive_cases observe_stepE: "observe_step (cause, os) (cause', os')"

definition cancelled :: "interruption \<Rightarrow> bool" where
  "cancelled s = (fst s \<noteq> InputsNone)"

definition token_replaced :: "interruption \<Rightarrow> bool" where
  "token_replaced s = (fst s = TokenReplaced)"

fun observed_change :: "observer \<Rightarrow> SessionInputChange" where
  "observed_change (Entered c) = c"
| "observed_change (Loaded c p) = c"
| "observed_change (Returned c) = c"

fun observer_ok :: "SessionInputChange \<Rightarrow> observer \<Rightarrow> bool" where
  "observer_ok cause (Entered c) = True"
| "observer_ok cause (Loaded c p) = (p \<le> cause)"
| "observer_ok cause (Returned c) = (c \<le> cause)"

text \<open>The invariant, for calls with the changes \<open>cs\<close> that started when the cause was \<open>start\<close>.\<close>

definition interruption_ok :: "SessionInputChange \<Rightarrow> SessionInputChange list \<Rightarrow> interruption \<Rightarrow> bool" where
  "interruption_ok start cs s \<longleftrightarrow>
     map observed_change (snd s) = cs \<and> start \<le> fst s \<and> fst s \<in> insert start (set cs) \<and>
     (\<forall>ob\<in>set (snd s). observer_ok (fst s) ob)"

lemma observer_ok_mono: "observer_ok a ob \<Longrightarrow> a \<le> b \<Longrightarrow> observer_ok b ob"
  by (cases ob) auto

lemma observe_step_raises: "observe_step s s' \<Longrightarrow> fst s \<le> fst s'"
  by (induction rule: observe_step.induct) auto

lemma observe_step_ok:
  assumes "observe_step s s'" "interruption_ok start cs s"
  shows "interruption_ok start cs s'"
proof -
  have upd: "map observed_change (os[i := ob]) = map observed_change os" "observed_change ob \<in> set (map observed_change os)"
    if "i < length os" "observed_change ob = observed_change (os ! i)" for os i ob
    using that by (simp_all add: map_update list_update_same_conv)
  have all: "\<forall>o'\<in>set (os[i := ob]). observer_ok b o'"
    if "\<forall>o'\<in>set os. observer_ok a o'" "a \<le> b" "observer_ok b ob" for os i ob a b
    using that observer_ok_mono by (metis (no_types, lifting) insertE set_update_subset_insert subsetD)
  show ?thesis
    using assms
  proof (induction rule: observe_step.induct)
    case (load i os change cause)
    then show ?case using upd(1) [of i os "Loaded change cause"] all [of os cause cause "Loaded change cause" i]
      by (simp add: interruption_ok_def)
  next
    case (leave i os change prev cause)
    then have "prev \<le> cause" by (metis interruption_ok_def fst_conv nth_mem observer_ok.simps(2) snd_conv)
    with leave show ?case using upd(1) [of i os "Returned change"] all [of os cause cause "Returned change" i]
      by (simp add: interruption_ok_def)
  next
    case (exchange i os change prev cause)
    then show ?case
      using upd [of i os "Returned change"] all [of os cause change "Returned change" i]
      by (auto simp: interruption_ok_def)
  next
    case (retry i os change prev cause)
    then show ?case using upd(1) [of i os "Loaded change cause"] all [of os cause cause "Loaded change cause" i]
      by (simp add: interruption_ok_def)
  qed
qed

definition fresh_calls :: "SessionInputChange \<Rightarrow> SessionInputChange list \<Rightarrow> interruption" where
  "fresh_calls start cs = (start, map Entered cs)"

lemma fresh_calls_ok: "interruption_ok start cs (fresh_calls start cs)"
  by (auto simp: interruption_ok_def fresh_calls_def comp_def)

interpretation observers: step_invariant observe_step "interruption_ok start cs" for start cs
  by unfold_locales (rule observe_step_ok)

interpretation cause: step_progress observe_step "fst :: interruption \<Rightarrow> SessionInputChange"
  by unfold_locales (rule observe_step_raises)

lemma reachable_ok: "observe_step\<^sup>*\<^sup>* (fresh_calls start cs) s \<Longrightarrow> interruption_ok start cs s"
  using fresh_calls_ok by (rule observers.always [rotated])

definition all_returned :: "interruption \<Rightarrow> bool" where
  "all_returned s = list_all (\<lambda>ob. case ob of Returned c \<Rightarrow> True | _ \<Rightarrow> False) (snd s)"

text \<open>Work left: how far each call is from returning when it is scheduled alone.\<close>

fun work :: "SessionInputChange \<Rightarrow> observer \<Rightarrow> nat" where
  "work cause (Entered c) = 3"
| "work cause (Loaded c p) = (if p < cause then 2 else 1)"
| "work cause (Returned c) = 0"

lemma observer_progress:
  assumes "i < length os" "observer_ok cause (os ! i)" "\<not> (\<exists>c. os ! i = Returned c)"
  shows "\<exists>cause' ob. observe_step (cause, os) (cause', os[i := ob]) \<and> work cause' ob < work cause (os ! i)"
proof (cases "os ! i")
  case (Entered c)
  then show ?thesis using assms by (intro exI [where x = cause] exI [where x = "Loaded c cause"]) (auto intro: load)
next
  case (Loaded c p)
  show ?thesis
  proof (cases "c > p")
    case False
    with Loaded assms show ?thesis by (intro exI [where x = cause] exI [where x = "Returned c"]) (auto intro: leave)
  next
    case True
    show ?thesis
    proof (cases "p = cause")
      case True
      with Loaded assms \<open>c > p\<close> show ?thesis by (intro exI [where x = c] exI [where x = "Returned c"]) (auto intro: exchange)
    next
      case False
      with Loaded assms \<open>c > p\<close> show ?thesis
        by (intro exI [where x = cause] exI [where x = "Loaded c cause"]) (auto intro: retry)
    qed
  qed
qed (use assms in auto)


lemma call_returns:
  assumes "interruption_ok start cs s" "i < length (snd s)"
  shows "\<exists>c' ob. observe_step\<^sup>*\<^sup>* s (c', (snd s)[i := Returned ob]) \<and> interruption_ok start cs (c', (snd s)[i := Returned ob])"
  using assms
proof (induction "work (fst s) (snd s ! i)" arbitrary: s rule: less_induct)
  case less
  obtain cause os where s: "s = (cause, os)" by fastforce
  show ?case
  proof (cases "\<exists>c. os ! i = Returned c")
    case True
    then obtain c where "os ! i = Returned c" by blast
    then have "s = (cause, (snd s)[i := Returned c])" using s by (metis list_update_id snd_conv)
    then show ?thesis using less.prems(1) by (metis rtranclp.rtrancl_refl)
  next
    case False
    have "observer_ok cause (os ! i)" using less.prems by (simp add: s interruption_ok_def)
    then obtain c1 ob where st: "observe_step (cause, os) (c1, os[i := ob])" and w: "work c1 ob < work cause (os ! i)"
      using observer_progress [of i os cause] False less.prems(2) by (auto simp: s)
    have "\<exists>c' ob'. observe_step\<^sup>*\<^sup>* (c1, os[i := ob]) (c', (os[i := ob])[i := Returned ob']) \<and>
        interruption_ok start cs (c', (os[i := ob])[i := Returned ob'])"
      using less.hyps [of "(c1, os[i := ob])"] w observe_step_ok [OF st less.prems(1) [unfolded s]] less.prems(2)
      by (simp add: s)
    then show ?thesis using st by (auto simp: s intro: converse_rtranclp_into_rtranclp)
  qed
qed

lemma calls_return:
  assumes "interruption_ok start cs s" "k \<le> length (snd s)"
  shows "\<exists>s'. observe_step\<^sup>*\<^sup>* s s' \<and> interruption_ok start cs s' \<and> length (snd s') = length (snd s) \<and>
    (\<forall>i<k. \<exists>c. snd s' ! i = Returned c)"
  using assms
proof (induction k)
  case 0
  then show ?case by (intro exI [where x = s]) simp
next
  case (Suc k)
  then obtain s' where s': "observe_step\<^sup>*\<^sup>* s s'" "interruption_ok start cs s'" "length (snd s') = length (snd s)"
    "\<forall>i<k. \<exists>c. snd s' ! i = Returned c" by auto
  then obtain c' ob where "observe_step\<^sup>*\<^sup>* s' (c', (snd s')[k := Returned ob])"
    "interruption_ok start cs (c', (snd s')[k := Returned ob])"
    using call_returns [of start cs s' k] Suc.prems by auto
  with s' Suc.prems show ?case
    by (intro exI [where x = "(c', (snd s')[k := Returned ob])"]) (auto simp: less_Suc_eq nth_list_update)
qed

lemma returned_max:
  assumes "interruption_ok start cs s" "all_returned s"
  shows "fst s = Max (insert start (set cs))"
proof -
  have "c \<le> fst s" if "c \<in> set cs" for c
  proof -
    have "c \<in> observed_change ` set (snd s)" using that assms(1) by (auto simp: interruption_ok_def)
    then obtain ob where ob: "ob \<in> set (snd s)" "observed_change ob = c" by blast
    have "observer_ok (fst s) ob" "case ob of Returned c \<Rightarrow> True | _ \<Rightarrow> False"
      using assms ob(1) by (auto simp: interruption_ok_def all_returned_def list_all_iff)
    then show ?thesis using ob(2) by (cases ob) auto
  qed
  then show ?thesis using assms(1) by (intro Max_eqI [symmetric]) (auto simp: interruption_ok_def)
qed

section \<open>Reporting a failed subscription\<close>

record SubscriptionFailureObservation =
  failure_connection :: string
  failure_input :: string
  failure_reason :: string

definition subscription_failure_observation :: "string \<Rightarrow> SubscriptionFailureObservation" where
  "subscription_failure_observation err =
     (if err = ''KUKSA_AUTH_PENDING''
      then \<lparr>failure_connection = ''STARTING'', failure_input = ''WAITING'', failure_reason = ''AWAITING_INPUT''\<rparr>
      else if err = ''KUKSA_AUTH_UNAVAILABLE''
      then \<lparr>failure_connection = ''ACCESS_DENIED'', failure_input = ''ACCESS_DENIED'', failure_reason = ''ACCESS_DENIED''\<rparr>
      else if err = ''VDP_INCOMPATIBLE''
      then \<lparr>failure_connection = ''DISCONNECTED'', failure_input = ''INVALID'', failure_reason = ''INVALID_SAMPLE''\<rparr>
      else \<lparr>failure_connection = ''DISCONNECTED'', failure_input = ''DISCONNECTED'', failure_reason = ''TRANSPORT_LOST''\<rparr>)"

section \<open>Publishing readiness\<close>

record ReadinessPublication =
  accepted_value :: "bool option"
  next_attempt :: int
  next_heartbeat :: int

definition initial_publication :: ReadinessPublication where
  "initial_publication = \<lparr>accepted_value = None, next_attempt = 0, next_heartbeat = 0\<rparr>"

definition publication_due :: "ReadinessPublication \<Rightarrow> bool \<Rightarrow> int \<Rightarrow> bool" where
  "publication_due p ready now \<longleftrightarrow>
     now \<ge> next_attempt p \<and> (accepted_value p = None \<or> accepted_value p \<noteq> Some ready \<or> now \<ge> next_heartbeat p)"

definition publication_completed :: "ReadinessPublication \<Rightarrow> bool \<Rightarrow> int \<Rightarrow> bool \<Rightarrow> ReadinessPublication" where
  "publication_completed p ready now acc =
     (let q = p\<lparr>next_attempt := now + (if acc then 100 else 1000)\<rparr>
      in if acc then q\<lparr>accepted_value := Some ready, next_heartbeat := now + 5000\<rparr> else q)"

text \<open>
  The loop of a session: at each tick readiness is evaluated, and when a publication is due it is attempted
  at that time and completes at a later one. A tick is the readiness, the two times and the outcome.
\<close>

fun publications :: "ReadinessPublication \<Rightarrow> (bool \<times> int \<times> int \<times> bool) list \<Rightarrow> (bool \<times> int \<times> int \<times> bool) list" where
  "publications p [] = []"
| "publications p ((ready, now, finished, acc) # ts) =
     (if publication_due p ready now
      then (ready, now, finished, acc) # publications (publication_completed p ready finished acc) ts
      else publications p ts)"


lemma completed_waits:
  assumes "publication_due (publication_completed p r f a) r' n"
  shows "n \<ge> f + (if a then 100 else 1000) \<and> (a \<and> r' = r \<longrightarrow> n \<ge> f + 5000)"
  using assms by (auto simp: publication_due_def publication_completed_def Let_def split: if_splits)

definition paced :: "bool \<times> int \<times> int \<times> bool \<Rightarrow> bool \<times> int \<times> int \<times> bool \<Rightarrow> bool" where
  "paced x y =
     (case (x, y) of ((r, n, f, a), (r', n', f', a')) \<Rightarrow>
        n' \<ge> f + (if a then 100 else 1000) \<and> (a \<and> r' = r \<longrightarrow> n' \<ge> f + 5000))"

lemma publications_head:
  "publications (publication_completed p r f a) ts = y # ys \<Longrightarrow> paced (r, n, f, a) y"
proof (induction ts)
  case (Cons t ts)
  obtain r' n' f' a' where t: "t = (r', n', f', a')" by (cases t)
  show ?case
  proof (cases "publication_due (publication_completed p r f a) r' n'")
    case True
    with Cons.prems t completed_waits [OF True] show ?thesis by (auto simp: paced_def)
  next
    case False
    with Cons t show ?thesis by simp
  qed
qed simp

section \<open>Properties\<close>

text \<open>C31: However the calls of \<open>observe\<close> of all threads interleave, the cause never falls, and when they have
  returned it is the maximum of the old cause and of every observed change: no change is lost to a race, and
  once a session was unavailable no later token replacement turns it into a planned renewal.\<close>

theorem observe_linearizable:
  assumes "observe_step\<^sup>*\<^sup>* (fresh_calls start cs) s" "observe_step\<^sup>*\<^sup>* s s'"
  shows "fst s \<le> fst s' \<and>
    (all_returned s' \<longrightarrow> fst s' = Max (insert start (set cs))) \<and>
    (Returned InputsUnavailable \<in> set (snd s) \<longrightarrow> cancelled s' \<and> \<not> token_replaced s')"
proof -
  have ok: "interruption_ok start cs s" "interruption_ok start cs s'"
    using reachable_ok assms rtranclp_trans by metis+
  have "fst s' = InputsUnavailable" if "Returned InputsUnavailable \<in> set (snd s)"
  proof -
    have "fst s = InputsUnavailable" using that ok(1) by (fastforce simp: interruption_ok_def)
    then show ?thesis using cause.never_falls [OF assms(2)] by simp
  qed
  then show ?thesis
    using cause.never_falls [OF assms(2)] returned_max [OF ok(2)] by (auto simp: cancelled_def token_replaced_def)
qed

theorem observe_linearizable_witness:
  "\<exists>s. observe_step\<^sup>*\<^sup>* (fresh_calls InputsNone [TokenReplaced, InputsUnavailable]) s \<and> all_returned s \<and>
     fst s = Max (insert InputsNone (set [TokenReplaced, InputsUnavailable]))"
proof -
  let ?s0 = "fresh_calls InputsNone [TokenReplaced, InputsUnavailable]"
  have r: "observe_step\<^sup>*\<^sup>* ?s0 ?s0" by simp
  obtain s where s: "observe_step\<^sup>*\<^sup>* ?s0 s" "\<forall>i<length (snd s). \<exists>c. snd s ! i = Returned c"
    using calls_return [OF reachable_ok [OF r], of "length (snd ?s0)"] by auto
  then have "all_returned s" by (fastforce simp: all_returned_def list_all_length)
  then show ?thesis using observe_linearizable [OF r s(1)] s(1) by blast
qed

text \<open>C32: No interleaving of \<open>observe\<close> calls gets stuck: from every reachable state all calls can still return,
  each within three of its own atomic actions.\<close>

theorem observe_returns:
  assumes "observe_step\<^sup>*\<^sup>* (fresh_calls start cs) s"
  shows "\<exists>s'. observe_step\<^sup>*\<^sup>* s s' \<and> all_returned s' \<and> fst s' = Max (insert start (set cs))"
proof -
  obtain s' where s': "observe_step\<^sup>*\<^sup>* s s'" "interruption_ok start cs s'" "\<forall>i<length (snd s'). \<exists>c. snd s' ! i = Returned c"
    using calls_return [OF reachable_ok [OF assms], of "length (snd s)"] by auto
  then have "all_returned s'" by (fastforce simp: all_returned_def list_all_length)
  with s' returned_max show ?thesis by blast
qed

theorem observe_returns_witness:
  "\<exists>s'. observe_step\<^sup>*\<^sup>* (fresh_calls InputsNone [TokenReplaced, InputsUnavailable]) s' \<and> all_returned s' \<and>
     fst s' = Max (insert InputsNone (set [TokenReplaced, InputsUnavailable]))"
  by (rule observe_returns) simp

text \<open>C33: Readiness is published at a bounded rate: the next attempt comes at least 100 ms after an accepted and
  1000 ms after a failed one, and an unchanged readiness is repeated only after 5000 ms.\<close>

theorem publications_paced:
  "successively paced (publications p ticks)"
proof (induction p ticks rule: publications.induct)
  case (2 p ready now finished acc ts)
  show ?case
  proof (cases "publications (publication_completed p ready finished acc) ts")
    case Nil
    with 2 show ?thesis by simp
  next
    case (Cons y ys)
    with 2 publications_head [OF Cons] show ?thesis by auto
  qed
qed simp

end
