(* ===== verification/Kuksa.thy ===== *)
theory Kuksa
  imports Identity "HOL-Library.Stream"
begin

text \<open>
  What the service sees of the KUKSA server, and the two helpers of its sessions (\<^verbatim>\<open>runtime/grpc_main.cpp\<close>): the messages of
  the interface by their fields, the paths, the check of what the server describes, the signals of an update, the clocks, the log with
  its limit of lines per minute and the transport that is kept between sessions.
\<close>

section \<open>Messages of the KUKSA interface\<close>

datatype data_type = DataString | DataFloat | DataOther

datatype entry_type = EntrySensor | EntryActuator | EntryOther

record entry_metadata =
  md_data :: data_type
  md_entry :: entry_type
  md_unit :: "string option"

datatype point_value = PointString string | PointFloat double | PointOther

record timestamp =
  ts_seconds :: int
  ts_nanos :: int

record datapoint =
  dp_timestamp :: "timestamp option"
  dp_value :: point_value

record data_entry =
  de_path :: string
  de_metadata :: "entry_metadata option"
  de_value :: "datapoint option"

record get_response =
  gr_has_error :: bool
  gr_errors :: nat
  gr_entries :: "data_entry list"

section \<open>Paths\<close>

definition paths :: "string list" where
  "paths =
     [''Vehicle.Speed'', ''Vehicle.Acceleration.Lateral'', ''Vehicle.Chassis.Axle.Row1.SteeringAngle'',
      ''Vehicle.Chassis.Axle.Row1.Wheel.Left.Speed'', ''Vehicle.Chassis.Axle.Row1.Wheel.Right.Speed'',
      ''Vehicle.Chassis.Axle.Row2.Wheel.Left.Speed'', ''Vehicle.Chassis.Axle.Row2.Wheel.Right.Speed'',
      ''Vehicle.CarlaSimulation.ChaosWheel.Row1.Left.LongitudinalSlip'', ''Vehicle.CarlaSimulation.ChaosWheel.Row1.Right.LongitudinalSlip'',
      ''Vehicle.CarlaSimulation.ChaosWheel.Row2.Left.LongitudinalSlip'', ''Vehicle.CarlaSimulation.ChaosWheel.Row2.Right.LongitudinalSlip'',
      ''Vehicle.CarlaSimulation.ChaosWheel.Row1.Left.LateralSlipAngle'', ''Vehicle.CarlaSimulation.ChaosWheel.Row1.Right.LateralSlipAngle'',
      ''Vehicle.CarlaSimulation.ChaosWheel.Row2.Left.LateralSlipAngle'', ''Vehicle.CarlaSimulation.ChaosWheel.Row2.Right.LateralSlipAngle'']"

definition request_path :: string where
  "request_path = ''Vehicle.OEM.TireHealth.Advisory.Request''"

definition status_path :: string where
  "status_path = ''Vehicle.OEM.TireHealth.Advisory.GatewayStatus''"

definition readiness_path :: string where
  "readiness_path = ''Vehicle.OEM.TireHealth.Advisory.Readiness''"

fun position :: "'a \<Rightarrow> 'a list \<Rightarrow> nat option" where
  "position x [] = None"
| "position x (y # ys) = (if y = x then Some 0 else map_option Suc (position x ys))"

definition path_index :: "string \<Rightarrow> nat result" where
  "path_index path = (case position path paths of None \<Rightarrow> Inl (RuntimeError ''KUKSA_UNREQUESTED_PATH'') | Some i \<Rightarrow> Inr i)"

definition VDP_INCOMPATIBLE :: exn where
  "VDP_INCOMPATIBLE = RuntimeError ''VDP_INCOMPATIBLE''"

text \<open>The index of an advisory path, and whether its description is the expected one.\<close>

definition advisory_index :: "string \<Rightarrow> nat option" where
  "advisory_index path =
     (if path = request_path then Some 15 else if path = status_path then Some 16 else if path = readiness_path then Some 17 else None)"

definition advisory_described :: "nat \<Rightarrow> entry_metadata option \<Rightarrow> bool" where
  "advisory_described index d =
     (case d of None \<Rightarrow> False
      | Some m \<Rightarrow> md_data m = DataString \<and> md_entry m = (if index = 16 then EntrySensor else EntryActuator))"

definition unit_of :: "nat \<Rightarrow> string" where
  "unit_of index =
     (if index = 0 \<or> (index \<ge> 3 \<and> index < 7) then ''km/h'' else if index = 1 then ''m/s^2''
      else if index = 2 \<or> index \<ge> 11 then ''degrees'' else [])"

definition signal_described :: "nat \<Rightarrow> entry_metadata option \<Rightarrow> bool" where
  "signal_described index d =
     (case d of None \<Rightarrow> False
      | Some m \<Rightarrow> md_entry m = EntrySensor \<and> md_data m = DataFloat \<and>
          md_unit m = (if unit_of index = [] then None else Some (unit_of index)))"

fun verify_entries :: "nat list \<Rightarrow> data_entry list \<Rightarrow> unit result" where
  "verify_entries seen [] = Inr ()"
| "verify_entries seen (e # es) =
     (case advisory_index (de_path e) of
        Some index \<Rightarrow>
          if index \<in> set seen \<or> \<not> advisory_described index (de_metadata e) then Inl VDP_INCOMPATIBLE
          else verify_entries (index # seen) es
      | None \<Rightarrow>
          ebind (path_index (de_path e)) (\<lambda>index.
          if index \<in> set seen \<or> \<not> signal_described index (de_metadata e) then Inl VDP_INCOMPATIBLE
          else verify_entries (index # seen) es))"

definition verify_metadata :: "get_response \<Rightarrow> unit result" where
  "verify_metadata response =
     (if gr_has_error response \<or> gr_errors response \<noteq> 0 \<or> length (gr_entries response) \<noteq> 18 then Inl VDP_INCOMPATIBLE
      else verify_entries [] (gr_entries response))"

section \<open>Signals\<close>

definition no_signal :: Signal where
  "no_signal = \<lparr>sig_value = Fin 0, sig_epoch_ms = 0, sig_valid = False\<rparr>"

definition signal :: "data_entry \<Rightarrow> Signal" where
  "signal e =
     (case de_value e of None \<Rightarrow> no_signal
      | Some v \<Rightarrow>
          (case dp_timestamp v of None \<Rightarrow> no_signal
           | Some t \<Rightarrow>
               if ts_seconds t < 0 \<or> ts_seconds t > 253402300799 \<or> ts_nanos t < 0 \<or> ts_nanos t \<ge> 1000000000 then no_signal else
               (case dp_value v of
                  PointFloat x \<Rightarrow> \<lparr>sig_value = x, sig_epoch_ms = ts_seconds t * 1000 + ts_nanos t div 1000000, sig_valid = True\<rparr>
                | _ \<Rightarrow> no_signal)))"

section \<open>Clocks\<close>

text \<open>
  What \<^verbatim>\<open>clock_gettime\<close> returned, the seconds and nanoseconds or an error, and \<^verbatim>\<open>milliseconds\<close> of \<^verbatim>\<open>runtime/application.cpp\<close>, which
  \<^verbatim>\<open>wall_milliseconds\<close> and \<^verbatim>\<open>boot_milliseconds\<close> call. The readings of a thread, of either clock and in the order in which it takes them, are a
  stream that its methods consume.
\<close>

type_synonym reading = "(int \<times> int) option"

definition CLOCK_UNAVAILABLE :: exn where
  "CLOCK_UNAVAILABLE = RuntimeError ''CLOCK_UNAVAILABLE''"

definition milliseconds :: "reading \<Rightarrow> int result" where
  "milliseconds now =
     (case now of None \<Rightarrow> Inl CLOCK_UNAVAILABLE | Some (sec, nsec) \<Rightarrow> Inr (sec * 1000 + nsec div 1000000))"

section \<open>Log and transport\<close>

text \<open>Counters are 32 bits wide.\<close>

definition count_up :: "nat \<Rightarrow> nat" where
  "count_up n = (n + 1) mod 2 ^ 32"

record Log =
  log_previous :: "(string, string) dict"
  log_minute :: int
  log_emitted :: nat
  log_suppressed :: nat

definition initial_log :: Log where
  "initial_log = \<lparr>log_previous = [], log_minute = 0, log_emitted = 0, log_suppressed = 0\<rparr>"

text \<open>Division of signed integers rounds towards zero.\<close>

definition minute_of :: "int \<Rightarrow> int" where
  "minute_of boot = (if boot < 0 then - (- boot div 60000) else boot div 60000)"

text \<open>The operands that a line writes, in their order: an operand that throws ends the statement, what came before it has been written.\<close>

definition log_operands :: "string \<Rightarrow> string \<Rightarrow> string \<Rightarrow> string \<Rightarrow> nat \<Rightarrow> int result \<Rightarrow> string result list" where
  "log_operands event state reason source_event n wall =
     [Inr ''{\"schemaVersion\":1,\"eventType\":'', quote_json event,
      Inr '',\"severity\":\"INFO\",\"observedAt\":'', ebind (ebind wall utc_timestamp) quote_json,
      Inr '',\"currentState\":'', quote_json state, Inr '',\"reasonCode\":'', quote_json reason,
      Inr '',\"count\":'', Inr (show_nat n)] @
     (if source_event = [] then [] else [Inr '',\"sourceEventId\":'', quote_json source_event]) @
     [Inr [CHR ''}'', CHR 0x0A]]"

fun put_operands :: "string result list \<Rightarrow> string \<times> unit result" where
  "put_operands [] = ([], Inr ())"
| "put_operands (Inl e # ps) = ([], Inl e)"
| "put_operands (Inr t # ps) = (case put_operands ps of (rest, r) \<Rightarrow> (t @ rest, r))"

text \<open>
  \<^verbatim>\<open>Log::state\<close>: the count of the line that is written, if one is, or the exception; the text that was written; the log and the readings after the call.
  The boot clock is read before any member changes and the wall clock after the line has been counted as emitted.
\<close>

definition log_state ::
    "string \<Rightarrow> string \<Rightarrow> string \<Rightarrow> string \<Rightarrow> Log \<Rightarrow> reading stream \<Rightarrow> nat option result \<times> string \<times> Log \<times> reading stream" where
  "log_state event state reason source_event lg clocks =
     (let key = state @ '':'' @ reason;
          previous = (case dict_get (log_previous lg) event of None \<Rightarrow> [] | Some k \<Rightarrow> k)
      in if event \<noteq> ''EXERCISE_COMPLETED'' \<and> previous = key then (Inr None, [], lg, clocks) else
      case milliseconds (shd clocks) of
        Inl e \<Rightarrow> (Inl e, [], lg, stl clocks)
      | Inr boot \<Rightarrow>
          let minute = minute_of boot;
              lg1 = (if minute \<noteq> log_minute lg then lg\<lparr>log_minute := minute, log_emitted := 0\<rparr> else lg)
          in if log_emitted lg1 \<ge> 60 then (Inr None, [], lg1\<lparr>log_suppressed := count_up (log_suppressed lg1)\<rparr>, stl clocks) else
          let lg2 = lg1\<lparr>log_previous := dict_set event key (log_previous lg1), log_emitted := log_emitted lg1 + 1\<rparr>;
              n = count_up (log_suppressed lg2);
              wall = milliseconds (shd (stl clocks))
          in case put_operands (log_operands event state reason source_event n wall) of
               (t, Inl e) \<Rightarrow> (Inl e, t, lg2, stl (stl clocks))
             | (t, Inr _) \<Rightarrow> (Inr (Some n), t, lg2\<lparr>log_suppressed := 0\<rparr>, stl (stl clocks)))"

text \<open>The calls of a stretch of time, each with the readings that it meets, and what they return.\<close>

type_synonym timed_call = "string \<times> string \<times> string \<times> string \<times> reading stream"

fun log_run :: "Log \<Rightarrow> timed_call list \<Rightarrow> nat option result list \<times> Log" where
  "log_run lg [] = ([], lg)"
| "log_run lg ((event, state, reason, source_event, clocks) # cs) =
     (case log_state event state reason source_event lg clocks of (r, _, lg1, _) \<Rightarrow>
      case log_run lg1 cs of (rs, lg2) \<Rightarrow> (r # rs, lg2))"

text \<open>The channel of the transport, named by a number that is new for each channel made.\<close>

record SessionTransport =
  st_ca :: string
  st_channel :: "nat option"
  st_made :: nat

definition transport_channel :: "string \<Rightarrow> SessionTransport \<Rightarrow> nat \<times> SessionTransport" where
  "transport_channel ca t =
     (case st_channel t of
        Some c \<Rightarrow> if st_ca t = ca then (c, t) else (st_made t, \<lparr>st_ca = ca, st_channel = Some (st_made t), st_made = st_made t + 1\<rparr>)
      | None \<Rightarrow> (st_made t, \<lparr>st_ca = ca, st_channel = Some (st_made t), st_made = st_made t + 1\<rparr>))"

definition transport_clear :: "SessionTransport \<Rightarrow> SessionTransport" where
  "transport_clear t = t\<lparr>st_ca := [], st_channel := None\<rparr>"

section \<open>What the log accounts for\<close>

text \<open>The calls that are not dropped as a repetition of the last line for their event.\<close>

definition log_repeats :: "string \<Rightarrow> string \<Rightarrow> string \<Rightarrow> Log \<Rightarrow> bool" where
  "log_repeats event state reason lg \<longleftrightarrow>
     event \<noteq> ''EXERCISE_COMPLETED'' \<and>
     (case dict_get (log_previous lg) event of None \<Rightarrow> [] | Some k \<Rightarrow> k) = state @ '':'' @ reason"

fun log_changes :: "Log \<Rightarrow> timed_call list \<Rightarrow> nat" where
  "log_changes lg [] = 0"
| "log_changes lg ((event, state, reason, source_event, clocks) # cs) =
     (if log_repeats event state reason lg then 0 else 1) +
     log_changes (fst (snd (snd (log_state event state reason source_event lg clocks)))) cs"

text \<open>The counts of the lines that were written, and how many calls threw.\<close>

fun line_counts :: "nat option result list \<Rightarrow> nat list" where
  "line_counts [] = []"
| "line_counts (Inr (Some n) # rs) = n # line_counts rs"
| "line_counts (_ # rs) = line_counts rs"

fun failures :: "nat option result list \<Rightarrow> nat" where
  "failures [] = 0"
| "failures (Inl _ # rs) = failures rs + 1"
| "failures (Inr _ # rs) = failures rs"

lemma log_state_count:
  assumes "log_state event state reason source_event lg clocks = (r, t, lg', clocks')" "log_suppressed lg + 1 < 2 ^ 32"
  shows "sum_list (line_counts [r]) + log_suppressed lg' + failures [r] =
    log_suppressed lg + (if log_repeats event state reason lg then 0 else 1)"
  using assms by (auto simp: log_state_def log_repeats_def Let_def count_up_def split: if_splits sum.splits prod.splits)

lemma counts_Cons:
  "sum_list (line_counts (r # rs)) = sum_list (line_counts [r]) + sum_list (line_counts rs)"
  "length (line_counts (r # rs)) = length (line_counts [r]) + length (line_counts rs)"
  "failures (r # rs) = failures [r] + failures rs"
  by (cases r; cases "projr r"; simp)+

lemma log_run_counts:
  assumes "log_run lg cs = (rs, lg')" "log_suppressed lg + length cs < 2 ^ 32"
  shows "sum_list (line_counts rs) + log_suppressed lg' + failures rs = log_suppressed lg + log_changes lg cs"
  using assms
proof (induction lg cs arbitrary: rs rule: log_run.induct)
  case (2 lg event state reason source_event clocks cs)
  obtain r t lg1 clocks' where l: "log_state event state reason source_event lg clocks = (r, t, lg1, clocks')" by (metis prod_cases4)
  then obtain rest where r: "log_run lg1 cs = (rest, lg')" "rs = r # rest" using "2.prems"(1) by (auto split: prod.splits)
  have c: "sum_list (line_counts [r]) + log_suppressed lg1 + failures [r] = log_suppressed lg + (if log_repeats event state reason lg then 0 else 1)"
    using log_state_count [OF l] "2.prems"(2) by simp
  then have "log_suppressed lg1 + length cs < 2 ^ 32" using "2.prems"(2) by (auto split: if_splits)
  then have "sum_list (line_counts rest) + log_suppressed lg' + failures rest = log_suppressed lg1 + log_changes lg1 cs"
    using "2.IH" [OF l [symmetric]] r(1) by simp
  with c show ?case by (simp add: r(2) l counts_Cons [of r rest])
qed simp

text \<open>The lines that were begun in the minute \<open>m\<close>.\<close>

definition used :: "int \<Rightarrow> Log \<Rightarrow> nat" where
  "used m lg = (if log_minute lg = m then log_emitted lg else 0)"

definition in_minute :: "int \<Rightarrow> timed_call \<Rightarrow> bool" where
  "in_minute m c = (case c of (_, _, _, _, clocks) \<Rightarrow> (case milliseconds (shd clocks) of Inl _ \<Rightarrow> True | Inr boot \<Rightarrow> minute_of boot = m))"

lemma log_state_used:
  assumes "log_state event state reason source_event lg clocks = (r, t, lg', clocks')" "in_minute m (event, state, reason, source_event, clocks)"
  shows "used m lg' \<ge> used m lg + length (line_counts [r]) \<and> used m lg' \<le> max 60 (used m lg)"
  using assms by (auto simp: log_state_def used_def in_minute_def Let_def split: if_splits sum.splits prod.splits)

lemma log_run_used:
  assumes "log_run lg cs = (rs, lg')" "list_all (in_minute m) cs"
  shows "used m lg' \<ge> used m lg + length (line_counts rs) \<and> used m lg' \<le> max 60 (used m lg)"
  using assms
proof (induction lg cs arbitrary: rs rule: log_run.induct)
  case (2 lg event state reason source_event clocks cs)
  obtain r t lg1 clocks' where l: "log_state event state reason source_event lg clocks = (r, t, lg1, clocks')" by (metis prod_cases4)
  then obtain rest where r: "log_run lg1 cs = (rest, lg')" "rs = r # rest" using "2.prems"(1) by (auto split: prod.splits)
  have "used m lg' \<ge> used m lg1 + length (line_counts rest) \<and> used m lg' \<le> max 60 (used m lg1)"
    using "2.IH" [OF l [symmetric]] r(1) "2.prems"(2) by simp
  with log_state_used [OF l, of m] "2.prems"(2) show ?case by (auto simp: r(2) counts_Cons [of r rest])
qed simp

section \<open>When the log throws\<close>

text \<open>A reading with which every use of the clocks succeeds.\<close>

definition sane :: "reading \<Rightarrow> bool" where
  "sane r = (case milliseconds r of Inl _ \<Rightarrow> False | Inr ms \<Rightarrow> 0 \<le> ms)"

lemma digit_plain: "is_digit c \<Longrightarrow> plain_char c"
  by (auto simp: plain_char_def is_digit_def)

lemma padded_plain: "list_all plain_char (show_nat n)" "list_all plain_char (padded_nat k n)"
proof -
  show n: "list_all plain_char (show_nat n)" using show_nat_digits [of n] by (auto simp: list_all_iff digit_plain)
  have "plain_char (chr 48)" by (simp add: plain_char_def)
  with n show "list_all plain_char (padded_nat k n)" by (auto simp: padded_nat_def list_all_iff)
qed

lemma timestamp_plain:
  assumes "utc_timestamp ms = Inr t"
  shows "list_all plain_char t"
proof -
  have marks: "list_all plain_char ''-T:.Z''" by code_simp
  moreover have "list_all plain_char (show_int y)" for y using marks padded_plain(1) by (auto simp: show_int_def)
  ultimately show ?thesis
    using assms padded_plain(2) by (auto simp: utc_timestamp_def strftime_def Let_def split: if_splits prod.splits)
qed

lemma put_line:
  assumes "list_all plain_char event" "list_all plain_char state" "list_all plain_char reason" "list_all plain_char source_event"
  shows "snd (put_operands (log_operands event state reason source_event n wall)) = emap (\<lambda>_. ()) (ebind wall utc_timestamp)"
proof (cases "ebind wall utc_timestamp")
  case (Inr t)
  then have "list_all plain_char t" by (auto simp: ebind_eq_Inr intro: timestamp_plain)
  then show ?thesis using assms Inr by (auto simp: log_operands_def quote_json_plain)
qed (use assms in \<open>simp add: log_operands_def quote_json_plain\<close>)

text \<open>With texts that need no escapes the log throws for a clock only, and the reading that it took last is the one to blame.\<close>

definition blamed :: "reading stream \<Rightarrow> reading stream \<Rightarrow> bool" where
  "blamed clocks clocks' \<longleftrightarrow> (\<exists>n. clocks' = sdrop (Suc n) clocks \<and> \<not> sane (clocks !! n))"

lemma log_state_blames:
  assumes "log_state event state reason source_event lg clocks = (Inl e, t, lg', clocks')"
    "list_all plain_char event" "list_all plain_char state" "list_all plain_char reason" "list_all plain_char source_event"
  shows "blamed clocks clocks'"
proof -
  have boot: "blamed clocks (stl clocks)" if "milliseconds (shd clocks) = Inl e"
    using that unfolding blamed_def by (intro exI [of _ 0]) (simp add: sane_def)
  have "\<not> sane (shd (stl clocks))" if "emap (\<lambda>_. ()) (ebind (milliseconds (shd (stl clocks))) utc_timestamp) = Inl e"
    using that by (auto simp: sane_def utc_timestamp_def split: sum.splits if_splits)
  then have wall: "blamed clocks (stl (stl clocks))"
    if "put_operands (log_operands event state reason source_event n (milliseconds (shd (stl clocks)))) = (t', Inl e)" for n t'
    using put_line [OF assms(2-5), of n "milliseconds (shd (stl clocks))"] that unfolding blamed_def by (intro exI [of _ 1]) simp
  show ?thesis
    using assms(1) boot wall by (auto simp: log_state_def Let_def split: if_splits sum.splits prod.splits)
qed

lemma log_state_advances:
  assumes "log_state event state reason source_event lg clocks = (r, t, lg', clocks')"
  shows "\<exists>n. clocks' = sdrop n clocks"
proof -
  have "clocks' = sdrop 0 clocks \<or> clocks' = sdrop 1 clocks \<or> clocks' = sdrop 2 clocks"
    using assms by (auto simp: log_state_def Let_def numeral_2_eq_2 split: if_splits sum.splits prod.splits)
  then show ?thesis by blast
qed

section \<open>Descriptions\<close>

definition all_paths :: "string list" where
  "all_paths = paths @ [request_path, status_path, readiness_path]"

definition index_of :: "string \<Rightarrow> nat option" where
  "index_of path = (case advisory_index path of Some i \<Rightarrow> Some i | None \<Rightarrow> position path paths)"

definition described :: "data_entry \<Rightarrow> bool" where
  "described e =
     (case advisory_index (de_path e) of
        Some i \<Rightarrow> advisory_described i (de_metadata e)
      | None \<Rightarrow> (case position (de_path e) paths of Some i \<Rightarrow> signal_described i (de_metadata e) | None \<Rightarrow> False))"

lemma position_nth: "position x xs = Some i \<Longrightarrow> i < length xs \<and> xs ! i = x"
  by (induction xs arbitrary: i) (auto split: if_splits)

lemma position_in: "x \<in> set xs \<Longrightarrow> \<exists>i. position x xs = Some i"
  by (induction xs) auto

lemma index_of_nth: "index_of path = Some i \<Longrightarrow> i < 18 \<and> all_paths ! i = path"
proof (cases "advisory_index path")
  case None
  moreover assume "index_of path = Some i"
  ultimately have "i < length paths \<and> paths ! i = path" by (auto simp: index_of_def dest: position_nth)
  moreover have "length paths = 15" by (simp add: paths_def)
  ultimately show ?thesis by (simp add: all_paths_def nth_append)
next
  case (Some j)
  assume "index_of path = Some i"
  then show ?thesis using Some by (auto simp: index_of_def advisory_index_def all_paths_def nth_append paths_def split: if_splits)
qed

lemma verify_entries_iff:
  "verify_entries seen es = Inr () \<longleftrightarrow>
     list_all described es \<and> distinct (map (index_of \<circ> de_path) es) \<and> (\<forall>i\<in>set seen. Some i \<notin> (index_of \<circ> de_path) ` set es)"
proof (induction seen es rule: verify_entries.induct)
  case (2 seen e es)
  show ?case
  proof (cases "index_of (de_path e)")
    case None
    then show ?thesis by (auto simp: index_of_def described_def path_index_def split: option.splits)
  next
    case (Some i)
    show ?thesis
    proof (cases "advisory_index (de_path e)")
      case None
      then have "position (de_path e) paths = Some i" using Some by (simp add: index_of_def)
      then show ?thesis using 2(1) [OF None, of i] None Some by (auto simp: described_def path_index_def)
    next
      case (Some j)
      then have "j = i" using \<open>index_of _ = _\<close> by (simp add: index_of_def)
      then show ?thesis using 2(2) [OF Some] Some \<open>index_of _ = _\<close> by (auto simp: described_def)
    qed
  qed
qed simp

lemma all_paths_distinct: "distinct all_paths" "length all_paths = 18"
  by code_simp+

lemma described_index: "described e \<Longrightarrow> \<exists>i. index_of (de_path e) = Some i"
  by (auto simp: described_def index_of_def split: option.splits)

lemma distinct_indices:
  assumes "list_all described es"
  shows "distinct (map (index_of \<circ> de_path) es) \<longleftrightarrow> distinct (map de_path es)"
proof -
  have "inj_on index_of (set (map de_path es))"
  proof (rule inj_onI)
    fix x y
    assume x: "x \<in> set (map de_path es)" and eq: "index_of x = index_of y"
    obtain e where "e \<in> set es" "x = de_path e" using x by auto
    then obtain i where "index_of x = Some i" using assms described_index [of e] by (auto simp: list_all_iff)
    then show "x = y" using eq index_of_nth [of x i] index_of_nth [of y i] by simp
  qed
  then show ?thesis by (simp add: distinct_map inj_on_def image_comp) (fastforce simp: distinct_map inj_on_def)
qed

section \<open>Properties\<close>

text \<open>C39: The description of the vehicle signals is accepted exactly when the server reports no error and describes each of
  the fifteen signals and the three advisory paths once, nothing else, with the data type, entry type and unit that the
  service relies on.\<close>

theorem metadata_verified:
  "verify_metadata r = Inr () \<longleftrightarrow>
     \<not> gr_has_error r \<and> gr_errors r = 0 \<and> distinct (map de_path (gr_entries r)) \<and>
     set (map de_path (gr_entries r)) = set all_paths \<and> list_all described (gr_entries r)"
proof -
  let ?es = "gr_entries r"
  have "set (map de_path ?es) = set all_paths" if "list_all described ?es" "distinct (map de_path ?es)" "length ?es = 18"
  proof (rule card_subset_eq)
    show "set (map de_path ?es) \<subseteq> set all_paths"
      using that(1) described_index index_of_nth all_paths_distinct(2) by (fastforce simp: list_all_iff in_set_conv_nth)
    show "card (set (map de_path ?es)) = card (set all_paths)"
      using distinct_card [OF that(2)] distinct_card [OF all_paths_distinct(1)] that(3) all_paths_distinct(2) by simp
  qed simp
  moreover have "length ?es = 18" if "distinct (map de_path ?es)" "set (map de_path ?es) = set all_paths"
    using distinct_card [OF that(1)] distinct_card [OF all_paths_distinct(1)] that(2) all_paths_distinct(2) by simp
  ultimately show ?thesis using distinct_indices [of ?es] by (auto simp: verify_metadata_def verify_entries_iff)
qed

text \<open>C40: The log accounts for every call and stays within its limit: over any calls, with clocks that may fail, the counts of the lines
  that are written, the count kept for the next line and the calls that ended with an exception add up to the calls that were not repetitions, and
  calls within one minute write at most sixty lines.\<close>

theorem log_accounts:
  assumes "log_run lg cs = (rs, lg')" "log_suppressed lg + length cs < 2 ^ 32"
  shows "sum_list (line_counts rs) + log_suppressed lg' + failures rs = log_suppressed lg + log_changes lg cs \<and>
    (list_all (in_minute m) cs \<longrightarrow> length (line_counts rs) \<le> 60)"
proof -
  have "length (line_counts rs) \<le> 60" if "list_all (in_minute m) cs"
    using log_run_used [OF assms(1) that] by linarith
  then show ?thesis using log_run_counts [OF assms] by blast
qed

text \<open>The second call repeats the first, and the third meets a wall clock that is not available.\<close>

definition demo_calls :: "timed_call list" where
  "demo_calls =
     [(''E'', ''READY'', ''NONE'', [], sconst (Some (7, 0))), (''E'', ''READY'', ''NONE'', [], sconst (Some (8, 0))),
      (''E'', ''LOST'', ''NONE'', [], Some (9, 0) ## sconst None), (''E'', ''READY'', ''NONE'', [], sconst (Some (10, 0)))]"

lemma demo_calls_run:
  "\<exists>lg'. log_run initial_log demo_calls = ([Inr (Some 1), Inr None, Inl CLOCK_UNAVAILABLE, Inr (Some 1)], lg') \<and>
     log_changes initial_log demo_calls = 3"
proof -
  have p: "list_all plain_char ''E''" "list_all plain_char ''READY''" "list_all plain_char ''LOST''" "list_all plain_char ''NONE''"
    by code_simp+
  have u: "\<exists>t. utc_timestamp (k * 1000) = Inr t" if "0 \<le> k" for k using that by (simp add: utc_timestamp_def)
  have line: "\<exists>t. put_operands (log_operands ''E'' state ''NONE'' [] n wall) = (t, emap (\<lambda>_. ()) (ebind wall utc_timestamp))"
    if "list_all plain_char state" for state n wall
    using put_line [OF p(1) that p(4), of "[]" n wall] by (metis list.pred_inject(1) prod.collapse)
  have ok: "\<exists>t. put_operands (log_operands ''E'' ''READY'' ''NONE'' [] n (Inr (k * 1000))) = (t, Inr ())" if "0 \<le> k" for n k
    using line [OF p(2), of n "Inr (k * 1000)"] u [OF that] by auto
  have bad: "\<exists>t. put_operands (log_operands ''E'' ''LOST'' ''NONE'' [] n (Inl e)) = (t, Inl e)" for n e
    using line [OF p(3), of n "Inl e"] by simp
  let ?lg = "\<lambda>state n. \<lparr>log_previous = [(''E'', state @ '':NONE'')], log_minute = 0, log_emitted = n, log_suppressed = 0\<rparr>"
  have one: "\<exists>t. log_state ''E'' ''READY'' ''NONE'' [] initial_log (sconst (Some (7, 0))) = (Inr (Some 1), t, ?lg ''READY'' 1, sconst (Some (7, 0)))"
    using ok [of 7 1] by (auto simp: initial_log_def log_state_def milliseconds_def minute_of_def count_up_def Let_def)
  have two: "log_state ''E'' ''READY'' ''NONE'' [] (?lg ''READY'' 1) (sconst (Some (8, 0))) = (Inr None, [], ?lg ''READY'' 1, sconst (Some (8, 0)))"
    by (simp add: log_state_def Let_def)
  have three: "\<exists>t. log_state ''E'' ''LOST'' ''NONE'' [] (?lg ''READY'' 1) (Some (9, 0) ## sconst None) = (Inl CLOCK_UNAVAILABLE, t, ?lg ''LOST'' 2, sconst None)"
    using bad [of 1 CLOCK_UNAVAILABLE] by (auto simp: log_state_def milliseconds_def minute_of_def count_up_def Let_def)
  have four: "\<exists>t. log_state ''E'' ''READY'' ''NONE'' [] (?lg ''LOST'' 2) (sconst (Some (10, 0))) = (Inr (Some 1), t, ?lg ''READY'' 3, sconst (Some (10, 0)))"
    using ok [of 10 1] by (auto simp: log_state_def milliseconds_def minute_of_def count_up_def Let_def)
  show ?thesis
    using one two three four by (auto simp: demo_calls_def log_repeats_def initial_log_def)
qed

theorem log_accounts_witness:
  "\<exists>lg'. log_run initial_log demo_calls = ([Inr (Some 1), Inr None, Inl CLOCK_UNAVAILABLE, Inr (Some 1)], lg') \<and>
     sum_list [1, 1] + log_suppressed lg' + 1 = 3 \<and> list_all (in_minute 0) demo_calls"
proof -
  obtain lg' where r: "log_run initial_log demo_calls = ([Inr (Some 1), Inr None, Inl CLOCK_UNAVAILABLE, Inr (Some 1)], lg')"
    "log_changes initial_log demo_calls = 3"
    using demo_calls_run by blast
  have "log_suppressed initial_log + length demo_calls < 2 ^ 32" by (simp add: initial_log_def demo_calls_def)
  moreover have "list_all (in_minute 0) demo_calls" by (simp add: demo_calls_def in_minute_def milliseconds_def minute_of_def)
  moreover have "log_suppressed initial_log = 0" by (simp add: initial_log_def)
  ultimately show ?thesis using log_accounts [OF r(1), of 0] r by (intro exI [of _ lg']) simp
qed

end
