(* ===== verification/Service.thy ===== *)
theory Service
  imports Advisories Session Ledger Kuksa
begin

text \<open>
  The threads of the service process, \<^verbatim>\<open>runtime/grpc_main.cpp\<close>: what an update of the subscription, a failed session, a round of
  the delivery thread and a round of the advisory thread do with the \<open>Runtime\<close> object, the ledger of observations, the
  transport, the server, the clocks and the log. The outcomes of blocking calls are inputs, and so are the readings of the clocks, each of which
  may fail: the methods take them from a stream where the code reads a clock, and what \<^verbatim>\<open>Log::state\<close> throws is thrown here too. The threads share
  the objects through their public methods, which a mutex makes atomic.
\<close>

section \<open>The objects of the process\<close>

text \<open>
  The runtime; the stream of observations, whose ledger has a directory of its own (\<open>sv_ledger\<close>) beside those of the state and the outbox;
  the local variables of the delivery thread and of the advisory thread; the transport; the values set at the server, with their paths; the log and
  what it has written; and the readings of the clocks that are still to come. Where C++ leaves the order of the operands of a call or of a sum open,
  the model takes them from left to right.
\<close>

record Service =
  sv_runtime :: Runtime
  sv_stream :: "ObservationStream option"
  sv_ledger :: world
  sv_observation_attempt :: nat
  sv_next_observation :: int
  sv_next_observation_delivery :: int
  sv_next_control :: int
  sv_next_delivery :: int
  sv_attempt :: nat
  sv_readiness :: ReadinessPublication
  sv_transport :: SessionTransport
  sv_sets :: "(string \<times> string) list"
  sv_log :: Log
  sv_output :: string
  sv_clocks :: "reading stream"

type_synonym 'a sv = "(Service, 'a) method_of"

definition on_runtime :: "'a rt \<Rightarrow> 'a sv" where
  "on_runtime m s w = (case m (sv_runtime s) w of (r, rt, w') \<Rightarrow> (r, s\<lparr>sv_runtime := rt\<rparr>, w'))"

text \<open>A call on the stream, which its caller has found to be there.\<close>

definition on_stream :: "'a os \<Rightarrow> 'a sv" where
  "on_stream m s w =
     (case sv_stream s of None \<Rightarrow> (Threw OutOfRange, s, w)
      | Some st \<Rightarrow> (case m st (sv_ledger s) of (r, st', l) \<Rightarrow> (r, s\<lparr>sv_stream := Some st', sv_ledger := l\<rparr>, w)))"

text \<open>\<^verbatim>\<open>wall_milliseconds\<close> or \<^verbatim>\<open>boot_milliseconds\<close>.\<close>

definition m_clock :: "int sv" where
  "m_clock s w = m_lift (milliseconds (shd (sv_clocks s))) (s\<lparr>sv_clocks := stl (sv_clocks s)\<rparr>) w"

definition log_about :: "string \<Rightarrow> string \<Rightarrow> string \<Rightarrow> string \<Rightarrow> unit sv" where
  "log_about event state reason source_event s w =
     (case log_state event state reason source_event (sv_log s) (sv_clocks s) of (r, t, lg, clocks) \<Rightarrow>
        (case r of Inl e \<Rightarrow> Threw e | Inr _ \<Rightarrow> Done (), s\<lparr>sv_log := lg, sv_output := sv_output s @ t, sv_clocks := clocks\<rparr>, w))"

abbreviation log_event :: "string \<Rightarrow> string \<Rightarrow> string \<Rightarrow> unit sv" where
  "log_event event state reason \<equiv> log_about event state reason []"

text \<open>The call \<^verbatim>\<open>stub->Set\<close>, whatever becomes of it.\<close>

definition server_set :: "string \<Rightarrow> string \<Rightarrow> unit sv" where
  "server_set path value = m_set (\<lambda>s. s\<lparr>sv_sets := sv_sets s @ [(path, value)]\<rparr>)"

definition m_catch :: "('s, 'a) method_of \<Rightarrow> ('s, 'a) method_of \<Rightarrow> ('s, 'a) method_of" where
  "m_catch m h s w = (case m s w of (Threw e, s', w') \<Rightarrow> h s' w' | r \<Rightarrow> r)"

text \<open>
  \<^verbatim>\<open>pause\<close>: each round of its loop first looks whether the thread is to stop; the end of the list is such a look.
\<close>

fun pause_until :: "int \<Rightarrow> bool list \<Rightarrow> unit sv" where
  "pause_until limit [] = m_return ()"
| "pause_until limit (over # looks) =
     (if over then m_return () else m_bind m_clock (\<lambda>now. if now < limit then pause_until limit looks else m_return ()))"

definition pause :: "bool list \<Rightarrow> int \<Rightarrow> unit sv" where
  "pause looks ms = m_bind m_clock (\<lambda>now. pause_until (now + ms) looks)"

section \<open>An update\<close>

text \<open>\<^verbatim>\<open>inline constexpr const char* kModelConfigSha256\<close>\<close>

definition kModelConfigSha256 :: string where
  "kModelConfigSha256 = ''ba7f37351ac7297a3e61042dc2842e0f1d28e748757b38cde6fe7b8572712fd7''"

record Subscription =
  sub_values :: "Signal list"
  sub_epoch :: int

definition initial_subscription :: Subscription where
  "initial_subscription = \<lparr>sub_values = replicate 15 no_signal, sub_epoch = -1\<rparr>"

text \<open>An answer of the gateway, which the runtime may refuse.\<close>

definition gateway_answer :: "string \<Rightarrow> unit sv" where
  "gateway_answer t =
     m_catch (m_bind m_clock (\<lambda>wall. on_runtime (gateway_status t wall)))
       (m_bind (on_runtime (advisory_observation ''UNAVAILABLE'')) (\<lambda>_.
          log_event ''ADVISORY_STATUS_CHANGED'' ''UNAVAILABLE'' ''GATEWAY_STATUS_INVALID''))"

fun apply_items :: "nat list \<Rightarrow> Signal list \<Rightarrow> data_entry list \<Rightarrow> Signal list sv" where
  "apply_items seen values [] = m_return values"
| "apply_items seen values (e # es) =
     (if de_path e = status_path then
        m_bind (case de_value e of
                  Some v \<Rightarrow> (case dp_value v of PointString t \<Rightarrow> gateway_answer t | _ \<Rightarrow> m_return ())
                | None \<Rightarrow> m_return ()) (\<lambda>_. apply_items seen values es)
      else
        m_bind (m_lift (path_index (de_path e))) (\<lambda>index.
        if index \<in> set seen then m_throw (RuntimeError ''KUKSA_DUPLICATE_UPDATE'')
        else apply_items (index # seen) (values[index := signal e]) es))"

record update =
  up_items :: "data_entry list"
  up_uuid :: string

text \<open>The episode that ends with the frame; an undefined conversion in \<open>extract_features\<close> is excluded by \<open>extract_features_defined\<close>.\<close>

definition complete_episode :: "Episode \<Rightarrow> unit sv" where
  "complete_episode ep =
     m_bind (case extract_features ep of
               None \<Rightarrow> m_throw OutOfRange
             | Some None \<Rightarrow> m_return False
             | Some (Some features) \<Rightarrow> on_runtime (apply_episode features ep kModelConfigSha256)) (\<lambda>accepted.
       log_about (if accepted then ''EXERCISE_COMPLETED'' else ''EXERCISE_SKIPPED'') (if accepted then ''READY'' else ''NOT_READY'')
         (if accepted then ''NONE'' else ''ASSESSMENT_SKIPPED_INPUT_QUALITY'') (ep_id ep))"

definition report_readiness :: "unit sv" where
  "report_readiness =
     m_bind (m_get (\<lambda>s. rt_store (sv_runtime s))) (\<lambda>ready.
       log_event ''READINESS_CHANGED'' (if ready then ''READY'' else ''NOT_READY'') (if ready then ''NONE'' else ''STORAGE_UNAVAILABLE''))"

definition handle_update :: "update \<Rightarrow> Subscription \<Rightarrow> Subscription sv" where
  "handle_update u sub =
     m_bind (apply_items [] (sub_values sub) (up_items u)) (\<lambda>values.
     m_bind m_clock (\<lambda>now.
     m_bind m_clock (\<lambda>wall.
     case complete_frame values wall of
       None \<Rightarrow> m_return (sub\<lparr>sub_values := values\<rparr>)
     | Some frame \<Rightarrow>
         if frame_epoch_ms frame = sub_epoch sub then m_return (sub\<lparr>sub_values := values\<rparr>) else
         m_bind (on_runtime (runtime_ingest (up_uuid u) frame now)) (\<lambda>result.
         m_bind m_clock (\<lambda>status_wall.
         m_bind (on_runtime (function_status ''READY'' status_wall [])) (\<lambda>_.
         m_bind report_readiness (\<lambda>_.
         m_bind (case result of None \<Rightarrow> m_return () | Some ep \<Rightarrow> complete_episode ep) (\<lambda>_.
           m_return \<lparr>sub_values = values, sub_epoch = frame_epoch_ms frame\<rparr>))))))))"

section \<open>A failed session\<close>

definition failure_log_reason :: "string \<Rightarrow> string" where
  "failure_log_reason err =
     (if err = ''KUKSA_AUTH_PENDING'' then ''KUKSA_AUTH_PENDING''
      else if err = ''KUKSA_AUTH_UNAVAILABLE'' then ''KUKSA_AUTH_UNAVAILABLE''
      else if err = ''VDP_INCOMPATIBLE'' then ''VDP_INCOMPATIBLE''
      else if err = ''IMMUTABLE_IDENTITY_CHANGED'' \<or> err = ''INPUT_FILE_UNAVAILABLE'' then ''STATE_INVALID''
      else ''KUKSA_DATA_UNAVAILABLE'')"

definition clear_transport :: "unit sv" where
  "clear_transport = m_set (\<lambda>s. s\<lparr>sv_transport := transport_clear (sv_transport s)\<rparr>)"

definition session_failed :: "string \<Rightarrow> unit sv" where
  "session_failed err =
     m_bind clear_transport (\<lambda>_.
     m_bind (on_runtime disconnect) (\<lambda>_.
     let o' = subscription_failure_observation err in
     m_bind (on_runtime (input_observation (failure_connection o') (failure_input o') (failure_reason o'))) (\<lambda>_.
     m_bind (on_runtime (advisory_observation ''UNAVAILABLE'')) (\<lambda>_.
     m_bind (log_event ''READINESS_CHANGED'' ''NOT_READY'' (failure_log_reason err)) (\<lambda>_.
     m_bind m_clock (\<lambda>now.
       if err = ''VDP_INCOMPATIBLE'' then on_runtime (function_status ''INCOMPATIBLE_VDP'' now paths)
       else if err = ''KUKSA_AUTH_UNAVAILABLE'' then on_runtime (function_status ''SERVICE_ACCESS_DENIED'' now [])
       else on_runtime (function_status ''TELEMETRY_DISCONNECTED'' now [])))))))"

section \<open>The delivery thread\<close>

text \<open>
  What a round meets: the responses, the jitters and the looks of its pauses. A request to the backend that
  throws leaves the response empty; one to the demonstration control ends the attempt.
\<close>

record delivery_input =
  di_send_response :: HttpResponse
  di_send_jitter :: double
  di_ack_response :: "HttpResponse result"
  di_poll_response :: "HttpResponse result"
  di_delivery_response :: HttpResponse
  di_delivery_jitter :: double
  di_looks :: "bool list"
  di_recovery_looks :: "bool list"

definition delay_of :: "nat \<Rightarrow> double \<Rightarrow> HttpResponse \<Rightarrow> int result" where
  "delay_of attempt jitter response =
     ebind (retry_delay attempt jitter (http_retry_after response)) (\<lambda>d. case d of None \<Rightarrow> Inl OutOfRange | Some n \<Rightarrow> Inr (n * 1000))"

definition observe_facts :: "unit sv" where
  "observe_facts =
     m_bind m_clock (\<lambda>boot.
     m_bind (m_get sv_next_observation) (\<lambda>due. m_when (boot \<ge> due)
       (m_bind (on_runtime function_observation) (\<lambda>c.
        m_bind m_clock (\<lambda>wall.
        m_bind m_clock (\<lambda>mono_ms.
        m_bind (on_stream (observe c wall mono_ms)) (\<lambda>_.
        m_bind m_clock (\<lambda>observed.
          m_set (\<lambda>s. s\<lparr>sv_next_observation := observed + 5000\<rparr>)))))))))"

definition send_observation :: "delivery_input \<Rightarrow> unit sv" where
  "send_observation i =
     m_bind m_clock (\<lambda>boot.
     m_bind (m_get sv_next_observation_delivery) (\<lambda>due. m_when (boot \<ge> due)
       (m_bind (on_stream next_observation) (\<lambda>text. case text of None \<Rightarrow> m_return () | Some t \<Rightarrow>
        m_bind (on_stream (accept_observation t (http_status (di_send_response i)) (http_body (di_send_response i)))) (\<lambda>accepted.
        if accepted then
          m_bind (m_set (\<lambda>s. s\<lparr>sv_observation_attempt := 0\<rparr>)) (\<lambda>_.
          m_bind m_clock (\<lambda>sent. m_set (\<lambda>s. s\<lparr>sv_next_observation_delivery := sent + 100\<rparr>)))
        else
          m_bind m_clock (\<lambda>sent.
          m_bind (m_get sv_observation_attempt) (\<lambda>n.
          m_bind (m_set (\<lambda>s. s\<lparr>sv_observation_attempt := count_up n\<rparr>)) (\<lambda>_.
          m_bind (m_lift (delay_of n (di_send_jitter i) (di_send_response i))) (\<lambda>d.
            m_set (\<lambda>s. s\<lparr>sv_next_observation_delivery := sent + d\<rparr>))))))))))"

definition no_observations :: "unit sv" where
  "no_observations = log_event ''FUNCTION_OBSERVATION_CHANGED'' ''UNAVAILABLE'' ''OBSERVATION_STORAGE_UNAVAILABLE''"

definition observation_part :: "delivery_input \<Rightarrow> unit sv" where
  "observation_part i =
     m_bind (m_get sv_stream) (\<lambda>stream. m_when (stream \<noteq> None)
       (m_catch
          (m_bind observe_facts (\<lambda>_. send_observation i))
          (m_bind (m_set (\<lambda>s. s\<lparr>sv_stream := None\<rparr>)) (\<lambda>_. no_observations))))"

definition control_calls :: "delivery_input \<Rightarrow> unit sv" where
  "control_calls i =
     m_bind m_clock (\<lambda>ack_wall.
     m_bind (on_runtime (demo_control_ack ack_wall)) (\<lambda>ack.
     m_bind (case ack of None \<Rightarrow> m_return ()
             | Some _ \<Rightarrow>
                 m_bind (m_lift (di_ack_response i)) (\<lambda>response.
                   m_when (http_status response = 200) (on_runtime (demo_control_accepted (http_body response))))) (\<lambda>_.
     m_bind (on_runtime demo_control_poll) (\<lambda>poll.
     case poll of None \<Rightarrow> m_return ()
     | Some _ \<Rightarrow>
         m_bind (m_lift (di_poll_response i)) (\<lambda>response.
           m_when (http_status response = 200)
             (m_bind m_clock (\<lambda>wall. on_runtime (demo_control_command (http_body response) wall))))))))"

text \<open>The clock is read outside of the handler before and after the calls.\<close>

definition control_part :: "delivery_input \<Rightarrow> unit sv" where
  "control_part i =
     m_bind m_clock (\<lambda>boot.
     m_bind (m_get sv_next_control) (\<lambda>due. m_when (boot \<ge> due)
       (m_bind (m_catch (control_calls i) (log_event ''DEMO_CONTROL_CHANGED'' ''UNAVAILABLE'' ''RESET_CONTROL_UNAVAILABLE'')) (\<lambda>_.
        m_bind m_clock (\<lambda>controlled.
          m_set (\<lambda>s. s\<lparr>sv_next_control := controlled + 5000\<rparr>))))))"

definition deliver_message :: "delivery_input \<Rightarrow> unit sv" where
  "deliver_message i =
     m_bind (on_runtime next_message) (\<lambda>p. case p of
       None \<Rightarrow> m_bind (m_set (\<lambda>s. s\<lparr>sv_attempt := 0\<rparr>)) (\<lambda>_. pause (di_looks i) 100)
     | Some p \<Rightarrow>
         m_bind (on_runtime (accept p (di_delivery_response i))) (\<lambda>accepted.
         if accepted then
           m_bind (m_set (\<lambda>s. s\<lparr>sv_attempt := 0\<rparr>)) (\<lambda>_. log_event ''BACKEND_CONNECTION_CHANGED'' ''CONNECTED'' ''NONE'')
         else
           m_bind (log_event ''BACKEND_CONNECTION_CHANGED'' ''BACKLOG'' ''NONE'') (\<lambda>_.
           m_bind m_clock (\<lambda>delivered.
           m_bind (m_get sv_attempt) (\<lambda>n.
           m_bind (m_set (\<lambda>s. s\<lparr>sv_attempt := count_up n\<rparr>)) (\<lambda>_.
           m_bind (m_lift (delay_of n (di_delivery_jitter i) (di_delivery_response i))) (\<lambda>d.
             m_set (\<lambda>s. s\<lparr>sv_next_delivery := delivered + d\<rparr>))))))))"

definition delivery_failed :: "delivery_input \<Rightarrow> unit sv" where
  "delivery_failed i =
     m_bind (log_event ''READINESS_CHANGED'' ''NOT_READY'' ''STORAGE_UNAVAILABLE'') (\<lambda>_. pause (di_recovery_looks i) 1000)"

definition delivery_part :: "delivery_input \<Rightarrow> unit sv" where
  "delivery_part i =
     m_bind m_clock (\<lambda>boot.
     m_bind (m_get sv_next_delivery) (\<lambda>due.
       if boot < due then pause (di_looks i) 100 else m_catch (deliver_message i) (delivery_failed i)))"

text \<open>One round of the loop of \<^verbatim>\<open>deliver\<close>.\<close>

definition delivery_round :: "delivery_input \<Rightarrow> unit sv" where
  "delivery_round i = m_bind (observation_part i) (\<lambda>_. m_bind (control_part i) (\<lambda>_. delivery_part i))"

text \<open>Opening the ledger when the thread starts; a failure leaves the service without observations.\<close>

definition start_delivery :: "unit sv" where
  "start_delivery =
     m_catch
       (m_bind (on_runtime observation_binding) (\<lambda>b. case b of None \<Rightarrow> m_return ()
        | Some binding \<Rightarrow> (\<lambda>s w.
            (case open_stream binding (sv_ledger s) of
               (Done st, l) \<Rightarrow> (Done (), s\<lparr>sv_stream := Some st, sv_ledger := l\<rparr>, w)
             | (Threw e, l) \<Rightarrow> (Threw e, s\<lparr>sv_ledger := l\<rparr>, w)
             | (Crashed, l) \<Rightarrow> (Crashed, s\<lparr>sv_ledger := l\<rparr>, w)))))
       no_observations"

section \<open>The advisory thread\<close>

text \<open>A request of the runtime is set at the server as it is; transport success is no evidence that it was applied.\<close>

definition request_part :: "unit sv" where
  "request_part =
     m_bind m_clock (\<lambda>wall.
     m_bind (on_runtime (next_advisory wall)) (\<lambda>bytes.
     case bytes of None \<Rightarrow> m_return ()
     | Some t \<Rightarrow> m_bind (server_set request_path t) (\<lambda>_. log_event ''ADVISORY_REQUESTED'' ''REQUESTED'' ''NONE'')))"

text \<open>\<open>accepted\<close> is whether the server accepts the value.\<close>

definition publish_readiness :: "bool \<Rightarrow> unit sv" where
  "publish_readiness accepted =
     m_bind m_clock (\<lambda>wall.
     m_bind (on_runtime (advisory_readiness wall)) (\<lambda>value.
     m_bind (m_lift (ebind (parse_json value 65536) (\<lambda>j. at_boolean j ''ready''))) (\<lambda>ready.
     m_bind m_clock (\<lambda>now.
     m_bind (m_get sv_readiness) (\<lambda>p. m_when (publication_due p ready now)
       (m_bind (server_set readiness_path value) (\<lambda>_.
        m_bind m_clock (\<lambda>finished.
        m_bind (m_set (\<lambda>s. s\<lparr>sv_readiness := publication_completed p ready finished accepted\<rparr>)) (\<lambda>_.
          log_event ''ADVISORY_READINESS_PUBLICATION''
            (if accepted then (if ready then ''READY'' else ''NOT_READY'') else ''FAILED'')
            (if accepted then ''NONE'' else ''KUKSA_SET_NOT_ACCEPTED''))))))))))"

definition advisory_failed :: "unit sv" where
  "advisory_failed =
     m_bind (on_runtime (advisory_observation ''UNAVAILABLE'')) (\<lambda>_.
       log_event ''ADVISORY_STATUS_CHANGED'' ''UNAVAILABLE'' ''ADVISORY_UNAVAILABLE'')"

definition advisory_round :: "bool \<Rightarrow> unit sv" where
  "advisory_round accepted = m_catch (m_bind request_part (\<lambda>_. publish_readiness accepted)) advisory_failed"

section \<open>Actions of the threads\<close>

text \<open>
  What the threads do with the objects, in whatever order they come to it: the subscription thread with its metadata, updates,
  renewals and failures, the watcher with the age of the input, the delivery thread and the advisory thread with
  their rounds.
\<close>

text \<open>The advisory thread starts with the session.\<close>

definition metadata_accepted :: "unit sv" where
  "metadata_accepted =
     m_bind (on_runtime (input_observation ''CONNECTED'' ''WAITING'' ''AWAITING_INPUT'')) (\<lambda>_.
     m_bind (log_event ''VDP_COMPATIBILITY_CHANGED'' ''READY'' ''NONE'') (\<lambda>_.
       m_set (\<lambda>s. s\<lparr>sv_readiness := initial_publication\<rparr>)))"

definition token_renewed :: "unit sv" where
  "token_renewed =
     m_bind (on_runtime reauthenticate) (\<lambda>_. log_event ''KUKSA_CONNECTION_CHANGED'' ''REAUTHENTICATING'' ''TOKEN_REPLACED'')"

definition session_closed :: "unit sv" where
  "session_closed =
     m_bind (on_runtime disconnect) (\<lambda>_. log_event ''KUKSA_CONNECTION_CHANGED'' ''NOT_READY'' ''KUKSA_DATA_UNAVAILABLE'')"

definition watch_input :: "unit sv" where
  "watch_input =
     m_bind m_clock (\<lambda>boot.
     m_bind (on_runtime (expire_input boot)) (\<lambda>expired.
       m_when expired (log_event ''READINESS_CHANGED'' ''NOT_READY'' ''KUKSA_DATA_UNAVAILABLE'')))"

datatype action =
    Connect Metadata | Verified | Update update Subscription | Renew | Failed string | Disconnect | Expire
  | Deliver delivery_input | Advise bool

definition nothing :: "('s, 'a) method_of \<Rightarrow> ('s, unit) method_of" where
  "nothing m = m_bind m (\<lambda>_. m_return ())"

fun act :: "action \<Rightarrow> unit sv" where
  "act (Connect m) = on_runtime (update_vdp_metadata m)"
| "act Verified = metadata_accepted"
| "act (Update u sub) = nothing (handle_update u sub)"
| "act Renew = token_renewed"
| "act (Failed err) = session_failed err"
| "act Disconnect = session_closed"
| "act Expire = watch_input"
| "act (Deliver i) = delivery_round i"
| "act (Advise accepted) = advisory_round accepted"

text \<open>
  Sequences of actions, and the requests set at the server. An action may end with an exception, also with one that ends the process: what holds
  after every sequence holds up to that point.
\<close>

definition sv_requests :: "Service \<Rightarrow> string list" where
  "sv_requests s = map snd (filter (\<lambda>(path, _). path = request_path) (sv_sets s))"

definition service_step :: "Service \<times> world \<Rightarrow> string list \<Rightarrow> Service \<times> world \<Rightarrow> bool" where
  "service_step a out b \<longleftrightarrow>
     (\<exists>x res. act x (fst a) (snd a) = (res, fst b, snd b) \<and> res \<noteq> Crashed \<and> sv_requests (fst b) = sv_requests (fst a) @ out)"

abbreviation service_run :: "Service \<Rightarrow> world \<Rightarrow> string list \<Rightarrow> Service \<Rightarrow> world \<Rightarrow> bool" where
  "service_run s0 w0 outs s w \<equiv> trace service_step (s0, w0) outs (s, w)"

section \<open>Everything goes through the public methods\<close>

text \<open>
  The method reaches the runtime by its calls only and sets at the server exactly the requests that these calls handed out;
  \<open>silent\<close> methods set none.
\<close>

definition passes :: "bool \<Rightarrow> Service \<times> world \<Rightarrow> Service \<times> world \<Rightarrow> bool" where
  "passes silent a b \<longleftrightarrow>
     (\<exists>outs. (silent \<longrightarrow> outs = []) \<and> calls (sv_runtime (fst a)) (snd a) outs (sv_runtime (fst b)) (snd b) \<and>
        sv_requests (fst b) = sv_requests (fst a) @ outs)"

definition follows :: "bool \<Rightarrow> 'a sv \<Rightarrow> bool" where
  "follows silent m \<longleftrightarrow> (\<forall>s w r s' w'. m s w = (r, s', w') \<longrightarrow> r \<noteq> Crashed \<longrightarrow> passes silent (s, w) (s', w'))"

lemma followsD: "follows silent m \<Longrightarrow> m s w = (r, s', w') \<Longrightarrow> r \<noteq> Crashed \<Longrightarrow> passes silent (s, w) (s', w')"
  by (simp add: follows_def)

lemma passes_refl: "sv_runtime s' = sv_runtime s \<Longrightarrow> sv_requests s' = sv_requests s \<Longrightarrow> passes silent (s, w) (s', w)"
  unfolding passes_def using trace_none [of call_step "(sv_runtime s, w)"] by fastforce

lemma passes_trans:
  assumes "passes silent a b" "passes silent b c"
  shows "passes silent a c"
proof -
  obtain x y where "(silent \<longrightarrow> x = []) \<and> calls (sv_runtime (fst a)) (snd a) x (sv_runtime (fst b)) (snd b) \<and> sv_requests (fst b) = sv_requests (fst a) @ x"
    "(silent \<longrightarrow> y = []) \<and> calls (sv_runtime (fst b)) (snd b) y (sv_runtime (fst c)) (snd c) \<and> sv_requests (fst c) = sv_requests (fst b) @ y"
    using assms by (auto simp: passes_def)
  then show ?thesis unfolding passes_def by (intro exI [of _ "x @ y"]) (auto intro: trace_trans)
qed

named_theorems follows_intros \<open>methods that use the runtime by its calls only\<close>

lemma follows_same:
  "(\<And>s w r s' w'. m s w = (r, s', w') \<Longrightarrow> sv_runtime s' = sv_runtime s \<and> sv_requests s' = sv_requests s \<and> w' = w) \<Longrightarrow> follows silent m"
  unfolding follows_def using passes_refl by metis

lemma follows_plain [follows_intros]:
  "follows silent (m_return x)" "follows silent (m_throw e)" "follows silent (m_lift r)" "follows silent (m_get f)"
  by (auto intro!: follows_same simp: m_simps split: sum.splits)

lemma follows_set: "(\<And>s. sv_runtime (f s) = sv_runtime s \<and> sv_requests (f s) = sv_requests s) \<Longrightarrow> follows silent (m_set f)"
  by (auto intro!: follows_same simp: m_simps)

lemma follows_bind [follows_intros]:
  assumes "follows silent m" "\<And>x. follows silent (f x)"
  shows "follows silent (m_bind m f)"
  unfolding follows_def
proof (intro allI impI)
  fix s w r s' w'
  assume *: "m_bind m f s w = (r, s', w')" "r \<noteq> Crashed"
  obtain q s1 w1 where q: "m s w = (q, s1, w1)" by (metis prod_cases3)
  show "passes silent (s, w) (s', w')"
  proof (cases q)
    case (Done x)
    then have "f x s1 w1 = (r, s', w')" using * q by (simp add: m_bind_def)
    then show ?thesis using passes_trans [OF followsD [OF assms(1) q] followsD [OF assms(2)]] Done *(2) by blast
  qed (use * q followsD [OF assms(1) q] in \<open>auto simp: m_bind_def\<close>)
qed

lemma follows_catch [follows_intros]:
  assumes "follows silent m" "follows silent h"
  shows "follows silent (m_catch m h)"
  unfolding follows_def
proof (intro allI impI)
  fix s w r s' w'
  assume *: "m_catch m h s w = (r, s', w')" "r \<noteq> Crashed"
  obtain q s1 w1 where q: "m s w = (q, s1, w1)" by (metis prod_cases3)
  show "passes silent (s, w) (s', w')"
  proof (cases q)
    case (Threw e)
    then have "h s1 w1 = (r, s', w')" using * q by (simp add: m_catch_def)
    then show ?thesis using passes_trans [OF followsD [OF assms(1) q] followsD [OF assms(2)]] Threw *(2) by blast
  qed (use * q followsD [OF assms(1) q] in \<open>auto simp: m_catch_def\<close>)
qed

lemma follows_branch [follows_intros]:
  "follows silent c \<Longrightarrow> follows silent (m_when b c)"
  "(b \<Longrightarrow> follows silent m) \<Longrightarrow> (\<not> b \<Longrightarrow> follows silent n) \<Longrightarrow> follows silent (if b then m else n)"
  "follows silent k \<Longrightarrow> follows silent (nothing k)"
  by (auto simp: m_when_def nothing_def intro: follows_plain follows_bind)

lemma follows_log [follows_intros]:
  "follows silent (log_about event state reason source_event)" "follows silent m_clock" "follows silent clear_transport"
  by (rule follows_same, auto simp: log_about_def m_clock_def clear_transport_def m_simps sv_requests_def split: sum.splits prod.splits)+

lemma follows_pause [follows_intros]: "follows silent (pause looks ms)"
proof -
  have "follows silent (pause_until limit looks)" for limit
    by (induction looks) (auto intro!: follows_intros)
  then show ?thesis unfolding pause_def by (intro follows_intros)
qed

lemma follows_readiness [follows_intros]: "follows silent (server_set readiness_path value)"
  unfolding server_set_def by (rule follows_set) (simp add: sv_requests_def readiness_path_def request_path_def)

lemma follows_stream [follows_intros]: "follows silent (on_stream m)"
  by (rule follows_same) (auto simp: on_stream_def sv_requests_def split: option.splits prod.splits)

lemma follows_call:
  assumes "perform c = silently m"
  shows "follows silent (on_runtime m)"
  unfolding follows_def
proof (intro allI impI)
  fix s :: Service and w res s' w'
  assume *: "on_runtime m s w = (res, s', w')" "res \<noteq> Crashed"
  then obtain r' where m: "m (sv_runtime s) w = (res, r', w')" "s' = s\<lparr>sv_runtime := r'\<rparr>"
    by (auto simp: on_runtime_def split: prod.splits)
  then have "\<exists>q. perform c (sv_runtime s) w = (q, r', w') \<and> q \<noteq> Crashed \<and> handed q = []"
    using *(2) by (cases res) (auto simp: assms silently_def m_bind_def m_return_def handed_def)
  then obtain q where q: "perform c (sv_runtime s) w = (q, r', w')" "q \<noteq> Crashed" "handed q = []" by blast
  from calls_one [OF q(1,2)] q(3) show "passes silent (s, w) (s', w')" by (auto simp: passes_def m(2) sv_requests_def)
qed

lemmas follows_methods [follows_intros] =
  follows_call [OF perform.simps(1)] follows_call [OF perform.simps(2)] follows_call [OF perform.simps(3)]
  follows_call [OF perform.simps(4)] follows_call [OF perform.simps(5)] follows_call [OF perform.simps(6)]
  follows_call [OF perform.simps(7)] follows_call [OF perform.simps(8)] follows_call [OF perform.simps(9)]
  follows_call [OF perform.simps(10)] follows_call [OF perform.simps(12)] follows_call [OF perform.simps(13)]
  follows_call [OF perform.simps(14)] follows_call [OF perform.simps(15)] follows_call [OF perform.simps(16)]
  follows_call [OF perform.simps(17)] follows_call [OF perform.simps(18)] follows_call [OF perform.simps(19)]
  follows_call [OF perform.simps(20)] follows_call [OF perform.simps(21)]

lemma follows_items: "follows silent (apply_items seen vs es)"
proof (induction seen vs es rule: apply_items.induct)
  case (2 seen vs e es)
  have "follows silent (case de_value e of Some v \<Rightarrow> (case dp_value v of PointString t \<Rightarrow> gateway_answer t | _ \<Rightarrow> m_return ())
      | None \<Rightarrow> m_return ())"
    by (auto intro!: follows_intros simp: gateway_answer_def split: option.splits point_value.splits)
  then show ?case using 2 unfolding apply_items.simps by (intro follows_branch(2) follows_bind follows_plain) blast+
qed (unfold apply_items.simps, rule follows_plain)

lemma follows_update [follows_intros]: "follows silent (handle_update u sub)"
  unfolding handle_update_def complete_episode_def report_readiness_def
  by (auto intro!: follows_intros follows_items split: option.splits)

lemma follows_failed [follows_intros]: "follows silent (session_failed err)"
  unfolding session_failed_def Let_def by (intro follows_intros)

lemma follows_delivery [follows_intros]: "follows silent (delivery_round i)"
  unfolding delivery_round_def observation_part_def no_observations_def observe_facts_def send_observation_def control_part_def control_calls_def
    delivery_part_def deliver_message_def delivery_failed_def
  by (auto intro!: follows_intros follows_set simp: sv_requests_def split: option.splits)

lemma follows_session [follows_intros]:
  "follows silent metadata_accepted" "follows silent token_renewed" "follows silent session_closed" "follows silent watch_input"
  unfolding metadata_accepted_def token_renewed_def session_closed_def watch_input_def
  by (intro follows_intros follows_set; simp add: sv_requests_def)+

text \<open>A request is set as soon as it is handed out.\<close>

lemma follows_request: "follows False request_part"
proof -
  have "follows False (m_bind (on_runtime (next_advisory wall)) (\<lambda>bytes. case bytes of None \<Rightarrow> m_return ()
      | Some t \<Rightarrow> m_bind (server_set request_path t) (\<lambda>_. log_event ''ADVISORY_REQUESTED'' ''REQUESTED'' ''NONE'')))" (is "follows False ?m") for wall
    unfolding follows_def
  proof (intro allI impI)
    fix s :: Service and w res s' w'
    assume *: "?m s w = (res, s', w')" "res \<noteq> Crashed"
    obtain q rt w1 where q: "next_advisory wall (sv_runtime s) w = (q, rt, w1)" by (metis prod_cases3)
    have w': "w' = w1 \<and> sv_runtime s' = rt \<and> sv_requests s' = sv_requests s @ handed q \<and> q \<noteq> Crashed"
      using * q by (cases q)
        (auto simp: m_simps on_runtime_def server_set_def log_about_def sv_requests_def handed_def split: option.splits prod.splits)
    then have "calls (sv_runtime s) w (handed q) rt w1" using calls_one [of "CallAdvisory wall"] q by simp
    then show "passes False (s, w) (s', w')" using w' by (auto simp: passes_def)
  qed
  then show ?thesis unfolding request_part_def by (rule follows_bind [OF follows_log(2)])
qed

lemma follows_advisory: "follows False (advisory_round accepted)"
  unfolding advisory_round_def publish_readiness_def advisory_failed_def
  by (intro follows_intros follows_request follows_set) (simp add: sv_requests_def)

lemma follows_act: "follows False (act a)"
  by (cases a) (auto intro!: follows_intros follows_advisory)

interpretation process: simulation service_step call_step "\<lambda>(s, w). (sv_runtime s, w)"
proof unfold_locales
  fix a b :: "Service \<times> world" and out
  assume "service_step a out b"
  then obtain x res where x: "act x (fst a) (snd a) = (res, fst b, snd b)" "res \<noteq> Crashed" "sv_requests (fst b) = sv_requests (fst a) @ out"
    by (auto simp: service_step_def)
  from followsD [OF follows_act x(1,2)] x(3)
  show "trace call_step (case a of (s, w) \<Rightarrow> (sv_runtime s, w)) out (case b of (s, w) \<Rightarrow> (sv_runtime s, w))"
    by (auto simp: passes_def split: prod.splits)
qed

section \<open>What can leave a round\<close>

text \<open>
  A method takes readings from the front of the stream, and blames a clock for what it throws: the last reading that it took was not available or
  lies before 1970. A handler with this property makes it hold of the statement that it guards, whatever that statement throws.
\<close>

definition advances :: "'a sv \<Rightarrow> bool" where
  "advances m \<longleftrightarrow> (\<forall>s w r s' w'. m s w = (r, s', w') \<longrightarrow> (\<exists>n. sv_clocks s' = sdrop n (sv_clocks s)))"

definition blames :: "'a sv \<Rightarrow> bool" where
  "blames m \<longleftrightarrow> (\<forall>s w e s' w'. m s w = (Threw e, s', w') \<longrightarrow> blamed (sv_clocks s) (sv_clocks s'))"

named_theorems clock_intros \<open>methods that take readings in order and blame a clock for what they throw\<close>

lemma advances_same: "(\<And>s w r s' w'. m s w = (r, s', w') \<Longrightarrow> sv_clocks s' = sv_clocks s) \<Longrightarrow> advances m"
  unfolding advances_def by (metis sdrop.simps(1))

lemma advances_plain [clock_intros]:
  "advances (m_return x)" "advances (m_throw e)" "advances (m_lift r)" "advances (m_get f)" "advances (on_runtime m)" "advances (on_stream k)"
  by (rule advances_same, auto simp: m_simps on_runtime_def on_stream_def split: sum.splits prod.splits option.splits)+

lemma advances_set: "(\<And>s. sv_clocks (f s) = sv_clocks s) \<Longrightarrow> advances (m_set f)"
  by (rule advances_same) (auto simp: m_set_def)

lemma advances_bind [clock_intros]:
  assumes "advances m" "\<And>x. advances (f x)"
  shows "advances (m_bind m f)"
  unfolding advances_def
proof (intro allI impI)
  fix s w r s' w'
  assume *: "m_bind m f s w = (r, s', w')"
  obtain q s1 w1 where q: "m s w = (q, s1, w1)" by (metis prod_cases3)
  then obtain n where n: "sv_clocks s1 = sdrop n (sv_clocks s)" using assms(1) unfolding advances_def by blast
  show "\<exists>n. sv_clocks s' = sdrop n (sv_clocks s)"
  proof (cases q)
    case (Done x)
    then have "f x s1 w1 = (r, s', w')" using * q by (simp add: m_bind_def)
    then obtain k where "sv_clocks s' = sdrop k (sv_clocks s1)" using assms(2) unfolding advances_def by blast
    then show ?thesis using n by (auto simp: sdrop_add)
  qed (use * q n in \<open>auto simp: m_bind_def\<close>)
qed

lemma advances_branch [clock_intros]:
  "advances c \<Longrightarrow> advances (m_when b c)"
  "(b \<Longrightarrow> advances m) \<Longrightarrow> (\<not> b \<Longrightarrow> advances n) \<Longrightarrow> advances (if b then m else n)"
  "advances m \<Longrightarrow> (\<And>x. advances (k x)) \<Longrightarrow> advances (case p of None \<Rightarrow> m | Some x \<Rightarrow> k x)"
  by (auto simp: m_when_def intro: advances_plain split: option.splits)

lemma advances_clock [clock_intros]: "advances m_clock" "advances (log_about event state reason source_event)"
proof -
  have "sv_clocks s' = sdrop 1 (sv_clocks s)" if "m_clock s w = (r, s', w')" for s w r s' w'
    using that by (auto simp: m_clock_def m_simps split: sum.splits)
  then show "advances m_clock" unfolding advances_def by blast
  show "advances (log_about event state reason source_event)"
    unfolding advances_def log_about_def by (auto split: prod.splits dest!: log_state_advances)
qed

lemma blames_plain [clock_intros]: "blames (m_return x)" "blames (m_set f)" "blames (m_get g)"
  by (simp_all add: blames_def m_simps)

lemma blamed_later: "blamed (sdrop n clocks) clocks' \<Longrightarrow> blamed clocks clocks'"
  unfolding blamed_def by (metis add_Suc_right sdrop_add sdrop_snth)

lemma blames_bind [clock_intros]:
  assumes "advances m" "blames m" "\<And>x. blames (f x)"
  shows "blames (m_bind m f)"
  unfolding blames_def
proof (intro allI impI)
  fix s w e s' w'
  assume *: "m_bind m f s w = (Threw e, s', w')"
  obtain q s1 w1 where q: "m s w = (q, s1, w1)" by (metis prod_cases3)
  then obtain n where n: "sv_clocks s1 = sdrop n (sv_clocks s)" using assms(1) unfolding advances_def by blast
  show "blamed (sv_clocks s) (sv_clocks s')"
  proof (cases q)
    case (Done x)
    then have "f x s1 w1 = (Threw e, s', w')" using * q by (simp add: m_bind_def)
    then have "blamed (sv_clocks s1) (sv_clocks s')" using assms(3) unfolding blames_def by blast
    then show ?thesis using n blamed_later by simp
  next
    case (Threw x)
    then show ?thesis using * q assms(2) unfolding blames_def m_bind_def by fastforce
  qed (use * q in \<open>simp add: m_bind_def\<close>)
qed

lemma blames_catch [clock_intros]:
  assumes "advances m" "blames h"
  shows "blames (m_catch m h)"
  unfolding blames_def
proof (intro allI impI)
  fix s w e s' w'
  assume *: "m_catch m h s w = (Threw e, s', w')"
  obtain q s1 w1 where q: "m s w = (q, s1, w1)" by (metis prod_cases3)
  then obtain n where n: "sv_clocks s1 = sdrop n (sv_clocks s)" using assms(1) unfolding advances_def by blast
  show "blamed (sv_clocks s) (sv_clocks s')"
  proof (cases q)
    case (Threw x)
    then have "h s1 w1 = (Threw e, s', w')" using * q by (simp add: m_catch_def)
    then have "blamed (sv_clocks s1) (sv_clocks s')" using assms(2) unfolding blames_def by blast
    then show ?thesis using n blamed_later by simp
  qed (use * q in \<open>simp_all add: m_catch_def\<close>)
qed

lemma blames_branch [clock_intros]:
  "blames c \<Longrightarrow> blames (m_when b c)"
  "blames m \<Longrightarrow> blames n \<Longrightarrow> blames (if b then m else n)"
  by (auto simp: m_when_def intro: blames_plain)

lemma advances_catch [clock_intros]:
  assumes "advances m" "advances h"
  shows "advances (m_catch m h)"
  unfolding advances_def
proof (intro allI impI)
  fix s w r s' w'
  assume *: "m_catch m h s w = (r, s', w')"
  obtain q s1 w1 where q: "m s w = (q, s1, w1)" by (metis prod_cases3)
  then obtain n where n: "sv_clocks s1 = sdrop n (sv_clocks s)" using assms(1) unfolding advances_def by blast
  show "\<exists>n. sv_clocks s' = sdrop n (sv_clocks s)"
  proof (cases q)
    case (Threw x)
    then have "h s1 w1 = (r, s', w')" using * q by (simp add: m_catch_def)
    then obtain k where "sv_clocks s' = sdrop k (sv_clocks s1)" using assms(2) unfolding advances_def by blast
    then show ?thesis using n by (auto simp: sdrop_add)
  qed (use * q n in \<open>auto simp: m_catch_def\<close>)
qed

lemma blames_clock [clock_intros]: "blames m_clock"
  unfolding blames_def
proof (intro allI impI)
  fix s w e s' w'
  assume "m_clock s w = (Threw e, s', w')"
  then have "milliseconds (shd (sv_clocks s)) = Inl e" "sv_clocks s' = sdrop (Suc 0) (sv_clocks s)"
    by (auto simp: m_clock_def m_simps split: sum.splits)
  then show "blamed (sv_clocks s) (sv_clocks s')" unfolding blamed_def by (intro exI [of _ 0]) (simp add: sane_def)
qed

lemma blames_log:
  "list_all plain_char event \<Longrightarrow> list_all plain_char state \<Longrightarrow> list_all plain_char reason \<Longrightarrow> blames (log_event event state reason)"
  unfolding blames_def log_about_def by (auto split: prod.splits sum.splits dest!: log_state_blames)

lemma clocks_pause [clock_intros]: "advances (pause looks ms)" "blames (pause looks ms)"
proof -
  have "advances (pause_until limit looks) \<and> blames (pause_until limit looks)" for limit
    by (induction looks) (auto intro!: clock_intros)
  then show "advances (pause looks ms)" "blames (pause looks ms)" unfolding pause_def by (auto intro!: clock_intros)
qed

lemma delivery_texts:
  "list_all (list_all plain_char)
     [''FUNCTION_OBSERVATION_CHANGED'', ''UNAVAILABLE'', ''OBSERVATION_STORAGE_UNAVAILABLE'', ''DEMO_CONTROL_CHANGED'', ''RESET_CONTROL_UNAVAILABLE'',
      ''READINESS_CHANGED'', ''NOT_READY'', ''STORAGE_UNAVAILABLE'']"
  by code_simp

lemma blames_handlers [clock_intros]:
  "blames no_observations" "blames (log_event ''DEMO_CONTROL_CHANGED'' ''UNAVAILABLE'' ''RESET_CONTROL_UNAVAILABLE'')" "blames (delivery_failed i)"
  using delivery_texts unfolding no_observations_def delivery_failed_def by (auto intro!: blames_log clock_intros)

lemma advances_parts [clock_intros]: "advances observe_facts" "advances (send_observation i)" "advances (control_calls i)" "advances (deliver_message i)"
  unfolding observe_facts_def send_observation_def control_calls_def deliver_message_def
  by (intro clock_intros advances_set; simp)+

lemma clocks_observation [clock_intros]: "advances (observation_part i)" "blames (observation_part i)"
  unfolding observation_part_def by (intro clock_intros advances_set; simp add: no_observations_def clock_intros)+

lemma clocks_control [clock_intros]: "advances (control_part i)" "blames (control_part i)"
  unfolding control_part_def by (intro clock_intros advances_set; simp)+

lemma blames_delivery: "blames (delivery_round i)"
  unfolding delivery_round_def delivery_part_def by (intro clock_intros)

text \<open>No handler covers the readings between the parts of a round, and the handlers write to the log: a clock that fails there ends the thread, and
  with it the process.\<close>

lemma clock_failure_ends_delivery:
  assumes "sv_stream s = None" "shd (sv_clocks s) = None"
  shows "delivery_round i s w = (Threw CLOCK_UNAVAILABLE, s\<lparr>sv_clocks := stl (sv_clocks s)\<rparr>, w)"
  using assms by (simp add: delivery_round_def observation_part_def control_part_def m_simps m_clock_def milliseconds_def)

lemma early_clock_fails_handler:
  assumes "sv_clocks s = Some boot ## Some wall ## clocks" "fst wall * 1000 + snd wall div 1000000 < 0"
    "\<not> log_repeats ''READINESS_CHANGED'' ''NOT_READY'' ''STORAGE_UNAVAILABLE'' (sv_log s)" "log_emitted (sv_log s) < 60"
  shows "\<exists>s'. delivery_failed i s w = (Threw (InvalidArgument ''TIME_INVALID''), s', w)"
proof -
  let ?put = "\<lambda>n. put_operands (log_operands ''READINESS_CHANGED'' ''NOT_READY'' ''STORAGE_UNAVAILABLE'' [] n (milliseconds (Some wall)))"
  have "ebind (milliseconds (Some wall)) utc_timestamp = Inl (InvalidArgument ''TIME_INVALID'')"
    using assms(2) by (cases wall) (simp add: milliseconds_def utc_timestamp_def)
  then have "snd (?put n) = Inl (InvalidArgument ''TIME_INVALID'')" for n
    using delivery_texts by (simp add: put_line)
  then obtain t where p: "?put (count_up (log_suppressed (sv_log s))) = (t, Inl (InvalidArgument ''TIME_INVALID''))" by (metis prod.collapse)
  obtain b where b: "milliseconds (Some boot) = Inr b" by (cases boot) (simp add: milliseconds_def)
  have "\<exists>t lg clocks'. log_state ''READINESS_CHANGED'' ''NOT_READY'' ''STORAGE_UNAVAILABLE'' [] (sv_log s) (sv_clocks s) =
      (Inl (InvalidArgument ''TIME_INVALID''), t, lg, clocks')"
    using assms(3,4) p b by (auto simp: log_state_def log_repeats_def assms(1) Let_def)
  then show ?thesis by (auto simp: delivery_failed_def m_bind_def log_about_def)
qed

section \<open>Properties\<close>

text \<open>C13: An exception ends the delivery thread only when a clock fails: whatever the stores and the responses do, a round of it returns
  unless the process is stopped or a clock cannot be read or shows a time before 1970, and then the reading that the round took last is that one. In
  either case the round touches the runtime only by sequences of its public methods, so that what holds after every sequence of calls holds after
  every round, and it sets no request.\<close>

theorem delivery_round_contained:
  "case delivery_round i s w of
     (Done _, s', w') \<Rightarrow> calls (sv_runtime s) w [] (sv_runtime s') w' \<and> sv_requests s' = sv_requests s
   | (Threw _, s', w') \<Rightarrow>
       calls (sv_runtime s) w [] (sv_runtime s') w' \<and> sv_requests s' = sv_requests s \<and>
       (\<exists>n. sv_clocks s' = sdrop (Suc n) (sv_clocks s) \<and> \<not> sane (sv_clocks s !! n))
   | (Crashed, _, _) \<Rightarrow> True"
proof -
  obtain r s' w' where r: "delivery_round i s w = (r, s', w')" by (metis prod_cases3)
  have "blamed (sv_clocks s) (sv_clocks s')" if "r = Threw e" for e
    using r that blames_delivery [of i] unfolding blames_def by blast
  then show ?thesis using followsD [OF follows_delivery [of True] r] by (cases r) (auto simp: r passes_def blamed_def)
qed

text \<open>C5: The whole process hands out advisory requests in order: however the subscription, the watcher, the delivery and
  the advisory thread take turns, and whatever fails, the requests set at the server since the start are in the order of
  their sequence numbers, two with the same number are the same request, and all carry the epoch of the store.\<close>

theorem service_requests_ordered:
  assumes "runtime_start epoch m w = (Done (sv_runtime s0), w0)" "rt_store (sv_runtime s0)" "service_run s0 w0 outs s1 w1"
  shows "\<exists>qs. list_all2 (\<lambda>q t. canonical q = Inr t) qs outs \<and> sorted_wrt (\<lambda>a b. a = b \<or> before a b) qs \<and>
    (\<forall>q\<in>set qs. at_string q ''producerEpoch'' = at_string (memory w0) ''producerEpoch'')"
proof -
  have "serves m (at_string (memory w0) ''producerEpoch'') outs (sv_runtime s1, w1)"
    using process.inherits [OF methods.run_invariant_axioms _ assms(3)] serves_start [OF assms(1,2)] by simp
  then show ?thesis by (auto simp: serves_def in_order_def)
qed

definition demo_service :: Service where
  "demo_service =
     \<lparr>sv_runtime = demo_runtime, sv_stream = None, sv_ledger = demo_world [], sv_observation_attempt = 0, sv_next_observation = 0,
      sv_next_observation_delivery = 0, sv_next_control = 0, sv_next_delivery = 0, sv_attempt = 0, sv_readiness = initial_publication,
      sv_transport = \<lparr>st_ca = [], st_channel = None, st_made = 0\<rparr>, sv_sets = [], sv_log = initial_log, sv_output = [],
      sv_clocks = sconst (Some (5, 0))\<rparr>"

theorem service_requests_ordered_witness:
  "\<exists>w0 outs s1 w1 qs. runtime_start demo_epoch demo_metadata (demo_world []) = (Done (sv_runtime demo_service), w0) \<and>
     service_run demo_service w0 outs s1 w1 \<and> list_all2 (\<lambda>q t. canonical q = Inr t) qs outs \<and>
     (\<forall>q\<in>set qs. at_string q ''producerEpoch'' = at_string (memory w0) ''producerEpoch'')"
proof (rule demo_start)
  fix w0
  assume w0: "runtime_start demo_epoch demo_metadata (demo_world []) = (Done demo_runtime, w0)" "memory w0 = demo_state"
  have s: "runtime_start demo_epoch demo_metadata (demo_world []) = (Done (sv_runtime demo_service), w0)" "rt_store (sv_runtime demo_service)"
    using w0(1) by (simp_all add: demo_service_def demo_runtime_def fresh_runtime_def)
  have "act Expire demo_service w0 = (Done (), demo_service, w0)"
    by (simp add: watch_input_def m_clock_def milliseconds_def expire_input_def m_simps on_runtime_def demo_service_def demo_runtime_def fresh_runtime_def)
  then have "service_step (demo_service, w0) [] (demo_service, w0)"
    unfolding service_step_def by (intro exI [of _ Expire] exI [of _ "Done ()"]) simp
  then have r: "service_run demo_service w0 [] demo_service w0" by (rule trace_one)
  from service_requests_ordered [OF s r] s(1) r show ?thesis by blast
qed

end
