(* ===== verification/Bootstrap.thy ===== *)
theory Bootstrap
  imports Effects Identity
begin

text \<open>
  The process that owns the credential: the private directory of the token (\<^verbatim>\<open>runtime/token_session.cpp\<close>), the file
  written into it (\<^verbatim>\<open>atomic_private_file\<close> of \<^verbatim>\<open>runtime/posix.cpp\<close>) and the loop of \<^verbatim>\<open>runtime/bootstrap_main.cpp\<close> that
  renews the credential and removes the token when its lease ends. The token is there only while its lease runs, and the loop removes it before it ends.
\<close>

section \<open>Directories of tokens\<close>

text \<open>What a path opened without following links leads to; absent when it cannot be opened.\<close>

record node =
  node_directory :: bool
  node_uid :: nat
  node_gid :: nat
  node_mode :: nat

type_synonym nodes = "string list \<Rightarrow> node option"

record process =
  proc_uid :: nat
  proc_gid :: nat

definition DIRECTORY_INVALID :: exn where
  "DIRECTORY_INVALID = RuntimeError ''TOKEN_DIRECTORY_INVALID''"

text \<open>The components of a path: runs of slashes separate, and a slash at the end leaves an empty component.\<close>

fun components :: "string \<Rightarrow> string \<Rightarrow> string list" where
  "components acc [] = (if acc = [] then [] else [rev acc])"
| "components acc (c # cs) =
     (if byte c = 47 then
        (if acc = [] then components [] cs
         else if cs = [] then [rev acc, []] else rev acc # components [] cs)
      else components (c # acc) cs)"

fun walk :: "nodes \<Rightarrow> string list \<Rightarrow> string list \<Rightarrow> string list result" where
  "walk fs dir [] = Inr dir"
| "walk fs dir (c # cs) =
     (if c = [] \<or> c = ''.'' \<or> c = ''..'' then Inl DIRECTORY_INVALID else
      case fs (dir @ [c]) of
        None \<Rightarrow> Inl DIRECTORY_INVALID
      | Some n \<Rightarrow> if node_directory n then walk fs (dir @ [c]) cs else Inl DIRECTORY_INVALID)"

text \<open>Components other than \<^verbatim>\<open>.\<close> and \<^verbatim>\<open>..\<close> are what \<^verbatim>\<open>lexically_normal\<close> leaves alone.\<close>

definition open_path :: "nodes \<Rightarrow> string \<Rightarrow> string list result" where
  "open_path fs path = (if is_absolute path then walk fs [] (components [] path) else Inl DIRECTORY_INVALID)"

definition alphanumeric :: "char \<Rightarrow> bool" where
  "alphanumeric c \<longleftrightarrow>
     97 \<le> byte c \<and> byte c \<le> 122 \<or> 65 \<le> byte c \<and> byte c \<le> 90 \<or> 48 \<le> byte c \<and> byte c \<le> 57"

definition session_name :: "string \<Rightarrow> bool" where
  "session_name n \<longleftrightarrow> length n = 14 \<and> take 8 n = ''session-'' \<and> list_all alphanumeric (drop 8 n)"

text \<open>Its callers have absolute paths, given here by their components.\<close>

definition open_private_token_directory :: "nodes \<Rightarrow> process \<Rightarrow> string list \<Rightarrow> string list result" where
  "open_private_token_directory fs me path =
     ebind (walk fs [] path) (\<lambda>dir.
     case fs dir of
       None \<Rightarrow> Inl DIRECTORY_INVALID
     | Some n \<Rightarrow>
         if node_uid n \<noteq> proc_uid me \<or> node_gid n \<noteq> proc_gid me \<or> node_mode n \<noteq> 448 then Inl DIRECTORY_INVALID else Inr dir)"

definition token_root :: string where
  "token_root = ''/run/aosedge/secrets/kuksa''"

record TokenSession =
  ts_root :: "string list"
  ts_name :: string
  ts_file :: string

definition path_join :: "string \<Rightarrow> string \<Rightarrow> string" where
  "path_join a b = a @ ''/'' @ b"

definition session_file :: "string \<Rightarrow> string \<Rightarrow> string" where
  "session_file base_path name = path_join (path_join base_path name) ''token.jwt''"

text \<open>
  The outcomes of \<^verbatim>\<open>flock\<close>, of listing the directory, and of \<^verbatim>\<open>mkdtemp\<close>, which names a new directory and its attributes.
  Modes 01777 and 0700 are 1023 and 448.
\<close>

record creation =
  cr_locked :: bool
  cr_listing :: "string list option"
  cr_made :: "(string \<times> node) option"

definition root_accepted :: "process \<Rightarrow> string \<Rightarrow> node option \<Rightarrow> bool" where
  "root_accepted me base_path n =
     (case n of None \<Rightarrow> False
      | Some n \<Rightarrow> node_mode n = 1023 \<and> node_uid n = (if components [] base_path = components [] token_root then 0 else proc_uid me))"

definition count_sessions :: "string list \<Rightarrow> nat" where
  "count_sessions names = length (filter (\<lambda>n. take 8 n = ''session-'') names)"

text \<open>The constructor; the second component is the file system it leaves.\<close>

definition token_session :: "process \<Rightarrow> string \<Rightarrow> creation \<Rightarrow> nodes \<Rightarrow> TokenSession result \<times> nodes" where
  "token_session me base_path c fs =
     (case open_path fs base_path of
        Inl e \<Rightarrow> (Inl e, fs)
      | Inr dir \<Rightarrow>
          if \<not> root_accepted me base_path (fs dir) \<or> \<not> cr_locked c then (Inl DIRECTORY_INVALID, fs) else
          case cr_listing c of
            None \<Rightarrow> (Inl DIRECTORY_INVALID, fs)
          | Some names \<Rightarrow>
              if count_sessions names \<ge> 8 then (Inl (RuntimeError ''TOKEN_SESSION_CAPACITY_EXCEEDED''), fs) else
              case cr_made c of
                None \<Rightarrow> (Inl DIRECTORY_INVALID, fs)
              | Some (name, n) \<Rightarrow>
                  (let fs' = fs(dir @ [name] \<mapsto> n) in
                   case open_private_token_directory fs' me (components [] (path_join base_path name)) of
                     Inl e \<Rightarrow> (Inl e, fs)
                   | Inr _ \<Rightarrow>
                       if \<not> session_name name then (Inl DIRECTORY_INVALID, fs)
                       else (Inr \<lparr>ts_root = dir, ts_name = name, ts_file = session_file base_path name\<rparr>, fs')))"

definition token_file_from_environment :: "nodes \<Rightarrow> process \<Rightarrow> string option \<Rightarrow> string result" where
  "token_file_from_environment fs me value =
     (case value of
        None \<Rightarrow> Inl (RuntimeError ''CREDENTIAL_ENVIRONMENT_INVALID'')
      | Some path \<Rightarrow>
          (let cs = components [] path in
           if \<not> is_absolute path \<or> length cs < 2 \<or> last cs \<noteq> ''token.jwt'' \<or>
              butlast (butlast cs) \<noteq> components [] token_root \<or> \<not> session_name (last (butlast cs))
           then Inl (RuntimeError ''CREDENTIAL_ENVIRONMENT_INVALID'')
           else ebind (open_private_token_directory fs me (butlast cs)) (\<lambda>_. Inr path)))"

section \<open>Public inputs\<close>

fun public_loop :: "nat \<Rightarrow> string \<Rightarrow> read_step list \<Rightarrow> string result" where
  "public_loop limit out [] = Inr out"
| "public_loop limit out (ReadInterrupted # rs) = public_loop limit out rs"
| "public_loop limit out (ReadFailed # rs) = Inl (RuntimeError ''INPUT_FILE_UNAVAILABLE'')"
| "public_loop limit out (ReadChunk c # rs) =
     (if c = [] then Inr out
      else if length (out @ c) > limit then Inl (RuntimeError ''INPUT_FILE_UNAVAILABLE'')
      else public_loop limit (out @ c) rs)"

text \<open>A public file that may not be there yet; one that is there is read or refused.\<close>

definition read_optional_public_file :: "opened \<Rightarrow> nat \<Rightarrow> string option result" where
  "read_optional_public_file file limit =
     (case file of
        OpenAbsent \<Rightarrow> Inr None
      | OpenFailed \<Rightarrow> Inl (RuntimeError ''INPUT_FILE_UNAVAILABLE'')
      | Opened info steps \<Rightarrow>
          (case info of None \<Rightarrow> Inl (RuntimeError ''INPUT_FILE_UNAVAILABLE'')
           | Some i \<Rightarrow>
               if \<not> st_regular i \<or> st_size i \<le> 0 \<or> st_size i > int limit then Inl (RuntimeError ''INPUT_FILE_UNAVAILABLE'')
               else ebind (public_loop limit [] steps) (\<lambda>t.
                 if t = [] then Inl (RuntimeError ''INPUT_FILE_UNAVAILABLE'') else Inr (Some t))))"

section \<open>The token file\<close>

text \<open>The directory of the session is \<open>Root\<close>.\<close>

definition temporary_token :: "nat \<Rightarrow> string" where
  "temporary_token pid = ''token.jwt.next-'' @ show_nat pid"

definition atomic_private_file :: "nat \<Rightarrow> string \<Rightarrow> unit io" where
  "atomic_private_file pid bytes w =
     (let temporary = temporary_token pid; failed = ''TOKEN_WRITE_FAILED'' in
      io_bind (io_throw_if (\<not> dir_ok w Root) ''TOKEN_DIRECTORY_INVALID'') (\<lambda>_.
      io_bind (require_ok (syscall id) ''TOKEN_DIRECTORY_INVALID'') (\<lambda>_.
      io_bind (io_throw_if (get_file Root temporary w \<noteq> None) failed) (\<lambda>_.
      io_bind (require_ok (syscall (put_file Root temporary [])) failed) (\<lambda>_.
        or_unlink Root temporary
          (io_bind (require_ok (write_loop Root temporary [] bytes) failed) (\<lambda>_.
           io_bind (require_ok (syscall id) failed) (\<lambda>_.
           io_bind (require_ok (syscall id) failed) (\<lambda>_.
             require_ok (syscall (rename_file Root temporary ''token.jwt'')) failed)))))))) w)"

definition remove_token :: "unit io" where
  "remove_token = require_ok (syscall (drop_file Root ''token.jwt'')) ''TOKEN_REMOVE_FAILED''"

section \<open>The loop\<close>

record Bootstrap =
  bs_lease :: Lease
  bs_has_token :: bool
  bs_terminal :: bool
  bs_next_attempt :: int
  bs_failures :: nat
  bs_issue :: bool
  bs_reported :: string
  bs_events :: "(bool \<times> string) list"

type_synonym 'a bs = "(Bootstrap, 'a) method_of"

text \<open>
  What one round observes: the clocks, the exit status of the child once it has ended, the result of the exchange of the
  credential once it is there (its response and the time it was parsed at), and the jitter.
\<close>

record round =
  r_boot :: int
  r_wall :: int
  r_child :: "int option"
  r_answer :: "(string result \<times> int) option"
  r_jitter :: double

definition auth_state :: "bool \<Rightarrow> string \<Rightarrow> unit bs" where
  "auth_state ready rejection =
     m_set (\<lambda>s. let reason = (if ready then ''NONE'' else rejection) in
       if reason = bs_reported s then s else s\<lparr>bs_reported := reason, bs_events := bs_events s @ [(ready, reason)]\<rparr>)"

definition not_ready :: "unit bs" where
  "not_ready = auth_state False ''KUKSA_AUTH_UNAVAILABLE''"

text \<open>\<^verbatim>\<open>next_attempt = boot + retry_delay(failures++, jitter(random)) * 1000\<close>; the undefined conversion in \<open>retry_delay\<close> is excluded by
  \<open>retry_delay_bounds\<close>.\<close>

definition back_off :: "round \<Rightarrow> unit bs" where
  "back_off i =
     m_bind (m_get bs_failures) (\<lambda>n.
     m_bind (m_set (\<lambda>s. s\<lparr>bs_failures := (n + 1) mod 2 ^ 32\<rparr>)) (\<lambda>_.
     m_bind (m_lift (ebind (retry_delay n (r_jitter i) 0) (\<lambda>d. case d of None \<Rightarrow> Inl OutOfRange | Some k \<Rightarrow> Inr k))) (\<lambda>k.
       m_set (\<lambda>s. s\<lparr>bs_next_attempt := r_boot i + k * 1000\<rparr>))))"

definition expire_token :: "round \<Rightarrow> unit bs" where
  "expire_token i =
     m_bind (m_get id) (\<lambda>s.
     if bs_has_token s \<and> lease_expired (bs_lease s) (r_wall i) (r_boot i) then
       m_bind (m_io remove_token) (\<lambda>_.
       m_bind (m_set (\<lambda>s. s\<lparr>bs_has_token := False\<rparr>)) (\<lambda>_. not_ready))
     else m_return ())"

definition store_token :: "nat \<Rightarrow> round \<Rightarrow> Credential \<Rightarrow> unit bs" where
  "store_token pid i c =
     (if expires c \<le> r_wall i \<or> renew_after c \<le> r_wall i then m_throw (RuntimeError ''KAC_RESPONSE_EXPIRED'') else
      m_bind (m_io (atomic_private_file pid (token c))) (\<lambda>_.
      m_bind (m_set (\<lambda>s. s\<lparr>bs_lease := lease_issued c (r_wall i) (r_boot i)\<rparr>)) (\<lambda>_.
      m_bind (m_set (\<lambda>s. s\<lparr>bs_next_attempt := renew_boot (bs_lease s), bs_failures := 0\<rparr>)) (\<lambda>_.
      m_bind (m_get bs_has_token) (\<lambda>had.
      m_bind (m_when (\<not> had) (auth_state True ''KUKSA_AUTH_UNAVAILABLE'')) (\<lambda>_.
        m_set (\<lambda>s. s\<lparr>bs_has_token := True\<rparr>)))))))"

definition give_up :: "unit bs" where
  "give_up =
     m_bind (m_io remove_token) (\<lambda>_.
     m_bind (m_set (\<lambda>s. s\<lparr>bs_terminal := True\<rparr>)) (\<lambda>_.
     m_bind (m_get bs_has_token) (\<lambda>had.
     m_bind (m_when had not_ready) (\<lambda>_.
       m_set (\<lambda>s. s\<lparr>bs_has_token := False\<rparr>)))))"

definition receive_credential :: "nat \<Rightarrow> round \<Rightarrow> Credential \<Rightarrow> unit bs" where
  "receive_credential pid i c =
     m_bind (m_when (token c = []) (auth_state False (code c))) (\<lambda>_.
     if token c \<noteq> [] then store_token pid i c
     else if \<not> retryable c then give_up
     else back_off i)"

definition receive_answer :: "nat \<Rightarrow> round \<Rightarrow> unit bs" where
  "receive_answer pid i =
     m_bind (m_get bs_issue) (\<lambda>valid.
     case (valid, r_answer i) of
       (True, Some (response, now)) \<Rightarrow>
         m_bind (m_set (\<lambda>s. s\<lparr>bs_issue := False\<rparr>)) (\<lambda>_.
         case ebind response (\<lambda>bytes. parse_credential bytes now) of
           Inl _ \<Rightarrow> back_off i
         | Inr c \<Rightarrow> receive_credential pid i c)
     | _ \<Rightarrow> m_return ())"

definition request_due :: "round \<Rightarrow> Bootstrap \<Rightarrow> bool" where
  "request_due i s \<longleftrightarrow> \<not> bs_issue s \<and> \<not> bs_terminal s \<and> r_boot i \<ge> bs_next_attempt s"

definition start_request :: "round \<Rightarrow> unit bs" where
  "start_request i = m_set (\<lambda>s. if request_due i s then s\<lparr>bs_issue := True\<rparr> else s)"

text \<open>One round; \<open>Some\<close> exit status ends the process.\<close>

definition bootstrap_round :: "nat \<Rightarrow> round \<Rightarrow> int option bs" where
  "bootstrap_round pid i =
     (case r_child i of
        Some status \<Rightarrow> m_bind (m_io remove_token) (\<lambda>_. m_return (Some status))
      | None \<Rightarrow>
          m_bind (expire_token i) (\<lambda>_.
          m_bind (receive_answer pid i) (\<lambda>_.
          m_bind (start_request i) (\<lambda>_. m_return None))))"

definition initial_bootstrap :: Bootstrap where
  "initial_bootstrap =
     \<lparr>bs_lease = \<lparr>expires_wall = 0, expires_boot = 0, renew_boot = 0\<rparr>, bs_has_token = False, bs_terminal = False,
      bs_next_attempt = 0, bs_failures = 0, bs_issue = False, bs_reported = ''KUKSA_AUTH_UNAVAILABLE'',
      bs_events = [(False, ''KUKSA_AUTH_UNAVAILABLE'')]\<rparr>"

text \<open>
  The rounds until the process is interrupted, which is the end of the list. A round whose clocks cannot be read is the exception
  that reading them throws.
\<close>

fun bootstrap_loop :: "nat \<Rightarrow> round result list \<Rightarrow> int bs" where
  "bootstrap_loop pid [] = m_bind (m_io remove_token) (\<lambda>_. m_return 0)"
| "bootstrap_loop pid (Inl e # is) = m_throw e"
| "bootstrap_loop pid (Inr i # is) =
     m_bind (bootstrap_round pid i) (\<lambda>r. case r of Some status \<Rightarrow> m_return status | None \<Rightarrow> bootstrap_loop pid is)"

text \<open>
  The handler of \<^verbatim>\<open>main\<close> and the destructor of the session, which removes the token once more and ignores whether it could. A process that
  is killed runs neither.
\<close>

definition remove_last :: "bool io" where
  "remove_last = syscall (drop_file Root ''token.jwt'')"

definition bootstrap_main :: "nat \<Rightarrow> round result list \<Rightarrow> int io" where
  "bootstrap_main pid is w =
     (case bootstrap_loop pid is initial_bootstrap w of
        (Crashed, _, w') \<Rightarrow> (Crashed, w')
      | (r, _, w') \<Rightarrow> io_bind remove_last (\<lambda>_. io_return (case r of Done status \<Rightarrow> status | _ \<Rightarrow> 2)) w')"

section \<open>The token and its lease\<close>

definition token_of :: "world \<Rightarrow> entry option" where
  "token_of w = get_file Root ''token.jwt'' w"

abbreviation intact :: "'s \<Rightarrow> world \<Rightarrow> bool" where
  "intact \<equiv> \<lambda>_. world_ok"

lemma token_holds: "holds c w \<Longrightarrow> world_ok w \<and> token_of w = c (Root, ''token.jwt'')"
  by (simp add: token_of_def get_file_holds) (simp add: holds_def)

lemma ok_holds: "world_ok w \<longleftrightarrow> (\<exists>c. holds c w)"
  by (auto simp: holds_def)

lemma holds_intact: "holds c w \<Longrightarrow> world_ok w"
  by (simp add: holds_def)

lemma ok_script [simp]: "world_ok (w\<lparr>script := fs\<rparr>) \<longleftrightarrow> world_ok w"
  by (simp add: world_ok_def)

lemma ok_drop [simp]: "world_ok w \<Longrightarrow> world_ok (drop_file p n w)"
  unfolding ok_holds by blast

lemma remove_token_spec: "spec world_ok remove_token (\<lambda>_ w. world_ok w \<and> token_of w = None) world_ok"
proof (rule specI)
  fix w
  assume ok: "world_ok w"
  then have "holds (contents w) w" by (simp add: holds_def)
  then have "holds (contents w) (w\<lparr>script := fs\<rparr>)" for fs by simp
  from holds_drop [OF this, of Root "''token.jwt''"]
  have "world_ok (drop_file Root ''token.jwt'' (w\<lparr>script := fs\<rparr>)) \<and> token_of (drop_file Root ''token.jwt'' (w\<lparr>script := fs\<rparr>)) = None" for fs
    using token_holds by fastforce
  from this [of "script w"] this
  show "case remove_token w of (Done x, w') \<Rightarrow> world_ok w' \<and> token_of w' = None | (_, w') \<Rightarrow> world_ok w'"
    using ok by (auto simp: remove_token_def io_simps split: list.splits fault.splits)
qed

lemma unlink_keeps:
  assumes "spec P m Q world_ok"
  shows "spec P (or_unlink p n m) Q world_ok"
proof (rule specI)
  fix w
  assume "P w"
  from specD [OF assms this]
  show "case or_unlink p n m w of (Done x, w') \<Rightarrow> Q x w' | (_, w') \<Rightarrow> world_ok w'"
    by (auto simp: or_unlink_def syscall_def next_fault_def split: prod.splits outcome.splits list.splits fault.splits)
qed

lemma write_token_spec:
  assumes "tmp = temporary_token pid"
  shows "spec (holds (c((Root, tmp) \<mapsto> own [])))
     (io_bind (require_ok (write_loop Root tmp [] t) e) (\<lambda>_.
      io_bind (require_ok (syscall id) e) (\<lambda>_. io_bind (require_ok (syscall id) e) (\<lambda>_.
        require_ok (syscall (rename_file Root tmp ''token.jwt'')) e))))
     (\<lambda>_. holds (c((Root, tmp) := None, (Root, ''token.jwt'') \<mapsto> own t))) world_ok"
proof -
  have ne: "tmp \<noteq> ''token.jwt''" by (simp add: assms temporary_token_def)
  have loop: "spec (holds (c((Root, tmp) \<mapsto> own []))) (require_ok (write_loop Root tmp [] t) e) (\<lambda>_. holds (c((Root, tmp) \<mapsto> own t))) world_ok"
    unfolding require_ok_def
  proof (rule spec_bind)
    show "spec (holds (c((Root, tmp) \<mapsto> own []))) (write_loop Root tmp [] t)
      (\<lambda>ok w. world_ok w \<and> (ok \<longrightarrow> holds (c((Root, tmp) \<mapsto> own t)) w)) world_ok"
      by (rule spec_weaken [OF write_loop_spec]) (auto dest: holds_intact split: if_splits)
    show "spec (\<lambda>w. world_ok w \<and> (ok \<longrightarrow> holds (c((Root, tmp) \<mapsto> own t)) w)) (io_throw_if (\<not> ok) e) (\<lambda>_. holds (c((Root, tmp) \<mapsto> own t))) world_ok" for ok
      by (cases ok) (auto simp: io_throw_if_def intro!: spec_return spec_throw)
  qed
  have move: "spec (holds (c((Root, tmp) \<mapsto> own t))) (require_ok (syscall (rename_file Root tmp ''token.jwt'')) e)
      (\<lambda>_. holds (c((Root, tmp) := None, (Root, ''token.jwt'') \<mapsto> own t))) world_ok"
    by (rule spec_syscall) (use ne in \<open>auto intro: holds_rename holds_intact\<close>)
  show ?thesis
    by (rule spec_bind [OF loop], rule spec_bind [OF spec_syscall_id], erule holds_intact,
        rule spec_bind [OF spec_syscall_id], erule holds_intact, rule move)
qed

lemma atomic_private_file_spec:
  "spec world_ok (atomic_private_file pid t) (\<lambda>_ w. world_ok w \<and> token_of w = Some (own t)) world_ok"
proof (rule specI)
  fix w
  assume ok: "world_ok w"
  define c where "c = contents w"
  have c: "holds c w" using ok by (simp add: holds_def c_def)
  let ?tmp = "temporary_token pid"
  let ?fill = "or_unlink Root ?tmp
          (io_bind (require_ok (write_loop Root ?tmp [] t) ''TOKEN_WRITE_FAILED'') (\<lambda>_.
           io_bind (require_ok (syscall id) ''TOKEN_WRITE_FAILED'') (\<lambda>_.
           io_bind (require_ok (syscall id) ''TOKEN_WRITE_FAILED'') (\<lambda>_.
             require_ok (syscall (rename_file Root ?tmp ''token.jwt'')) ''TOKEN_WRITE_FAILED''))))"
  have throw: "spec (holds d) (io_throw_if b e) (\<lambda>_. holds d) world_ok" for d b e
    by (rule spec_weaken [OF spec_throw_if [where P = "holds d" and E = world_ok]]) (auto dest: holds_intact)
  have make: "spec (holds c) (require_ok (syscall (put_file Root ?tmp [])) e) (\<lambda>_. holds (c((Root, ?tmp) \<mapsto> own []))) world_ok" for e
    by (rule spec_syscall) (auto dest: holds_intact)
  have "spec (holds c) (io_bind (io_throw_if b1 e1) (\<lambda>_. io_bind (require_ok (syscall id) e1) (\<lambda>_. io_bind (io_throw_if b2 e2) (\<lambda>_.
      io_bind (require_ok (syscall (put_file Root ?tmp [])) e2) (\<lambda>_. ?fill)))))
      (\<lambda>_. holds (c((Root, ?tmp) := None, (Root, ''token.jwt'') \<mapsto> own t))) world_ok" for b1 b2 e1 e2
    by (rule spec_bind [OF throw], rule spec_bind [OF spec_syscall_id], erule holds_intact, rule spec_bind [OF throw],
        rule spec_bind [OF make], rule unlink_keeps, rule write_token_spec) simp
  from specD [OF this c] show "case atomic_private_file pid t w of
      (Done x, w') \<Rightarrow> world_ok w' \<and> token_of w' = Some (own t) | (_, w') \<Rightarrow> world_ok w'"
    unfolding atomic_private_file_def Let_def by (fastforce dest: token_holds split: prod.splits outcome.splits)
qed

text \<open>
  Between rounds: the file is there exactly when the process believes so, what it holds is a well-formed token, and a
  process that gave up has neither a token nor a request under way.
\<close>

definition guarded :: "Bootstrap \<Rightarrow> world \<Rightarrow> bool" where
  "guarded s w \<longleftrightarrow>
     world_ok w \<and> (bs_has_token s \<longleftrightarrow> token_of w \<noteq> None) \<and>
     (\<forall>f. token_of w = Some f \<longrightarrow> \<not> token_malformed (entry_bytes f)) \<and>
     (bs_terminal s \<longrightarrow> \<not> bs_has_token s \<and> \<not> bs_issue s)"

definition leased :: "round \<Rightarrow> Bootstrap \<Rightarrow> world \<Rightarrow> bool" where
  "leased i s w \<longleftrightarrow> guarded s w \<and> (bs_has_token s \<longrightarrow> \<not> lease_expired (bs_lease s) (r_wall i) (r_boot i))"

definition answering :: "round \<Rightarrow> Bootstrap \<Rightarrow> world \<Rightarrow> bool" where
  "answering i s w \<longleftrightarrow> leased i s w \<and> \<not> bs_terminal s \<and> \<not> bs_issue s"

lemma invariant_intact: "guarded s w \<Longrightarrow> world_ok w" "leased i s w \<Longrightarrow> world_ok w" "answering i s w \<Longrightarrow> world_ok w"
  by (simp_all add: guarded_def leased_def answering_def)

lemma reports_only [simp]:
  fixes s :: Bootstrap
  shows "guarded (s\<lparr>bs_reported := a, bs_events := b\<rparr>) w = guarded s w"
  "leased i (s\<lparr>bs_reported := a, bs_events := b\<rparr>) w = leased i s w"
  "answering i (s\<lparr>bs_reported := a, bs_events := b\<rparr>) w = answering i s w"
  by (simp_all add: guarded_def leased_def answering_def)

lemma auth_state_meets:
  assumes "\<And>s w a b. P s w \<Longrightarrow> Q () s w \<and> Q () (s\<lparr>bs_reported := a, bs_events := b\<rparr>) w"
  shows "meets P (auth_state ready r) Q E"
  unfolding auth_state_def using assms by (intro meets_set) (auto simp: Let_def)

lemma when_meets: "meets P m (\<lambda>_. P) E \<Longrightarrow> meets P (m_when b m) (\<lambda>_. P) E"
  by (simp add: m_when_def meets_return)

lemma remove_meets:
  fixes p :: "Bootstrap \<Rightarrow> bool"
  shows "meets (\<lambda>s w. world_ok w \<and> p s) (m_io remove_token) (\<lambda>_ s w. world_ok w \<and> token_of w = None \<and> p s) intact"
proof (rule meets_io)
  fix s
  show "spec (\<lambda>w. world_ok w \<and> p s) remove_token (\<lambda>x w. world_ok w \<and> token_of w = None \<and> p s) world_ok"
  proof (rule specI)
    fix w
    assume "world_ok w \<and> p s"
    then show "case remove_token w of (Done x, w') \<Rightarrow> world_ok w' \<and> token_of w' = None \<and> p s | (_, w') \<Rightarrow> world_ok w'"
      using specD [OF remove_token_spec, of w] by (simp split: prod.splits outcome.splits)
  qed
qed

lemma expire_meets: "meets guarded (expire_token i) (\<lambda>_. leased i) intact"
  unfolding expire_token_def
proof (rule meets_bind [OF meets_get], rule meets_if)
  fix x :: Bootstrap
  assume e: "bs_has_token x \<and> lease_expired (bs_lease x) (r_wall i) (r_boot i)"
  have remove: "meets (\<lambda>s w. x = id s \<and> guarded s w) (m_io remove_token)
      (\<lambda>_ s w. world_ok w \<and> token_of w = None \<and> (bs_terminal s \<longrightarrow> \<not> bs_issue s)) intact"
    by (rule meets_weaken [OF remove_meets]) (auto simp: guarded_def)
  have clear: "meets (\<lambda>s w. world_ok w \<and> token_of w = None \<and> (bs_terminal s \<longrightarrow> \<not> bs_issue s))
      (m_set (\<lambda>s. s\<lparr>bs_has_token := False\<rparr>)) (\<lambda>_. leased i) intact"
    by (rule meets_set) (simp add: leased_def guarded_def)
  show "meets (\<lambda>s w. x = id s \<and> guarded s w) (m_bind (m_io remove_token) (\<lambda>_. m_bind (m_set (\<lambda>s. s\<lparr>bs_has_token := False\<rparr>)) (\<lambda>_. not_ready)))
      (\<lambda>_. leased i) intact"
    unfolding not_ready_def by (rule meets_bind [OF remove], rule meets_bind [OF clear], rule auth_state_meets) simp
next
  fix x :: Bootstrap
  assume "\<not> (bs_has_token x \<and> lease_expired (bs_lease x) (r_wall i) (r_boot i))"
  then show "meets (\<lambda>s w. x = id s \<and> guarded s w) (m_return ()) (\<lambda>_. leased i) intact"
    by (intro meets_return) (auto simp: leased_def)
qed

lemma back_off_meets: "meets (answering i) (back_off i) (\<lambda>_. leased i) intact"
proof -
  have get: "meets (answering i) (m_get bs_failures) (\<lambda>_. answering i) intact"
    by (rule meets_weaken [OF meets_get]) auto
  have count: "meets (answering i) (m_set (\<lambda>s. s\<lparr>bs_failures := n\<rparr>)) (\<lambda>_. answering i) intact" for n
    by (rule meets_set) (simp add: answering_def leased_def guarded_def)
  have lift: "meets (answering i) (m_lift r) (\<lambda>_. answering i) intact" for r :: "int result"
    by (rule meets_weaken [OF meets_lift [where P = "answering i" and E = intact]]) (auto dest: invariant_intact)
  show ?thesis
    unfolding back_off_def
    by (rule meets_bind [OF get], rule meets_bind [OF count], rule meets_bind [OF lift], rule meets_set)
      (simp add: answering_def leased_def guarded_def)
qed

lemma store_meets:
  assumes "\<not> token_malformed (token c)" "0 \<le> r_wall i"
  shows "meets (answering i) (store_token pid i c) (\<lambda>_. leased i) intact"
  unfolding store_token_def
proof (rule meets_if, rule meets_throw, erule invariant_intact, goal_cases)
  case 1
  let ?P = "\<lambda>s w. world_ok w \<and> token_of w = Some (own (token c)) \<and> \<not> bs_terminal s \<and> \<not> bs_issue s"
  let ?Q = "\<lambda>s w. ?P s w \<and> \<not> lease_expired (bs_lease s) (r_wall i) (r_boot i)"
  have stored: "meets (answering i) (m_io (atomic_private_file pid (token c))) (\<lambda>_. ?P) intact"
  proof (rule meets_io)
    fix s
    show "spec (answering i s) (atomic_private_file pid (token c)) (\<lambda>_. ?P s) world_ok"
    proof (rule specI)
      fix w
      assume "answering i s w"
      then show "case atomic_private_file pid (token c) w of (Done x, w') \<Rightarrow> ?P s w' | (_, w') \<Rightarrow> world_ok w'"
        using specD [OF atomic_private_file_spec [of pid "token c"], of w]
        by (auto simp: answering_def leased_def guarded_def split: prod.splits outcome.splits)
    qed
  qed
  have lease: "meets ?P (m_set (\<lambda>s. s\<lparr>bs_lease := lease_issued c (r_wall i) (r_boot i)\<rparr>)) (\<lambda>_. ?Q) intact"
    by (rule meets_set) (use 1 assms(2) in \<open>auto simp: lease_issued_def lease_expired_def\<close>)
  have next_at: "meets ?Q (m_set (\<lambda>s. s\<lparr>bs_next_attempt := renew_boot (bs_lease s), bs_failures := 0\<rparr>)) (\<lambda>_. ?Q) intact"
    by (rule meets_set) simp
  have had: "meets ?Q (m_get bs_has_token) (\<lambda>_. ?Q) intact" by (rule meets_weaken [OF meets_get]) auto
  have report: "meets ?Q (m_when b (auth_state True ''KUKSA_AUTH_UNAVAILABLE'')) (\<lambda>_. ?Q) intact" for b
    by (rule when_meets, rule auth_state_meets) simp
  show ?case
    by (rule meets_bind [OF stored], rule meets_bind [OF lease], rule meets_bind [OF next_at], rule meets_bind [OF had],
        rule meets_bind [OF report], rule meets_set) (use assms(1) in \<open>auto simp: leased_def guarded_def\<close>)
qed

lemma give_up_meets: "meets (answering i) give_up (\<lambda>_. leased i) intact"
proof -
  let ?P = "\<lambda>s w. world_ok w \<and> token_of w = None \<and> \<not> bs_issue s"
  have remove: "meets (answering i) (m_io remove_token) (\<lambda>_. ?P) intact"
    by (rule meets_weaken [OF remove_meets [where p = "\<lambda>s. \<not> bs_issue s"]]) (auto simp: answering_def leased_def guarded_def)
  have mark: "meets ?P (m_set (\<lambda>s. s\<lparr>bs_terminal := True\<rparr>)) (\<lambda>_. ?P) intact" by (rule meets_set) simp
  have had: "meets ?P (m_get bs_has_token) (\<lambda>_. ?P) intact" by (rule meets_weaken [OF meets_get]) auto
  have report: "meets ?P (m_when b not_ready) (\<lambda>_. ?P) intact" for b
    unfolding not_ready_def by (rule when_meets, rule auth_state_meets) simp
  show ?thesis
    unfolding give_up_def
    by (rule meets_bind [OF remove], rule meets_bind [OF mark], rule meets_bind [OF had], rule meets_bind [OF report], rule meets_set)
      (simp add: leased_def guarded_def)
qed

lemma receive_meets:
  assumes "0 \<le> r_wall i"
  shows "meets (leased i) (receive_answer pid i) (\<lambda>_. leased i) intact"
proof -
  have report: "meets (answering i) (m_when b (auth_state False r)) (\<lambda>_. answering i) intact" for b r
    by (rule when_meets, rule auth_state_meets) simp
  have credential: "meets (answering i) (receive_credential pid i c) (\<lambda>_. leased i) intact" if "parse_credential bytes now = Inr c" for bytes now c
    unfolding receive_credential_def
  proof (rule meets_bind [OF report], intro meets_if give_up_meets back_off_meets)
    assume "token c \<noteq> []"
    then have "\<not> token_malformed (token c)" using credential_cases [OF that] by auto
    then show "meets (answering i) (store_token pid i c) (\<lambda>_. leased i) intact" by (rule store_meets [OF _ assms])
  qed
  have "meets (\<lambda>s w. valid = bs_issue s \<and> leased i s w)
      (case (valid, r_answer i) of
         (True, Some (response, now)) \<Rightarrow> m_bind (m_set (\<lambda>s. s\<lparr>bs_issue := False\<rparr>)) (\<lambda>_.
           case ebind response (\<lambda>bytes. parse_credential bytes now) of Inl _ \<Rightarrow> back_off i | Inr c \<Rightarrow> receive_credential pid i c)
       | _ \<Rightarrow> m_return ()) (\<lambda>_. leased i) intact" for valid
  proof (cases "valid \<and> r_answer i \<noteq> None")
    case True
    then obtain response now where r: "r_answer i = Some (response, now)" "valid" by auto
    have "meets (\<lambda>s w. valid = bs_issue s \<and> leased i s w) (m_set (\<lambda>s. s\<lparr>bs_issue := False\<rparr>)) (\<lambda>_. answering i) intact"
      by (rule meets_set) (use r(2) in \<open>auto simp: answering_def leased_def guarded_def\<close>)
    moreover have "meets (answering i) (case ebind response (\<lambda>bytes. parse_credential bytes now) of Inl _ \<Rightarrow> back_off i
        | Inr c \<Rightarrow> receive_credential pid i c) (\<lambda>_. leased i) intact"
      using back_off_meets credential by (auto simp: ebind_eq_Inr split: sum.splits)
    ultimately show ?thesis using r by (auto intro: meets_bind)
  next
    case False
    then have "(case (valid, r_answer i) of (True, Some (response, now)) \<Rightarrow> f response now | _ \<Rightarrow> m_return ()) = m_return ()" for f :: "string result \<Rightarrow> int \<Rightarrow> unit bs"
      by (auto split: bool.splits option.splits)
    then show ?thesis by (simp add: meets_def m_return_def)
  qed
  then show ?thesis unfolding receive_answer_def by (rule meets_bind [OF meets_get])
qed

lemma remove_guarded: "meets guarded (m_io remove_token) (\<lambda>_ s w. world_ok w \<and> token_of w = None) intact"
  by (rule meets_weaken [OF remove_meets [where p = "\<lambda>_. True"]]) (auto simp: guarded_def)

lemma round_meets:
  assumes "0 \<le> r_wall i"
  shows "meets guarded (bootstrap_round pid i) (\<lambda>r s w. if r = None then leased i s w else world_ok w \<and> token_of w = None) intact"
proof (cases "r_child i")
  case None
  have start: "meets (leased i) (start_request i) (\<lambda>_. leased i) intact"
    unfolding start_request_def by (rule meets_set) (auto simp: leased_def guarded_def request_due_def)
  show ?thesis
    unfolding bootstrap_round_def None option.case
    by (rule meets_bind [OF expire_meets], rule meets_bind [OF receive_meets [OF assms]], rule meets_bind [OF start], rule meets_return) simp
next
  case (Some status)
  show ?thesis
    unfolding bootstrap_round_def Some option.case by (rule meets_bind [OF remove_guarded], rule meets_return) simp
qed

text \<open>The states between rounds, \<open>i\<close> the last round, at times after 1970 and with any script of faults.\<close>

inductive running :: "nat \<Rightarrow> round option \<Rightarrow> Bootstrap \<Rightarrow> world \<Rightarrow> bool" for pid where
  First: "running pid None initial_bootstrap w" if "world_ok w" "token_of w = None"
| Round: "running pid (Some i) s' (w'\<lparr>script := fs\<rparr>)"
    if "running pid l s w" "0 \<le> r_wall i" "bootstrap_round pid i s w = (Done None, s', w')"

lemma running_leased: "running pid l s w \<Longrightarrow> guarded s w \<and> (case l of None \<Rightarrow> True | Some i \<Rightarrow> leased i s w)"
proof (induction rule: running.induct)
  case (First w)
  then show ?case by (simp add: guarded_def initial_bootstrap_def)
next
  case (Round l s w i s' w' fs)
  then have "leased i s' w'" using meetsD [OF round_meets [OF Round(2)], of s w pid] by simp
  then have "leased i s' (w'\<lparr>script := fs\<rparr>)" by (auto simp: leased_def guarded_def token_of_def get_file_def)
  then show ?case by (simp add: leased_def)
qed

text \<open>A loop that ends has removed the token itself.\<close>

lemma loop_removes:
  "\<forall>i. Inr i \<in> set is \<longrightarrow> 0 \<le> r_wall i \<Longrightarrow> meets guarded (bootstrap_loop pid is) (\<lambda>_ s w. world_ok w \<and> token_of w = None) intact"
proof (induction pid "is" rule: bootstrap_loop.induct)
  case (1 pid)
  show ?case by (simp, rule meets_bind [OF remove_guarded], rule meets_return) simp
next
  case (2 pid e "is")
  show ?case by (simp, rule meets_throw) (rule invariant_intact)
next
  case (3 pid i "is")
  have "meets (\<lambda>s w. if r = None then leased i s w else world_ok w \<and> token_of w = None)
      (case r of None \<Rightarrow> bootstrap_loop pid is | Some status \<Rightarrow> m_return status) (\<lambda>_ s w. world_ok w \<and> token_of w = None) intact" for r
    using 3 by (cases r) (auto intro: meets_return meets_weaken simp: leased_def)
  then show ?case using round_meets [of i pid] "3.prems" by (auto intro: meets_bind)
qed

section \<open>The session is accepted by its users\<close>

text \<open>
  The supervisor and the service read the token through the path that the session chose: the checks of
  \<open>token_file_from_environment\<close> accept that path as long as the directory is the one that \<open>token_session\<close> made.
\<close>

lemma components_segment:
  assumes "list_all (\<lambda>c. byte c \<noteq> 47) n" "rev acc @ n \<noteq> []" "r \<noteq> []"
  shows "components acc (n @ CHR 47 # r) = (rev acc @ n) # components [] r"
  using assms by (induction n arbitrary: acc) (auto simp: byte_def)

lemma components_last: "list_all (\<lambda>c. byte c \<noteq> 47) n \<Longrightarrow> rev acc @ n \<noteq> [] \<Longrightarrow> components acc n = [rev acc @ n]"
  by (induction n arbitrary: acc) auto

lemma session_name_segment: "session_name n \<Longrightarrow> list_all (\<lambda>c. byte c \<noteq> 47) n \<and> n \<noteq> []"
proof -
  assume n: "session_name n"
  then have "n = ''session-'' @ drop 8 n" by (metis append_take_drop_id session_name_def)
  moreover have "list_all (\<lambda>c. byte c \<noteq> 47) (drop 8 n)"
    using n by (auto simp: session_name_def alphanumeric_def list_all_iff)
  moreover have "list_all (\<lambda>c. byte c \<noteq> 47) ''session-''" by code_simp
  ultimately show ?thesis by (metis list_all_append append_is_Nil_conv list.distinct(1))
qed

lemma token_root_components:
  "r \<noteq> [] \<Longrightarrow> components [] (token_root @ ''/'' @ r) = components [] token_root @ components [] r"
  by (simp add: token_root_def byte_def)

lemma session_components:
  assumes "session_name n"
  shows "components [] (path_join token_root n) = components [] token_root @ [n]"
    "components [] (session_file token_root n) = components [] token_root @ [n, ''token.jwt'']"
proof -
  note s = session_name_segment [OF assms]
  show "components [] (path_join token_root n) = components [] token_root @ [n]"
    using s token_root_components [of n] components_last [of n "[]"] by (simp add: path_join_def)
  have "components [] ''token.jwt'' = [''token.jwt'']" by code_simp
  then have "components [] (n @ CHR 47 # ''token.jwt'') = [n, ''token.jwt'']"
    using s components_segment [of n "[]" "''token.jwt''"] by simp
  then show "components [] (session_file token_root n) = components [] token_root @ [n, ''token.jwt'']"
    using token_root_components [of "n @ CHR 47 # ''token.jwt''"] by (simp add: session_file_def path_join_def)
qed

lemma walk_place: "walk fs a cs = Inr y \<Longrightarrow> y = a @ cs"
proof (induction cs arbitrary: a)
  case (Cons c cs)
  then have "walk fs (a @ [c]) cs = Inr y" by (auto split: if_splits option.splits)
  with Cons.IH show ?case by fastforce
qed simp

lemma session_accepted:
  assumes "token_session me token_root c fs = (Inr s, fs')"
  shows "token_file_from_environment fs' me (Some (ts_file s)) = Inr (ts_file s) \<and>
    open_private_token_directory fs' me (components [] token_root @ [ts_name s]) = Inr (components [] token_root @ [ts_name s])"
proof -
  obtain dir names n where d: "open_path fs token_root = Inr dir" "cr_made c = Some (ts_name s, n)" "fs' = fs(dir @ [ts_name s] \<mapsto> n)"
    "session_name (ts_name s)" "ts_file s = session_file token_root (ts_name s)"
    and p: "\<exists>y. open_private_token_directory fs' me (components [] (path_join token_root (ts_name s))) = Inr y"
    using assms by (auto simp: token_session_def Let_def split: sum.splits if_splits option.splits prod.splits)
  note k = session_components [OF d(4)]
  have "open_private_token_directory fs me cs = Inr y \<Longrightarrow> y = cs" for fs cs y
    using walk_place [of fs "[]" cs] by (auto simp: open_private_token_directory_def ebind_eq_Inr split: option.splits if_splits)
  then have p: "open_private_token_directory fs' me (components [] token_root @ [ts_name s]) = Inr (components [] token_root @ [ts_name s])"
    using p k(1) by metis
  moreover have "is_absolute (session_file token_root (ts_name s))"
    by (simp add: is_absolute_def session_file_def path_join_def token_root_def byte_def)
  ultimately show ?thesis
    using d(4,5) k(2) by (simp add: token_file_from_environment_def Let_def butlast_append)
qed

section \<open>Properties\<close>

text \<open>C9: The token never outlives its lease: after every round of the bootstrap process, whatever the clocks, the answers
  and the failures of system calls, the token file is there only if its lease has not expired at the time of that round;
  it then holds a well-formed token and the process has not given up. A process that has given up starts no request.\<close>

theorem token_within_lease:
  assumes "running pid (Some i) s w"
  shows "(case get_file Root ''token.jwt'' w of
      None \<Rightarrow> \<not> bs_has_token s
    | Some f \<Rightarrow> \<not> lease_expired (bs_lease s) (r_wall i) (r_boot i) \<and> \<not> token_malformed (entry_bytes f) \<and>
        bs_has_token s \<and> \<not> bs_terminal s) \<and>
    \<not> (bs_terminal s \<and> bs_issue s)"
  using running_leased [OF assms] by (auto simp: leased_def guarded_def token_of_def split: option.splits)

text \<open>The first request is sent in the first round and answered with a token in the second.\<close>

definition quiet_place :: world where
  "quiet_place = \<lparr>dirs = (\<lambda>_. []), dir_ok = (\<lambda>_. True), script = [], memory = JNull\<rparr>"

definition demo_round :: "int \<Rightarrow> (string result \<times> int) option \<Rightarrow> round" where
  "demo_round boot answer = \<lparr>r_boot = boot, r_wall = 1000, r_child = None, r_answer = answer, r_jitter = Fin 0\<rparr>"

lemma demo_first: "bootstrap_round 7 (demo_round 5 None) initial_bootstrap quiet_place = (Done None, initial_bootstrap\<lparr>bs_issue := True\<rparr>, quiet_place)"
  by (simp add: bootstrap_round_def demo_round_def expire_token_def receive_answer_def start_request_def request_due_def initial_bootstrap_def
      m_simps)

lemma write_loop_fine: "script w = [] \<Longrightarrow> t \<noteq> [] \<Longrightarrow> write_loop p n d t w = (Done True, put_file p n (d @ t) w)"
  by (simp add: write_loop.simps)

lemma demo_file: "\<exists>w. atomic_private_file 7 ''a.b.c'' quiet_place = (Done (), w) \<and> script w = []"
  by (simp add: atomic_private_file_def temporary_token_def write_loop_fine or_unlink_def quiet_place_def io_simps put_file_def
      get_file_def Let_def rename_file_def drop_file_def split: option.splits)

lemma demo_second:
  "\<exists>s w f. bootstrap_round 7 (demo_round 77 (Some (Inr demo_response, 1000))) (initial_bootstrap\<lparr>bs_issue := True\<rparr>) quiet_place = (Done None, s, w) \<and>
     get_file Root ''token.jwt'' w = Some f \<and> script w = []"
proof -
  obtain w where w: "atomic_private_file 7 ''a.b.c'' quiet_place = (Done (), w)" "script w = []" using demo_file by blast
  have "world_ok quiet_place" by (simp add: world_ok_def quiet_place_def)
  from specD [OF atomic_private_file_spec [of 7 "''a.b.c''"] this] w have "get_file Root ''token.jwt'' w = Some (own ''a.b.c'')"
    by (simp add: token_of_def)
  then show ?thesis
    by (simp add: bootstrap_round_def demo_round_def expire_token_def receive_answer_def receive_credential_def store_token_def auth_state_def
      start_request_def request_due_def initial_bootstrap_def demo_credential m_simps w)
qed

theorem token_within_lease_witness:
  "\<exists>(s :: Bootstrap) (w :: world) f. get_file Root ''token.jwt'' w = Some f \<and> \<not> lease_expired (bs_lease s) 1000 77 \<and> \<not> token_malformed (entry_bytes f)"
proof -
  let ?i = "demo_round 77 (Some (Inr demo_response, 1000))"
  have w: "world_ok quiet_place" "token_of quiet_place = None"
    by (simp_all add: world_ok_def quiet_place_def token_of_def get_file_def)
  obtain s w f where s: "bootstrap_round 7 ?i (initial_bootstrap\<lparr>bs_issue := True\<rparr>) quiet_place = (Done None, s, w)"
    "get_file Root ''token.jwt'' w = Some f"
    using demo_second by blast
  have "running 7 (Some (demo_round 5 None)) (initial_bootstrap\<lparr>bs_issue := True\<rparr>) (quiet_place\<lparr>script := []\<rparr>)"
    by (rule running.Round [OF running.First [OF w] _ demo_first]) (simp add: demo_round_def)
  then have "running 7 (Some ?i) s (w\<lparr>script := []\<rparr>)"
    by (intro running.Round [OF _ _ s(1)]) (simp_all add: demo_round_def quiet_place_def)
  from token_within_lease [OF this] s(2) show ?thesis by (intro exI [of _ s] exI [of _ w] exI [of _ f]) (simp add: get_file_def demo_round_def)
qed

text \<open>C17: A bootstrap process that ends has removed the token file: the loop itself does so before every end of its own, by a signal or
  with its child, whether or not the destructor can do it again. When the loop ends with an exception instead, the status is 2 and the token is gone
  unless the one call of the destructor fails, whose result the code ignores.\<close>

theorem token_removed_at_exit:
  assumes "world_ok w" "get_file Root ''token.jwt'' w = None" "\<forall>i. Inr i \<in> set is \<longrightarrow> 0 \<le> r_wall i"
    and "bootstrap_main pid is w = (Done status, w')"
  shows "get_file Root ''token.jwt'' w' = None \<or>
    (\<exists>e s1 w1. bootstrap_loop pid is initial_bootstrap w = (Threw e, s1, w1) \<and> status = 2 \<and> remove_last w1 = (Done False, w'))"
proof -
  obtain r s w1 where r: "bootstrap_loop pid is initial_bootstrap w = (r, s, w1)" by (metis prod_cases3)
  have "guarded initial_bootstrap w" using assms(1,2) by (simp add: guarded_def initial_bootstrap_def token_of_def)
  from meetsD [OF loop_removes [OF assms(3), of pid] this] r
  have ok: "world_ok w1" and ends: "\<And>x. r = Done x \<Longrightarrow> get_file Root ''token.jwt'' w1 = None" by (auto simp: token_of_def split: outcome.splits)
  have gone: "get_file Root ''token.jwt'' (drop_file Root ''token.jwt'' (w1\<lparr>script := fs\<rparr>)) = None"
    "get_file Root ''token.jwt'' (drop_file Root ''token.jwt'' w1) = None" for fs
    using ok by (simp_all add: world_ok_def get_file_def drop_file_def)
  obtain b where b: "remove_last w1 = (Done b, w')" "status = (case r of Done status \<Rightarrow> status | _ \<Rightarrow> 2)" "r \<noteq> Crashed"
    using assms(4) by (auto simp: bootstrap_main_def r io_bind_def io_return_def split: outcome.splits prod.splits)
  then have "get_file Root ''token.jwt'' w' = None \<or> \<not> b \<and> get_file Root ''token.jwt'' w' = get_file Root ''token.jwt'' w1"
    using gone by (auto simp: remove_last_def syscall_def next_fault_def get_file_def split: list.splits fault.splits)
  then show ?thesis using r b ends by (cases r) auto
qed

text \<open>A process that has issued a token in its second round and is then interrupted.\<close>

theorem token_removed_at_exit_witness:
  "\<exists>w1 f w. (\<exists>s. bootstrap_round 7 (demo_round 77 (Some (Inr demo_response, 1000))) (initial_bootstrap\<lparr>bs_issue := True\<rparr>) quiet_place = (Done None, s, w1)) \<and>
     get_file Root ''token.jwt'' w1 = Some f \<and>
     bootstrap_main 7 [Inr (demo_round 5 None), Inr (demo_round 77 (Some (Inr demo_response, 1000)))] quiet_place = (Done 0, w) \<and>
     get_file Root ''token.jwt'' w = None"
proof -
  let ?is = "[Inr (demo_round 5 None), Inr (demo_round 77 (Some (Inr demo_response, 1000)))] :: round result list"
  have w: "world_ok quiet_place" "get_file Root ''token.jwt'' quiet_place = None"
    by (simp_all add: world_ok_def quiet_place_def get_file_def)
  obtain s1 w1 f where 1: "bootstrap_round 7 (demo_round 77 (Some (Inr demo_response, 1000))) (initial_bootstrap\<lparr>bs_issue := True\<rparr>) quiet_place = (Done None, s1, w1)"
    "get_file Root ''token.jwt'' w1 = Some f" "script w1 = []" using demo_second by blast
  let ?gone = "drop_file Root ''token.jwt'' w1"
  have "remove_token w1 = (Done (), ?gone)" "script ?gone = []"
    using 1(3) by (simp_all add: remove_token_def io_simps drop_file_def)
  then have loop: "bootstrap_loop 7 ?is initial_bootstrap quiet_place = (Done 0, s1, ?gone)"
    by (simp add: demo_first 1(1) m_bind_def m_io_def m_return_def)
  have "remove_last ?gone = (Done True, drop_file Root ''token.jwt'' ?gone)"
    using \<open>script ?gone = []\<close> by (simp add: remove_last_def syscall_def next_fault_def)
  with loop obtain w' where m: "bootstrap_main 7 ?is quiet_place = (Done 0, w')" by (simp add: bootstrap_main_def io_bind_def io_return_def)
  have "\<forall>i. Inr i \<in> set ?is \<longrightarrow> 0 \<le> r_wall i" by (simp add: demo_round_def)
  from token_removed_at_exit [OF w this m] loop m 1 show ?thesis by auto
qed

end
