(* ===== verification/Contexts.thy ===== *)
theory Contexts
  imports Session
begin

text \<open>
  The contexts of the calls of one session (\<^verbatim>\<open>subscribe\<close> of \<^verbatim>\<open>runtime/grpc_main.cpp\<close>). The watcher cancels them when the inputs of the
  session change, while the subscription thread and the advisory thread make new ones. Each step is an access to an atomic
  variable or a critical section of \<^verbatim>\<open>context_mutex\<close>, and the steps of the threads interleave in any way.
\<close>

section \<open>The shared variables\<close>

text \<open>Contexts are named by the order in which they were made; \<open>cx_cancelled\<close> are those that \<^verbatim>\<open>TryCancel\<close> was called on.\<close>

record Contexts =
  cx_active :: "nat option"
  cx_advisory :: "nat option"
  cx_cancelled :: "nat list"
  cx_made :: nat
  cx_invalid :: bool
  cx_cause :: SessionInputChange

definition no_contexts :: Contexts where
  "no_contexts = \<lparr>cx_active = None, cx_advisory = None, cx_cancelled = [], cx_made = 0, cx_invalid = False, cx_cause = InputsNone\<rparr>"

definition try_cancel :: "nat option \<Rightarrow> Contexts \<Rightarrow> Contexts" where
  "try_cancel context c = (case context of None \<Rightarrow> c | Some n \<Rightarrow> c\<lparr>cx_cancelled := n # cx_cancelled c\<rparr>)"

text \<open>The critical section of the watcher.\<close>

definition cancel_contexts :: "Contexts \<Rightarrow> Contexts" where
  "cancel_contexts c = try_cancel (cx_advisory c) (try_cancel (cx_active c) c)"

text \<open>The critical sections of the threads that make a context, and of the advisory thread when its call has returned.\<close>

definition register_active :: "nat \<Rightarrow> Contexts \<Rightarrow> Contexts" where
  "register_active n c = (let c1 = c\<lparr>cx_active := Some n\<rparr> in if cx_invalid c1 then try_cancel (Some n) c1 else c1)"

definition register_advisory :: "nat \<Rightarrow> Contexts \<Rightarrow> Contexts" where
  "register_advisory n c = (let c1 = c\<lparr>cx_advisory := Some n\<rparr> in if cx_invalid c1 then try_cancel (Some n) c1 else c1)"

definition release_advisory :: "Contexts \<Rightarrow> Contexts" where
  "release_advisory c = c\<lparr>cx_advisory := None\<rparr>"

definition new_context :: "Contexts \<Rightarrow> nat \<times> Contexts" where
  "new_context c = (cx_made c, c\<lparr>cx_made := cx_made c + 1\<rparr>)"

text \<open>\<^verbatim>\<open>SessionInterruption::observe\<close>, whose interleavings \<open>observe_linearizable\<close> reduces to this step.\<close>

definition raise_cause :: "SessionInputChange \<Rightarrow> Contexts \<Rightarrow> Contexts" where
  "raise_cause change c = c\<lparr>cx_cause := max (cx_cause c) change\<rparr>"

section \<open>The threads\<close>

text \<open>
  The watcher marks the session as invalid before it takes the lock; the subscription thread and the advisory thread hold
  a context that they have made and not yet registered.
\<close>

datatype watcher = Watching | Revoking

record Threads =
  th_contexts :: Contexts
  th_watcher :: watcher
  th_subscriber :: "nat option"
  th_publisher :: "nat option"

definition initial_threads :: Threads where
  "initial_threads = \<lparr>th_contexts = no_contexts, th_watcher = Watching, th_subscriber = None, th_publisher = None\<rparr>"

inductive thread_step :: "Threads \<Rightarrow> Threads \<Rightarrow> bool" where
  observe: "thread_step t (t\<lparr>th_contexts := raise_cause change (th_contexts t)\<rparr>)"
| mark: "thread_step t (t\<lparr>th_contexts := (th_contexts t)\<lparr>cx_invalid := True\<rparr>, th_watcher := Revoking\<rparr>)"
    if "th_watcher t = Watching" "cx_cause (th_contexts t) \<noteq> InputsNone"
| revoke: "thread_step t (t\<lparr>th_contexts := cancel_contexts (th_contexts t), th_watcher := Watching\<rparr>)"
    if "th_watcher t = Revoking"
| make_active: "thread_step t (t\<lparr>th_contexts := c, th_subscriber := Some n\<rparr>)"
    if "th_subscriber t = None" "new_context (th_contexts t) = (n, c)"
| activate: "thread_step t (t\<lparr>th_contexts := register_active n (th_contexts t), th_subscriber := None\<rparr>)"
    if "th_subscriber t = Some n"
| make_advisory: "thread_step t (t\<lparr>th_contexts := c, th_publisher := Some n\<rparr>)"
    if "th_publisher t = None" "new_context (th_contexts t) = (n, c)"
| advise: "thread_step t (t\<lparr>th_contexts := register_advisory n (th_contexts t), th_publisher := None\<rparr>)"
    if "th_publisher t = Some n"
| release: "thread_step t (t\<lparr>th_contexts := release_advisory (th_contexts t)\<rparr>)"

section \<open>Nothing stays uncancelled\<close>

definition registered :: "Contexts \<Rightarrow> nat set" where
  "registered c = set_option (cx_active c) \<union> set_option (cx_advisory c)"

definition revoked :: "Contexts \<Rightarrow> bool" where
  "revoked c \<longleftrightarrow> cx_invalid c \<and> registered c \<subseteq> set (cx_cancelled c)"

lemmas context_defs = registered_def revoked_def try_cancel_def cancel_contexts_def register_active_def register_advisory_def
  release_advisory_def new_context_def raise_cause_def Let_def

text \<open>Until the watcher has taken the lock the contexts that are registered may be uncancelled; afterwards none is.\<close>

definition watched :: "Threads \<Rightarrow> bool" where
  "watched t \<longleftrightarrow>
     (cx_invalid (th_contexts t) \<longrightarrow> cx_cause (th_contexts t) \<noteq> InputsNone \<and> (th_watcher t = Watching \<longrightarrow> revoked (th_contexts t)))"

lemma max_cause: "a \<noteq> InputsNone \<Longrightarrow> max a b \<noteq> InputsNone"
  by (cases a; cases b) (auto simp: max_def less_eq_SessionInputChange_def)

lemma thread_step_watched: "thread_step t t' \<Longrightarrow> watched t \<Longrightarrow> watched t'"
  by (induction rule: thread_step.induct) (auto simp: watched_def context_defs max_cause split: option.splits)

lemma thread_step_revoked: "thread_step t t' \<Longrightarrow> revoked (th_contexts t) \<Longrightarrow> revoked (th_contexts t')"
  by (induction rule: thread_step.induct) (auto simp: context_defs split: option.splits)

interpretation watch: step_invariant thread_step watched
  by unfold_locales (rule thread_step_watched)

interpretation revocation: step_invariant thread_step "\<lambda>t. revoked (th_contexts t)"
  by unfold_locales (rule thread_step_revoked)

lemma thread_step_cause: "thread_step t t' \<Longrightarrow> cx_cause (th_contexts t) \<le> cx_cause (th_contexts t')"
  by (induction rule: thread_step.induct) (auto simp: context_defs split: option.splits)

interpretation session_cause: step_progress thread_step "\<lambda>t. cx_cause (th_contexts t)"
  by unfold_locales (rule thread_step_cause)

section \<open>Properties\<close>

text \<open>C14: Once the watcher has seen a change of the inputs and cancelled the calls, every context that is registered then or
  later is cancelled, however the threads interleave, so no call goes on with the inputs that were replaced; and the cause
  never returns to none.\<close>

theorem contexts_revoked:
  assumes "thread_step\<^sup>*\<^sup>* initial_threads t" "thread_step\<^sup>*\<^sup>* t t'" "cx_invalid (th_contexts t)" "th_watcher t = Watching"
  shows "(\<forall>n. cx_active (th_contexts t') = Some n \<or> cx_advisory (th_contexts t') = Some n \<longrightarrow> n \<in> set (cx_cancelled (th_contexts t'))) \<and>
    cx_invalid (th_contexts t') \<and> cx_cause (th_contexts t') \<noteq> InputsNone"
proof -
  have "watched initial_threads" by (simp add: watched_def initial_threads_def no_contexts_def)
  then have "watched t" by (rule watch.always [OF assms(1)])
  then have r: "revoked (th_contexts t)" "cx_cause (th_contexts t) \<noteq> InputsNone" using assms(3,4) by (auto simp: watched_def)
  have "revoked (th_contexts t')" by (rule revocation.always [OF assms(2) r(1)])
  moreover have "cx_cause (th_contexts t') \<noteq> InputsNone"
    using session_cause.never_falls [OF assms(2)] r(2) by (cases "cx_cause (th_contexts t)") (auto simp: less_eq_SessionInputChange_def)
  ultimately show ?thesis by (auto simp: revoked_def registered_def)
qed

text \<open>The token is replaced while the subscription thread has made a context and not yet registered it.\<close>

theorem contexts_revoked_witness:
  "\<exists>t'. thread_step\<^sup>*\<^sup>* initial_threads t' \<and> cx_active (th_contexts t') = Some 0 \<and> 0 \<in> set (cx_cancelled (th_contexts t'))"
proof -
  let ?t1 = "initial_threads\<lparr>th_contexts := raise_cause TokenReplaced no_contexts\<rparr>"
  let ?t2 = "?t1\<lparr>th_contexts := snd (new_context (th_contexts ?t1)), th_subscriber := Some 0\<rparr>"
  let ?t3 = "?t2\<lparr>th_contexts := (th_contexts ?t2)\<lparr>cx_invalid := True\<rparr>, th_watcher := Revoking\<rparr>"
  let ?t4 = "?t3\<lparr>th_contexts := cancel_contexts (th_contexts ?t3), th_watcher := Watching\<rparr>"
  let ?t5 = "?t4\<lparr>th_contexts := register_active 0 (th_contexts ?t4), th_subscriber := None\<rparr>"
  have s1: "thread_step initial_threads ?t1" using observe [of initial_threads TokenReplaced] by (simp add: initial_threads_def)
  have s2: "thread_step ?t1 ?t2" by (rule make_active) (simp_all add: initial_threads_def new_context_def raise_cause_def no_contexts_def)
  have s3: "thread_step ?t2 ?t3"
    by (rule mark) (simp_all add: initial_threads_def new_context_def raise_cause_def no_contexts_def max_def less_eq_SessionInputChange_def)
  have s4: "thread_step ?t3 ?t4" by (rule revoke) simp
  have s5: "thread_step ?t4 ?t5" by (rule activate) simp
  have r: "thread_step\<^sup>*\<^sup>* initial_threads ?t4" using s1 s2 s3 s4 by (meson converse_rtranclp_into_rtranclp rtranclp.rtrancl_refl)
  have i: "cx_invalid (th_contexts ?t4)" "cx_active (th_contexts ?t5) = Some 0"
    by (simp_all add: cancel_contexts_def try_cancel_def register_active_def Let_def split: option.splits)
  from contexts_revoked [OF r r_into_rtranclp [of thread_step, OF s5] i(1)] i(2) r s5 show ?thesis
    by (intro exI [of _ ?t5]) auto
qed

end
