(* ===== verification/Subscribe.thy ===== *)
theory Subscribe
  imports Service Bootstrap Contexts
begin

text \<open>
  A session with the KUKSA server and the main thread of the service (\<^verbatim>\<open>subscribe\<close> and \<^verbatim>\<open>main\<close> of \<^verbatim>\<open>runtime/grpc_main.cpp\<close>): what is requested,
  how a session opens, reads and ends, and what the main thread does after it. The outcomes of the gRPC calls and of the reads
  of the input files are given; the threads that run beside the session are in \<^verbatim>\<open>Service\<close> and \<^verbatim>\<open>Contexts\<close>.
\<close>

section \<open>What is requested\<close>

datatype view = ViewMetadata | ViewCurrentValue

record requested =
  rq_path :: string
  rq_view :: view
  rq_value_field :: bool

definition get_request :: "requested list" where
  "get_request =
     map (\<lambda>path. \<lparr>rq_path = path, rq_view = ViewMetadata, rq_value_field = False\<rparr>) (paths @ [request_path, status_path, readiness_path])"

definition subscription_request :: "requested list" where
  "subscription_request =
     map (\<lambda>path. \<lparr>rq_path = path, rq_view = ViewCurrentValue, rq_value_field = True\<rparr>) (paths @ [status_path])"

section \<open>A session\<close>

datatype grpc_code = StatusOk | StatusCancelled | StatusUnauthenticated | StatusPermissionDenied | StatusOther

text \<open>
  What the session reads: the files, the environment and its token, the answer to the request for metadata, the updates, each
  with whether the session was to end when it came, how the stream ended, and the looks of the pause that follows the session. The changes are those that
  \<^verbatim>\<open>SessionInterruption\<close> has observed when the cause is read, and \<open>stopping\<close> stands for \<^verbatim>\<open>stop || interrupted\<close> then.
\<close>

record session_input =
  si_metadata :: "string result"
  si_ca :: "string result"
  si_nodes :: nodes
  si_process :: process
  si_token_path :: "string option"
  si_token :: opened
  si_get_code :: grpc_code
  si_get_response :: get_response
  si_get_changes :: "SessionInputChange list"
  si_get_stopping :: bool
  si_updates :: "(update \<times> bool) list"
  si_stream_code :: grpc_code
  si_stream_changes :: "SessionInputChange list"
  si_stream_stopping :: bool
  si_looks :: "bool list"

definition cause_of :: "SessionInputChange list \<Rightarrow> SessionInputChange" where
  "cause_of changes = cx_cause (fold raise_cause changes no_contexts)"

definition session_token :: "session_input \<Rightarrow> string result" where
  "session_token i =
     ebind (token_file_from_environment (si_nodes i) (si_process i) (si_token_path i)) (\<lambda>path.
       read_private_token (emap (\<lambda>_. ()) (open_private_token_directory (si_nodes i) (si_process i) (butlast (components [] path))))
         (si_token i))"

text \<open>\<open>True\<close> stands for the exception \<^verbatim>\<open>ReauthenticationRequired\<close>, which nothing but \<^verbatim>\<open>main\<close> catches.\<close>

definition renewal :: "SessionInputChange list \<Rightarrow> bool \<Rightarrow> bool" where
  "renewal changes stopping \<longleftrightarrow> cause_of changes = TokenReplaced \<and> \<not> stopping"

definition get_outcome :: "session_input \<Rightarrow> bool result" where
  "get_outcome i =
     (if si_get_code i = StatusOk then Inr False
      else if si_get_code i = StatusCancelled \<and> renewal (si_get_changes i) (si_get_stopping i) then Inr True
      else Inl (RuntimeError (if si_get_code i = StatusUnauthenticated \<or> si_get_code i = StatusPermissionDenied
             then ''KUKSA_AUTH_UNAVAILABLE'' else ''KUKSA_DATA_UNAVAILABLE'')))"

definition open_session :: "ApplicationInputs \<Rightarrow> session_input \<Rightarrow> bool sv" where
  "open_session inputs i =
     m_bind (m_lift (si_metadata i)) (\<lambda>bytes.
     m_bind (m_lift (runtime_metadata inputs bytes)) (\<lambda>m.
     m_bind (on_runtime (update_vdp_metadata m)) (\<lambda>_.
     m_bind (m_lift (si_ca i)) (\<lambda>ca.
     m_bind (m_lift (session_token i)) (\<lambda>_.
     m_bind (m_set (\<lambda>s. s\<lparr>sv_transport := snd (transport_channel ca (sv_transport s))\<rparr>)) (\<lambda>_.
     m_bind (m_lift (get_outcome i)) (\<lambda>again.
     if again then m_return True else
     m_bind (m_lift (verify_metadata (si_get_response i))) (\<lambda>_.
     m_bind metadata_accepted (\<lambda>_. m_return False)))))))))"

fun read_loop :: "(update \<times> bool) list \<Rightarrow> Subscription \<Rightarrow> unit sv" where
  "read_loop [] sub = m_return ()"
| "read_loop ((u, over) # us) sub = (if over then m_return () else m_bind (handle_update u sub) (\<lambda>sub'. read_loop us sub'))"

definition close_session :: "session_input \<Rightarrow> bool sv" where
  "close_session i =
     (if (si_stream_code i = StatusOk \<or> si_stream_code i = StatusCancelled) \<and> renewal (si_stream_changes i) (si_stream_stopping i)
      then m_return True else m_bind session_closed (\<lambda>_. m_return False))"

definition subscribe :: "ApplicationInputs \<Rightarrow> session_input \<Rightarrow> bool sv" where
  "subscribe inputs i =
     m_bind (open_session inputs i) (\<lambda>again.
     if again then m_return True
     else m_bind (read_loop (si_updates i) initial_subscription) (\<lambda>_. close_session i))"

section \<open>The main thread\<close>

text \<open>The text of an exception; those of the standard library have texts that the handler does not compare with.\<close>

fun what :: "exn \<Rightarrow> string" where
  "what (InvalidArgument s) = s"
| "what (RuntimeError s) = s"
| "what _ = []"

text \<open>A renewal goes on at once; after every other end the thread waits a second.\<close>

definition session_ended :: "session_input \<Rightarrow> bool outcome \<Rightarrow> unit sv" where
  "session_ended i ended =
     (case ended of
        Done again \<Rightarrow> if again then token_renewed else m_bind clear_transport (\<lambda>_. pause (si_looks i) 1000)
      | Threw e \<Rightarrow> m_bind (session_failed (what e)) (\<lambda>_. pause (si_looks i) 1000)
      | Crashed \<Rightarrow> (\<lambda>s w. (Crashed, s, w)))"

definition session_round :: "ApplicationInputs \<Rightarrow> session_input \<Rightarrow> unit sv" where
  "session_round inputs i s w = (case subscribe inputs i s w of (ended, s', w') \<Rightarrow> session_ended i ended s' w')"

text \<open>The sessions until the process is interrupted, which is the end of the list.\<close>

fun session_loop :: "ApplicationInputs \<Rightarrow> session_input list \<Rightarrow> unit sv" where
  "session_loop inputs [] = m_bind (on_runtime stop) (\<lambda>_. log_event ''SERVICE_STOPPED'' ''STOPPED'' ''NONE'')"
| "session_loop inputs (i # is) = m_bind (session_round inputs i) (\<lambda>_. session_loop inputs is)"

definition service_body :: "ApplicationInputs \<Rightarrow> session_input list \<Rightarrow> unit sv" where
  "service_body inputs is = m_bind (log_event ''SERVICE_STARTED'' ''RUNNING'' ''NONE'') (\<lambda>_. session_loop inputs is)"

text \<open>The outer handler of \<^verbatim>\<open>main\<close>, once the runtime is there: the exit status.\<close>

definition run_service :: "ApplicationInputs \<Rightarrow> session_input list \<Rightarrow> int sv" where
  "run_service inputs is =
     m_catch (m_bind (service_body inputs is) (\<lambda>_. m_return 0))
       (m_bind (log_event ''READINESS_CHANGED'' ''NOT_READY'' ''STATE_INVALID'') (\<lambda>_. m_return 2))"

section \<open>Every request is answered for\<close>

text \<open>What is subscribed to is described first, and no path of the subscription ends a session as one that was not requested.\<close>

lemma subscription_described: "rq_path ` set subscription_request \<subseteq> rq_path ` set get_request"
  by (auto simp: subscription_request_def get_request_def image_image)

lemma subscription_known:
  assumes "q \<in> set subscription_request"
  shows "rq_path q = status_path \<or> (\<exists>k<15. path_index (rq_path q) = Inr k)"
proof (cases "rq_path q = status_path")
  case False
  then have "rq_path q \<in> set paths" using assms by (auto simp: subscription_request_def)
  then obtain k where k: "position (rq_path q) paths = Some k" using position_in by metis
  then have "k < 15" using position_nth [OF k] by (simp add: paths_def)
  with k show ?thesis by (simp add: path_index_def)
qed simp

section \<open>The main thread uses the public methods\<close>

lemma follows_read_loop [follows_intros]: "follows silent (read_loop us sub)"
  by (induction us sub rule: read_loop.induct) (auto intro!: follows_intros)

lemma follows_subscribe: "follows silent (subscribe inputs i)"
  unfolding subscribe_def open_session_def close_session_def
  by (intro follows_intros follows_set) (simp_all add: sv_requests_def)

lemma follows_round: "follows silent (session_round inputs i)"
  unfolding follows_def
proof (intro allI impI)
  fix s w r s' w'
  assume *: "session_round inputs i s w = (r, s', w')" "r \<noteq> Crashed"
  obtain q s1 w1 where q: "subscribe inputs i s w = (q, s1, w1)" by (metis prod_cases3)
  then have e: "session_ended i q s1 w1 = (r, s', w')" using * by (simp add: session_round_def)
  have "q \<noteq> Crashed" using e *(2) by (auto simp: session_ended_def)
  moreover from this have "follows silent (session_ended i q)" unfolding session_ended_def by (cases q) (auto intro!: follows_intros)
  ultimately show "passes silent (s, w) (s', w')"
    using passes_trans [OF followsD [OF follows_subscribe q]] followsD [of silent "session_ended i q" s1 w1 r s' w'] e *(2) by blast
qed

lemma follows_service: "follows silent (run_service inputs is)"
proof -
  have "follows silent (session_loop inputs is)" by (induction "is") (auto intro!: follows_intros follows_round)
  then show ?thesis unfolding run_service_def service_body_def by (intro follows_intros)
qed

section \<open>What can leave the main thread\<close>

lemma advances_items [clock_intros]: "advances (apply_items seen vs es)"
proof (induction seen vs es rule: apply_items.induct)
  case (2 seen vs e es)
  have "advances (case de_value e of Some v \<Rightarrow> (case dp_value v of PointString t \<Rightarrow> gateway_answer t | _ \<Rightarrow> m_return ())
      | None \<Rightarrow> m_return ())"
    by (auto intro!: clock_intros simp: gateway_answer_def split: option.splits point_value.splits)
  then show ?case using 2 unfolding apply_items.simps by (intro advances_branch(2) advances_bind advances_plain) auto
qed (unfold apply_items.simps, rule advances_plain)

lemma advances_update [clock_intros]: "advances (handle_update u sub)"
  unfolding handle_update_def complete_episode_def report_readiness_def by (auto intro!: clock_intros split: option.splits)

lemma advances_ends [clock_intros]:
  "advances metadata_accepted" "advances session_closed" "advances token_renewed" "advances clear_transport" "advances (session_failed err)"
  unfolding metadata_accepted_def session_closed_def token_renewed_def clear_transport_def session_failed_def Let_def
  by (intro clock_intros advances_set; simp)+

lemma advances_read_loop [clock_intros]: "advances (read_loop us sub)"
  by (induction us sub rule: read_loop.induct) (auto intro!: clock_intros)

lemma advances_subscribe: "advances (subscribe inputs i)"
  unfolding subscribe_def open_session_def close_session_def by (intro clock_intros advances_set) simp

lemma advances_ended: "advances (session_ended i q)"
proof (cases q)
  case Crashed
  then show ?thesis by (auto simp: session_ended_def intro!: advances_same)
qed (auto simp: session_ended_def intro!: clock_intros)

lemma advances_round [clock_intros]: "advances (session_round inputs i)"
  unfolding advances_def
proof (intro allI impI)
  fix s w r s' w'
  assume *: "session_round inputs i s w = (r, s', w')"
  obtain q s1 w1 where q: "subscribe inputs i s w = (q, s1, w1)" by (metis prod_cases3)
  then have "session_ended i q s1 w1 = (r, s', w')" using * by (simp add: session_round_def)
  then obtain k where "sv_clocks s' = sdrop k (sv_clocks s1)" using advances_ended unfolding advances_def by blast
  moreover obtain n where "sv_clocks s1 = sdrop n (sv_clocks s)" using q advances_subscribe unfolding advances_def by blast
  ultimately show "\<exists>n. sv_clocks s' = sdrop n (sv_clocks s)" by (auto simp: sdrop_add)
qed

lemma advances_body: "advances (service_body inputs is)"
proof -
  have "advances (session_loop inputs is)" by (induction "is") (auto intro!: clock_intros)
  then show ?thesis unfolding service_body_def by (intro clock_intros)
qed

text \<open>The outer handler ends every exception but those of a clock that fails while it writes to the log.\<close>

lemma main_text:
  "list_all plain_char ''READINESS_CHANGED''" "list_all plain_char ''NOT_READY''" "list_all plain_char ''STATE_INVALID''"
  by code_simp+

lemma blames_service: "blames (run_service inputs is)"
  unfolding run_service_def by (intro clock_intros advances_body blames_log main_text)

section \<open>The transport\<close>

definition keeps_transport :: "'a sv \<Rightarrow> bool" where
  "keeps_transport m \<longleftrightarrow> (\<forall>s w r s' w'. m s w = (r, s', w') \<longrightarrow> sv_transport s' = sv_transport s)"

named_theorems keeps_intros \<open>methods that leave the transport as it is\<close>

lemma keeps_runtime [keeps_intros]:
  "keeps_transport (on_runtime m)" "keeps_transport (log_about event state reason source_event)" "keeps_transport m_clock" "keeps_transport (m_return x)"
  by (auto simp: keeps_transport_def on_runtime_def log_about_def m_clock_def m_simps split: prod.splits sum.splits)

lemma keeps_bind [keeps_intros]: "keeps_transport m \<Longrightarrow> (\<And>x. keeps_transport (f x)) \<Longrightarrow> keeps_transport (m_bind m f)"
  unfolding keeps_transport_def m_bind_def by (fastforce split: prod.splits outcome.splits)

lemma keeps_if [keeps_intros]: "keeps_transport m \<Longrightarrow> keeps_transport n \<Longrightarrow> keeps_transport (if b then m else n)"
  by simp

lemma keeps_pause [keeps_intros]: "keeps_transport (pause looks ms)"
proof -
  have "keeps_transport (pause_until limit looks)" for limit by (induction looks) (auto intro!: keeps_intros)
  then show ?thesis unfolding pause_def by (intro keeps_intros)
qed

lemma keeps_after_clear:
  assumes "m_bind clear_transport f s w = (r, s', w')" "keeps_transport (f ())"
  shows "st_channel (sv_transport s') = None"
proof -
  have "f () (s\<lparr>sv_transport := transport_clear (sv_transport s)\<rparr>) w = (r, s', w')"
    using assms(1) by (simp add: m_bind_def clear_transport_def m_set_def)
  with assms(2) have "sv_transport s' = sv_transport (s\<lparr>sv_transport := transport_clear (sv_transport s)\<rparr>)"
    unfolding keeps_transport_def by metis
  then show ?thesis by (simp add: transport_clear_def)
qed

lemma ended_clears:
  assumes "session_ended i q s w = (r, s', w')" "q \<noteq> Done True" "r \<noteq> Crashed"
  shows "st_channel (sv_transport s') = None"
proof (cases q)
  case (Done again)
  then have "m_bind clear_transport (\<lambda>_. pause (si_looks i) 1000) s w = (r, s', w')" using assms by (simp add: session_ended_def)
  then show ?thesis by (rule keeps_after_clear) (rule keeps_pause)
next
  case (Threw e)
  then have "m_bind (session_failed (what e)) (\<lambda>_. pause (si_looks i) 1000) s w = (r, s', w')" using assms by (simp add: session_ended_def)
  then show ?thesis unfolding session_failed_def m_bind_assoc Let_def by (rule keeps_after_clear) (intro keeps_intros)
qed (use assms in \<open>auto simp: session_ended_def\<close>)

lemma cause_fold: "cx_cause (fold raise_cause changes c) = fold max changes (cx_cause c)"
  by (induction changes arbitrary: c) (simp_all add: raise_cause_def max.commute)

lemma cause_of_replaced:
  assumes "cause_of changes = TokenReplaced"
  shows "TokenReplaced \<in> set changes" "InputsUnavailable \<notin> set changes"
proof -
  have "cause_of changes = Max (set (InputsNone # changes))"
    unfolding cause_of_def cause_fold Max.set_eq_fold by (simp add: no_contexts_def)
  then have m: "Max (insert InputsNone (set changes)) = TokenReplaced" using assms by simp
  then show "TokenReplaced \<in> set changes" using Max_in [of "insert InputsNone (set changes)"] by auto
  show "InputsUnavailable \<notin> set changes"
    using m Max_ge [of "insert InputsNone (set changes)" InputsUnavailable] by auto
qed

lemma m_bind_Done: "m_bind m f s w = (Done y, s', w') \<longleftrightarrow> (\<exists>x s1 w1. m s w = (Done x, s1, w1) \<and> f x s1 w1 = (Done y, s', w'))"
  by (auto simp: m_bind_def split: prod.splits outcome.splits)

lemma m_lift_Done: "m_lift r s w = (Done x, s', w') \<longleftrightarrow> r = Inr x \<and> s' = s \<and> w' = w"
  by (auto simp: m_lift_def m_throw_def m_return_def split: sum.splits)

lemma subscribe_again:
  assumes "subscribe inputs i s w = (Done True, s', w')"
  shows "renewal (si_get_changes i) (si_get_stopping i) \<and> si_get_code i = StatusCancelled \<or> renewal (si_stream_changes i) (si_stream_stopping i)"
proof -
  obtain again s1 w1 where o: "open_session inputs i s w = (Done again, s1, w1)"
    and r: "(if again then m_return True else m_bind (read_loop (si_updates i) initial_subscription) (\<lambda>_. close_session i)) s1 w1 = (Done True, s', w')"
    using assms unfolding subscribe_def m_bind_Done by blast
  show ?thesis
  proof (cases again)
    case True
    then have "get_outcome i = Inr True"
      using o unfolding open_session_def m_bind_Done m_lift_Done by (auto simp: m_bind_Done m_return_def split: if_splits)
    then show ?thesis by (auto simp: get_outcome_def split: if_splits)
  next
    case False
    then obtain s2 w2 where "close_session i s2 w2 = (Done True, s', w')" using r by (auto simp: m_bind_Done)
    then show ?thesis by (auto simp: close_session_def m_bind_Done m_return_def split: if_splits)
  qed
qed

section \<open>Properties\<close>

text \<open>C15: The transport of a session is kept for the next one only when the session ended for a planned replacement of the
  token: its cause then comes from at least one replacement of the token, no input was missing or changed beside it, and the process was not
  stopping. After every other end, with whatever error, the transport is dropped.\<close>

theorem transport_kept_for_renewal:
  assumes "session_round inputs i s w = (r, s', w')" "r \<noteq> Crashed" "st_channel (sv_transport s') \<noteq> None"
  shows "\<exists>changes. (changes, False) \<in> {(si_get_changes i, si_get_stopping i), (si_stream_changes i, si_stream_stopping i)} \<and>
    TokenReplaced \<in> set changes \<and> InputsUnavailable \<notin> set changes"
proof -
  obtain q s1 w1 where q: "subscribe inputs i s w = (q, s1, w1)" by (metis prod_cases3)
  then have "q = Done True" using assms ended_clears by (fastforce simp: session_round_def)
  then have "renewal (si_get_changes i) (si_get_stopping i) \<or> renewal (si_stream_changes i) (si_stream_stopping i)"
    using subscribe_again q by blast
  then show ?thesis using cause_of_replaced unfolding renewal_def by blast
qed

text \<open>A session in which the token is replaced while the server is asked for its metadata.\<close>

definition demo_public :: string where
  "demo_public = ''{\"schemaVersion\":2,\"unitRole\":\"validation\",\"unitSystemUid\":\"unit-1\",\"vdpContractSha256\":\"aaaaaaaaaaaaaaaaaaaaaaaaaaaaaaaaaaaaaaaaaaaaaaaaaaaaaaaaaaaaaaaa\",\"vdpContractVersion\":\"1.0.0\"}''"

definition demo_inputs :: ApplicationInputs where
  "demo_inputs = \<lparr>metadata_file = ''/m'', ca_file = ''/c'',
     native = Some \<lparr>native_version = ''1.2.0'', native_instance = the (service_instance sample_metadata)\<rparr>\<rparr>"

definition demo_session :: session_input where
  "demo_session =
     \<lparr>si_metadata = Inr demo_public, si_ca = Inr ''ca'', si_nodes = (\<lambda>_. Some \<lparr>node_directory = True, node_uid = 7, node_gid = 7, node_mode = 448\<rparr>),
      si_process = \<lparr>proc_uid = 7, proc_gid = 7\<rparr>, si_token_path = Some (session_file token_root ''session-abc123''),
      si_token = Opened (Some \<lparr>st_regular = True, st_owner_ok = True, st_nlink = 1, st_mode = 256, st_size = 5\<rparr>) [ReadChunk ''a.b.c''],
      si_get_code = StatusCancelled, si_get_response = \<lparr>gr_has_error = False, gr_errors = 0, gr_entries = []\<rparr>,
      si_get_changes = [InputsNone, TokenReplaced], si_get_stopping = False, si_updates = [], si_stream_code = StatusOk,
      si_stream_changes = [], si_stream_stopping = False, si_looks = []\<rparr>"

definition sample_service :: Service where
  "sample_service = demo_service\<lparr>sv_runtime := fresh_runtime True sample_metadata\<rparr>"

lemma demo_public_item:
  "item (json_fuel demo_public) 0 demo_public = Inr (JObject (public_object ''validation'' sample_metadata), [])"
  by code_simp

lemma demo_public_metadata: "runtime_metadata demo_inputs demo_public = Inr sample_metadata"
proof -
  have "length demo_public \<le> 8192" by (simp add: demo_public_def)
  then have "parse_json demo_public 8192 = Inr (JObject (public_object ''validation'' sample_metadata))"
    by (simp add: parse_json_def demo_public_item space_def)
  moreover have "native_identifier ''unit-1''" "package_version ''1.0.0''" "package_version ''1.2.0''" "is_sha256 (replicate 64 (CHR ''a''))"
    "native_instance_valid (the (service_instance sample_metadata))"
    by code_simp+
  ultimately show ?thesis
    by (simp add: runtime_metadata_def demo_inputs_def parse_metadata_def object_access public_object_def role_name_def
        sample_metadata_def)
qed

lemma demo_session_token: "session_token demo_session = Inr ''a.b.c''"
proof -
  have name: "session_name ''session-abc123''" by code_simp
  note c = session_components [OF name]
  have "components [] token_root = [''run'', ''aosedge'', ''secrets'', ''kuksa'']" by code_simp
  moreover have "is_absolute (session_file token_root ''session-abc123'')"
    by (simp add: is_absolute_def session_file_def path_join_def token_root_def byte_def)
  moreover have "\<not> token_malformed ''a.b.c''"
    by (simp add: token_malformed_def token_char_def is_lower_def is_upper_def is_digit_def byte_def)
  ultimately show ?thesis
    using name by (simp add: session_token_def demo_session_def token_file_from_environment_def Let_def c open_private_token_directory_def
        read_private_token_def stat_rejected_def)
qed

definition stays_up :: "('s, 'a) method_of \<Rightarrow> bool" where
  "stays_up m \<longleftrightarrow> (\<forall>s w. fst (m s w) \<noteq> Crashed)"

lemma stays_up_bind: "stays_up m \<Longrightarrow> (\<And>x. stays_up (f x)) \<Longrightarrow> stays_up (m_bind m f)"
  unfolding stays_up_def m_bind_def by (auto split: prod.splits outcome.splits) (metis fst_conv)

lemma stays_up_plain: "stays_up (m_get f)" "stays_up (m_set g)" "stays_up (m_lift r)" "stays_up m \<Longrightarrow> stays_up (on_runtime m)"
  "stays_up (log_about event state reason source_event)"
  by (auto simp: stays_up_def m_simps on_runtime_def log_about_def split: sum.splits prod.splits) (metis fst_conv)

lemma renewed_ends:
  assumes "token_renewed s w = (r, s', w')"
  shows "r \<noteq> Crashed \<and> sv_transport s' = sv_transport s"
proof -
  have "stays_up token_renewed"
    unfolding token_renewed_def reauthenticate_def rt_facts_def by (intro stays_up_bind stays_up_plain)
  moreover have "keeps_transport token_renewed" unfolding token_renewed_def by (intro keeps_intros)
  ultimately show ?thesis using assms unfolding stays_up_def keeps_transport_def by (metis fst_conv)
qed

lemma demo_opened:
  "open_session demo_inputs demo_session sample_service w =
     (Done True, sample_service\<lparr>sv_transport := snd (transport_channel ''ca'' (sv_transport sample_service))\<rparr>, w)"
proof -
  have "get_outcome demo_session = Inr True"
    by (simp add: get_outcome_def demo_session_def renewal_def cause_of_def raise_cause_def no_contexts_def max_def less_eq_SessionInputChange_def)
  moreover have "si_metadata demo_session = Inr demo_public" "si_ca demo_session = Inr ''ca''" by (simp_all add: demo_session_def)
  ultimately show ?thesis
    by (simp add: open_session_def demo_public_metadata demo_session_token m_simps update_vdp_metadata_def on_runtime_def sample_service_def
        fresh_runtime_def)
qed

theorem transport_kept_for_renewal_witness:
  "\<exists>r s' w'. session_round demo_inputs demo_session sample_service quiet_place = (r, s', w') \<and> st_channel (sv_transport s') = Some 0 \<and>
     (\<exists>changes. TokenReplaced \<in> set changes \<and> InputsUnavailable \<notin> set changes)"
proof -
  let ?s = "sample_service\<lparr>sv_transport := snd (transport_channel ''ca'' (sv_transport sample_service))\<rparr>"
  obtain r s' w' where t: "token_renewed ?s quiet_place = (r, s', w')" by (metis prod_cases3)
  then have s: "session_round demo_inputs demo_session sample_service quiet_place = (r, s', w')"
    by (simp add: session_round_def session_ended_def subscribe_def demo_opened m_simps)
  have c: "r \<noteq> Crashed" "st_channel (sv_transport s') = Some 0"
    using renewed_ends [OF t] by (simp_all add: sample_service_def demo_service_def transport_channel_def)
  from transport_kept_for_renewal [OF s c(1)] c(2) s show ?thesis by blast
qed

end
