(* ===== verification/Demonstration.thy ===== *)
theory Demonstration
  imports Service
begin

text \<open>
  The demonstration modes that the bootstrap process runs in place of the service: \<^verbatim>\<open>demo_mock.hpp\<close>, which applies a fixed episode
  and delivers its messages, and \<^verbatim>\<open>demo_no_telemetry.hpp\<close>, which does nothing until it is stopped. Both are for validation
  units only.
\<close>

section \<open>Mocked data\<close>

definition require_test :: "Metadata \<Rightarrow> unit result" where
  "require_test m =
     (if unit_role m \<noteq> ''VALIDATION'' \<or> service_instance m = None then Inl (RuntimeError ''DEMO_MOCK_NATIVE_TEST_ONLY'') else Inr ())"

definition mock_episode :: "string \<Rightarrow> int \<Rightarrow> Episode" where
  "mock_episode uuid now =
     \<lparr>ep_id = uuid, ep_started = now - 3000, ep_ended = now,
      ep_samples = replicate 30 \<lparr>frame_values = replicate 15 (Fin 0), frame_epoch_ms = 0\<rparr>, ep_terminal = ''COMPLETE''\<rparr>"

definition mock_config :: string where
  "mock_config = sha256_hex ''DEMO_MOCK:tire-normalized-features:7000,6000,5000,5500:v1''"

definition mock_generate :: "string \<Rightarrow> int \<Rightarrow> unit rt" where
  "mock_generate uuid now =
     m_bind (apply_episode \<lparr>longitudinal = 7000, lateral = 6000, dispersion = 5000, persistence = 5500\<rparr> (mock_episode uuid now) mock_config) (\<lambda>applied.
     if \<not> applied then m_throw (RuntimeError ''DEMO_MOCK_FIXTURE_INVALID'')
     else function_status ''SERVICE_ACCESS_DENIED'' now [])"

text \<open>The local variables of the loop, and what a round of it reads.\<close>

record Mock =
  mk_next_episode :: int
  mk_next_attempt :: int
  mk_failures :: nat

record mock_input =
  mi_boot :: int
  mi_response :: HttpResponse
  mi_sent_boot :: int
  mi_uuid :: string
  mi_wall :: int

definition mock_round :: "mock_input \<Rightarrow> Mock \<Rightarrow> Mock rt" where
  "mock_round i k =
     m_bind next_message (\<lambda>p. case p of
       Some p \<Rightarrow>
         if mi_boot i \<ge> mk_next_attempt k then
           m_bind (accept p (mi_response i)) (\<lambda>accepted.
           if accepted then m_return (k\<lparr>mk_failures := 0, mk_next_attempt := 0\<rparr>)
           else m_bind (m_lift (delay_of (mk_failures k) (Fin 0) (mi_response i))) (\<lambda>d.
             m_return (k\<lparr>mk_failures := count_up (mk_failures k), mk_next_attempt := mi_sent_boot i + d\<rparr>)))
         else m_return k
     | None \<Rightarrow>
         if mi_boot i \<ge> mk_next_episode k then
           m_bind (mock_generate (mi_uuid i) (mi_wall i)) (\<lambda>_. m_return (k\<lparr>mk_next_episode := mi_boot i + 30000\<rparr>))
         else m_return k)"

text \<open>The rounds until the signal handler sets \<^verbatim>\<open>stopped\<close>, which is the end of the list.\<close>

fun mock_loop :: "mock_input list \<Rightarrow> Mock \<Rightarrow> unit rt" where
  "mock_loop [] k = stop"
| "mock_loop (i # is) k = m_bind (mock_round i k) (\<lambda>k'. mock_loop is k')"

text \<open>The directories are those of the demonstration, apart from the directories of the service.\<close>

definition run_demo_mock :: "Metadata \<Rightarrow> string \<Rightarrow> mock_input list \<Rightarrow> int io" where
  "run_demo_mock m epoch is =
     io_bind (io_lift (require_test m)) (\<lambda>_.
     io_bind (runtime_start epoch m) (\<lambda>r.
     if \<not> rt_store r then io_throw ''DEMO_MOCK_STATE_INVALID''
     else (\<lambda>w. case mock_loop is \<lparr>mk_next_episode = 0, mk_next_attempt = 0, mk_failures = 0\<rparr> r w of
         (Done _, _, w') \<Rightarrow> (Done 0, w') | (Threw e, _, w') \<Rightarrow> (Threw e, w') | (Crashed, _, w') \<Rightarrow> (Crashed, w'))))"

section \<open>No telemetry\<close>

text \<open>The loop only waits for a signal, so the call returns once it was sent.\<close>

definition run_demo_no_telemetry :: "Metadata \<Rightarrow> int result" where
  "run_demo_no_telemetry m = (if unit_role m \<noteq> ''VALIDATION'' then Inl (RuntimeError ''DEMO_NO_TELEMETRY_TEST_ONLY'') else Inr 0)"

section \<open>Delivery of mocked data\<close>

text \<open>A round either delivers or generates: it never generates an episode while a message waits.\<close>

lemma mock_round_cases:
  assumes "next_message r w = (Done p, r1, w1)"
  shows "mock_round i k r w =
    (if p \<noteq> None \<and> mi_boot i < mk_next_attempt k \<or> p = None \<and> mi_boot i < mk_next_episode k then (Done k, r1, w1)
     else if p = None then m_bind (mock_generate (mi_uuid i) (mi_wall i)) (\<lambda>_. m_return (k\<lparr>mk_next_episode := mi_boot i + 30000\<rparr>)) r1 w1
     else m_bind (accept (the p) (mi_response i)) (\<lambda>accepted.
           if accepted then m_return (k\<lparr>mk_failures := 0, mk_next_attempt := 0\<rparr>)
           else m_bind (m_lift (delay_of (mk_failures k) (Fin 0) (mi_response i))) (\<lambda>d.
             m_return (k\<lparr>mk_failures := count_up (mk_failures k), mk_next_attempt := mi_sent_boot i + d\<rparr>))) r1 w1)"
  using assms by (cases p) (auto simp: mock_round_def m_bind_def [of next_message] m_return_def)

text \<open>A unit that is not for validation is refused before anything is opened.\<close>

lemma demo_validation_only:
  assumes "unit_role m \<noteq> ''VALIDATION''"
  shows "run_demo_mock m epoch is w = (Threw (RuntimeError ''DEMO_MOCK_NATIVE_TEST_ONLY''), w)" "isl (run_demo_no_telemetry m)"
  using assms by (simp_all add: run_demo_mock_def require_test_def run_demo_no_telemetry_def io_bind_def io_lift_def)

end
