(* ===== verification/Startup.thy ===== *)
theory Startup
  imports Subscribe Demonstration
begin

text \<open>
  How the processes start and stop: the environment (\<^verbatim>\<open>runtime/application.cpp\<close>), the first half of \<^verbatim>\<open>main\<close> of the bootstrap
  process up to the start of the service, \<^verbatim>\<open>stop_child\<close>, the end of the token session, and the first half of \<^verbatim>\<open>main\<close> of the service.
  The outcomes of system calls are given. The theorem relates the two processes: what the bootstrap process hands over is what the service
  accepts.
\<close>

section \<open>Environment\<close>

type_synonym environment = "string \<Rightarrow> string option"

definition native_variables :: "string list" where
  "native_variables = [''AOS_ITEM_ID'', ''AOS_SUBJECT_ID'', ''AOS_INSTANCE_INDEX'', ''AOS_INSTANCE_ID'']"

fun gather_environment :: "environment \<Rightarrow> string list \<Rightarrow> (string, string) dict \<Rightarrow> (string, string) dict result" where
  "gather_environment env [] m = Inr m"
| "gather_environment env (k # ks) m =
     (case env k of
        None \<Rightarrow> Inl (InvalidArgument ''NATIVE_IDENTITY_REQUIRED'')
      | Some v \<Rightarrow>
          if v = [] then Inl (InvalidArgument ''NATIVE_IDENTITY_REQUIRED'') else gather_environment env ks (dict_emplace k v m))"

text \<open>\<open>release\<close> is what reading the release file of the package returned.\<close>

definition initialize_service_inputs :: "environment \<Rightarrow> string result \<Rightarrow> ApplicationInputs \<Rightarrow> ApplicationInputs result" where
  "initialize_service_inputs env release inputs =
     ebind (gather_environment env native_variables []) (\<lambda>e.
     ebind release (\<lambda>bytes.
     ebind (parse_service_inputs bytes e) (\<lambda>n. Inr (inputs\<lparr>native := Some n\<rparr>))))"

section \<open>The start of the bootstrap process\<close>

datatype mode = NoTelemetry Metadata | Mocked Metadata | Serve ApplicationInputs string

definition demo_flag :: "string \<Rightarrow> string list \<Rightarrow> bool" where
  "demo_flag flag args \<longleftrightarrow> args \<noteq> [] \<and> last args = flag"

text \<open>\<open>files\<close> gives what reading a file returned. Without a flag of a demonstration the mode carries the request for the credential.\<close>

definition choose_mode :: "string list \<Rightarrow> environment \<Rightarrow> string result \<Rightarrow> (string \<Rightarrow> string result) \<Rightarrow> mode result" where
  "choose_mode args env release files =
     (let no_telemetry = demo_flag ''--demo-no-telemetry'' args; mock = demo_flag ''--demo-mocked-data'' args in
      ebind (parse_arguments (if no_telemetry \<or> mock then butlast args else args)) (\<lambda>given.
      ebind (initialize_service_inputs env release given) (\<lambda>inputs.
      if no_telemetry \<or> mock then
        ebind (files (metadata_file inputs)) (\<lambda>bytes.
        ebind (runtime_metadata inputs bytes) (\<lambda>m. Inr (if no_telemetry then NoTelemetry m else Mocked m)))
      else
        case env ''AOS_SECRET'' of
          None \<Rightarrow> Inl (RuntimeError ''AOS_SECRET_UNAVAILABLE'')
        | Some secret \<Rightarrow>
            if secret = [] then Inl (RuntimeError ''AOS_SECRET_UNAVAILABLE'') else emap (Serve inputs) (credential_request secret))))"

text \<open>
  Waiting for the public inputs: each round tells whether the process was interrupted and what \<open>initial_runtime_metadata\<close> returned; the end of
  the list is an interruption, and \<open>late\<close> one that comes after the look that found the inputs. The results are whether the process goes on and the
  states that were reported.
\<close>

fun await_inputs :: "bool \<Rightarrow> bool \<Rightarrow> (bool \<times> Metadata option result) list \<Rightarrow> (bool \<times> string list) result" where
  "await_inputs late reported [] = Inr (False, [])"
| "await_inputs late reported ((over, m) # ps) =
     (if over then Inr (False, []) else
      case m of
        Inl e \<Rightarrow> Inl e
      | Inr (Some _) \<Rightarrow> if late then Inr (False, []) else Inr (True, if reported then [''AVAILABLE''] else [])
      | Inr None \<Rightarrow> emap (\<lambda>(there, es). (there, if reported then es else ''WAITING'' # es)) (await_inputs late True ps))"

definition child_command :: "ApplicationInputs \<Rightarrow> string list" where
  "child_command inputs = [''--metadata-file'', metadata_file inputs, ''--ca-file'', ca_file inputs]"

definition child_environment :: "environment \<Rightarrow> TokenSession \<Rightarrow> environment" where
  "child_environment env s =
     env(''AOS_SECRET'' := None, ''KUKSA_TOKEN_FILE'' \<mapsto> ts_file s, ''GRPC_DNS_RESOLVER'' \<mapsto> ''native'')"

text \<open>What the process meets on its way; the flags are the outcomes of \<^verbatim>\<open>unsetenv\<close>, the two \<^verbatim>\<open>setenv\<close> and \<^verbatim>\<open>fork\<close>.\<close>

record boot_input =
  bi_args :: "string list"
  bi_env :: environment
  bi_release :: "string result"
  bi_files :: "string \<Rightarrow> string result"
  bi_unset :: bool
  bi_polls :: "(bool \<times> (string \<Rightarrow> nat \<Rightarrow> string option result)) list"
  bi_late :: bool
  bi_process :: process
  bi_nodes :: nodes
  bi_creation :: creation
  bi_set_file :: bool
  bi_set_resolver :: bool
  bi_forked :: bool

record launch =
  ln_session :: TokenSession
  ln_nodes :: nodes
  ln_command :: "string list"
  ln_env :: environment

definition launch_service :: "boot_input \<Rightarrow> ApplicationInputs \<Rightarrow> launch option result" where
  "launch_service b inputs =
     (if \<not> bi_unset b then Inl (RuntimeError ''CREDENTIAL_ENVIRONMENT_INVALID'') else
      ebind (await_inputs (bi_late b) False (map (\<lambda>(i, files). (i, initial_runtime_metadata files inputs)) (bi_polls b))) (\<lambda>(there, _).
      if \<not> there then Inr None else
      case token_session (bi_process b) token_root (bi_creation b) (bi_nodes b) of
        (Inl e, _) \<Rightarrow> Inl e
      | (Inr s, fs) \<Rightarrow>
          if \<not> bi_set_file b then Inl (RuntimeError ''CREDENTIAL_ENVIRONMENT_INVALID'')
          else if \<not> bi_set_resolver b then Inl (RuntimeError ''LOCAL_RESOLVER_CONFIGURATION_INVALID'')
          else if \<not> bi_forked b then Inl (RuntimeError ''ANALYTICS_START_FAILED'')
          else Inr (Some \<lparr>ln_session = s, ln_nodes = fs, ln_command = child_command inputs, ln_env = child_environment (bi_env b) s\<rparr>)))"

datatype started = Demonstrating mode | Interrupted | Running launch string

definition bootstrap_start :: "boot_input \<Rightarrow> started result" where
  "bootstrap_start b =
     ebind (choose_mode (bi_args b) (bi_env b) (bi_release b) (bi_files b)) (\<lambda>mode.
     case mode of
       Serve inputs request \<Rightarrow>
         emap (\<lambda>l. case l of None \<Rightarrow> Interrupted | Some l \<Rightarrow> Running l request) (launch_service b inputs)
     | _ \<Rightarrow> Inr (Demonstrating mode))"

section \<open>Stopping the service\<close>

text \<open>The results of \<^verbatim>\<open>waitpid\<close>; when the list ends the child has been reaped.\<close>

datatype wait_result = ChildRunning | ChildReaped | ChildUnknown | WaitInterrupted | WaitFailed

datatype child_signal = SigTerm | SigKill

definition child_gone :: "wait_result \<Rightarrow> bool" where
  "child_gone r \<longleftrightarrow> r = ChildReaped \<or> r = ChildUnknown"

fun poll_child :: "nat \<Rightarrow> wait_result list \<Rightarrow> bool \<times> wait_result list" where
  "poll_child 0 rs = (False, rs)"
| "poll_child (Suc n) [] = (True, [])"
| "poll_child (Suc n) (r # rs) = (if child_gone r then (True, rs) else poll_child n rs)"

fun await_child :: "wait_result list \<Rightarrow> wait_result list" where
  "await_child [] = []"
| "await_child (r # rs) = (if r = WaitInterrupted then await_child rs else rs)"

definition stop_child :: "wait_result list \<Rightarrow> child_signal list \<times> wait_result list" where
  "stop_child rs =
     (case poll_child 50 rs of
        (True, rs') \<Rightarrow> ([SigTerm], rs')
      | (False, rs') \<Rightarrow> ([SigTerm, SigKill], await_child rs'))"

lemma poll_child_alive: "fst (poll_child n rs) \<longleftrightarrow> length rs < n \<or> (\<exists>r\<in>set (take n rs). child_gone r)"
  by (induction n rs rule: poll_child.induct) auto

lemma poll_child_alive_rest: "\<not> fst (poll_child n rs) \<Longrightarrow> snd (poll_child n rs) = drop n rs"
  by (induction n rs rule: poll_child.induct) (auto split: if_splits)

lemma await_child_dropped: "\<exists>ks. rs = ks @ await_child rs"
  by (induction rs) (auto intro: exI [of _ "_ # _"])

text \<open>The end of the token session: the token was removed before (\<open>bootstrap_main\<close>), the directory goes now, if the call succeeds.\<close>

definition end_session :: "bool \<Rightarrow> TokenSession \<Rightarrow> nodes \<Rightarrow> nodes" where
  "end_session removed s fs = (if removed then fs(ts_root s @ [ts_name s] := None) else fs)"

lemma session_leaves_nothing:
  assumes "token_session me base_path c fs = (Inr s, fs')" "fs (ts_root s @ [ts_name s]) = None"
  shows "end_session True s fs' = fs"
  using assms by (auto simp: token_session_def end_session_def Let_def fun_upd_idem split: sum.splits if_splits option.splits prod.splits)

section \<open>The start of the service\<close>

definition service_prepare ::
    "string list \<Rightarrow> environment \<Rightarrow> string result \<Rightarrow> (string \<Rightarrow> string result) \<Rightarrow> nodes \<Rightarrow> process \<Rightarrow> (ApplicationInputs \<times> Metadata) result" where
  "service_prepare args env release files fs me =
     ebind (parse_arguments args) (\<lambda>given.
     ebind (initialize_service_inputs env release given) (\<lambda>inputs.
     if env ''AOS_SECRET'' \<noteq> None then Inl (RuntimeError ''CREDENTIAL_BOUNDARY_INVALID'') else
     ebind (token_file_from_environment fs me (env ''KUKSA_TOKEN_FILE'')) (\<lambda>_.
     ebind (files (metadata_file inputs)) (\<lambda>bytes.
     ebind (runtime_metadata inputs bytes) (\<lambda>m. Inr (inputs, m))))))"

definition initial_service :: "Runtime \<Rightarrow> world \<Rightarrow> reading stream \<Rightarrow> Service" where
  "initial_service r ledger clocks =
     \<lparr>sv_runtime = r, sv_stream = None, sv_ledger = ledger, sv_observation_attempt = 0, sv_next_observation = 0,
      sv_next_observation_delivery = 0, sv_next_control = 0, sv_next_delivery = 0, sv_attempt = 0, sv_readiness = initial_publication,
      sv_transport = \<lparr>st_ca = [], st_channel = None, st_made = 0\<rparr>, sv_sets = [], sv_log = initial_log, sv_output = [], sv_clocks = clocks\<rparr>"

text \<open>
  The whole of \<^verbatim>\<open>main\<close> for its own thread; \<open>prepared\<close> is what \<open>service_prepare\<close> returned. The exit status is 2 after any exception that the
  outer handler ends; one that the handler throws itself ends the process.
\<close>

definition main_failed :: "reading stream \<Rightarrow> int outcome" where
  "main_failed clocks =
     (case log_state ''READINESS_CHANGED'' ''NOT_READY'' ''STATE_INVALID'' [] initial_log clocks of
        (Inl e, _) \<Rightarrow> Threw e | (Inr _, _) \<Rightarrow> Done 2)"

definition service_main ::
    "(ApplicationInputs \<times> Metadata) result \<Rightarrow> string \<Rightarrow> world \<Rightarrow> reading stream \<Rightarrow> session_input list \<Rightarrow> int io" where
  "service_main prepared epoch ledger clocks is w =
     (case prepared of
        Inl _ \<Rightarrow> (main_failed clocks, w)
      | Inr (inputs, m) \<Rightarrow>
          (case runtime_start epoch m w of
             (Done r, w') \<Rightarrow> (case run_service inputs is (initial_service r ledger clocks) w' of (res, _, w'') \<Rightarrow> (res, w''))
           | (Threw _, w') \<Rightarrow> (main_failed clocks, w')
           | (Crashed, w') \<Rightarrow> (Crashed, w')))"

lemma main_failed_ends: "main_failed clocks = Done 2 \<or> (\<exists>e n. main_failed clocks = Threw e \<and> \<not> sane (clocks !! n))"
proof -
  obtain r t lg clocks' where l: "log_state ''READINESS_CHANGED'' ''NOT_READY'' ''STATE_INVALID'' [] initial_log clocks = (r, t, lg, clocks')"
    by (metis prod_cases4)
  show ?thesis
  proof (cases r)
    case (Inl e)
    then have "blamed clocks clocks'" using l main_text by (auto dest: log_state_blames)
    then show ?thesis using l Inl by (auto simp: main_failed_def blamed_def)
  qed (simp add: main_failed_def l)
qed

lemma service_exit_status:
  assumes "service_main prepared epoch ledger clocks is w = (res, w')"
  shows "res = Done 0 \<or> res = Done 2 \<or> res = Crashed \<or> (\<exists>e n. res = Threw e \<and> \<not> sane (clocks !! n))"
proof -
  have "fst (run_service inputs is s w) \<in> {Done 0, Done 2, Crashed} \<union> range Threw" for inputs s w
    unfolding run_service_def m_catch_def m_bind_def by (auto simp: m_return_def split: prod.splits outcome.splits)
  then have run: "r \<in> {Done 0, Done 2, Crashed} \<union> range Threw" if "run_service inputs is s w = (r, s', w')" for inputs s w r s' w'
    using that by (metis fst_conv)
  have "r = Done 0 \<or> r = Done 2 \<or> r = Crashed \<or> (\<exists>e n. r = Threw e \<and> \<not> sane (clocks !! n))"
    if *: "run_service inputs is (initial_service rt ledger clocks) w = (r, s', w')" for inputs rt w r s' w'
  proof -
    have "blamed clocks (sv_clocks s')" if "r = Threw e" for e
      using * that blames_service [of inputs "is"] by (fastforce simp: blames_def initial_service_def)
    then show ?thesis using run [OF *] by (auto simp: blamed_def)
  qed
  then show ?thesis
    using assms main_failed_ends [of clocks] by (auto simp: service_main_def split: sum.splits prod.splits outcome.splits)
qed

section \<open>Handing over\<close>

lemma argument_loop_files:
  assumes "argument_loop r args = Inr r'" "metadata_file r = [] \<or> is_absolute (metadata_file r)" "ca_file r = [] \<or> is_absolute (ca_file r)"
  shows "native r' = native r \<and> (metadata_file r' = [] \<or> is_absolute (metadata_file r')) \<and> (ca_file r' = [] \<or> is_absolute (ca_file r'))"
  using assms by (induction r args rule: argument_loop.induct) (auto split: if_splits)

text \<open>The command line of the service names the files that the bootstrap process was given.\<close>

lemma child_command_parsed:
  assumes "parse_arguments args = Inr given"
  shows "parse_arguments (child_command (given\<lparr>native := n\<rparr>)) = Inr given"
proof -
  obtain r where r: "argument_loop \<lparr>metadata_file = [], ca_file = [], native = None\<rparr> args = Inr r" "given = r"
    "metadata_file r \<noteq> []" "ca_file r \<noteq> []"
    using assms by (auto simp: parse_arguments_def ebind_eq_Inr split: if_splits)
  then have "native given = None" "is_absolute (metadata_file given)" "is_absolute (ca_file given)"
    using argument_loop_files [OF r(1)] by auto
  then show ?thesis using r by (cases given) (simp add: parse_arguments_def child_command_def)
qed

lemma gather_agrees: "(\<And>k. k \<in> set ks \<Longrightarrow> env k = env' k) \<Longrightarrow> gather_environment env ks m = gather_environment env' ks m"
proof (induction ks arbitrary: m)
  case (Cons k ks)
  then have "gather_environment env ks n = gather_environment env' ks n" for n by simp
  then show ?case using Cons.prems [of k] by (simp split: option.splits)
qed simp

lemma child_inputs: "initialize_service_inputs (child_environment env s) release given = initialize_service_inputs env release given"
proof -
  have "gather_environment (child_environment env s) native_variables m = gather_environment env native_variables m" for m
    by (rule gather_agrees) (auto simp: native_variables_def child_environment_def)
  then show ?thesis by (simp add: initialize_service_inputs_def)
qed

section \<open>Properties\<close>

text \<open>C16: The service accepts what the bootstrap process hands over: with the command line, the environment and the directory that
  the bootstrap process has prepared, every check of the service before it reads its metadata succeeds, with the same identity and the
  same files, and the secret is not in its environment.\<close>

theorem service_accepts_launch:
  assumes "bootstrap_start b = Inr (Running l request)"
  shows "ln_env l ''AOS_SECRET'' = None \<and>
    (\<exists>inputs. choose_mode (bi_args b) (bi_env b) (bi_release b) (bi_files b) = Inr (Serve inputs request) \<and>
       (\<forall>files. service_prepare (ln_command l) (ln_env l) (bi_release b) files (ln_nodes l) (bi_process b) =
          ebind (files (metadata_file inputs)) (\<lambda>bytes. ebind (runtime_metadata inputs bytes) (\<lambda>m. Inr (inputs, m)))))"
proof -
  obtain inputs where mode: "choose_mode (bi_args b) (bi_env b) (bi_release b) (bi_files b) = Inr (Serve inputs request)"
    and l: "launch_service b inputs = Inr (Some l)"
  proof -
    obtain mode where "choose_mode (bi_args b) (bi_env b) (bi_release b) (bi_files b) = Inr mode"
      "(case mode of Serve inputs request \<Rightarrow>
          emap (\<lambda>l. case l of None \<Rightarrow> Interrupted | Some l \<Rightarrow> Running l request) (launch_service b inputs)
        | _ \<Rightarrow> Inr (Demonstrating mode)) = Inr (Running l request)"
      using assms by (auto simp: bootstrap_start_def ebind_eq_Inr)
    then show thesis using that by (cases mode) (auto simp: emap_eq_Inr split: option.splits)
  qed
  obtain given where g: "parse_arguments (bi_args b) = Inr given" "initialize_service_inputs (bi_env b) (bi_release b) given = Inr inputs"
    using mode by (auto simp: choose_mode_def Let_def ebind_eq_Inr emap_eq_Inr split: if_splits option.splits)
  obtain n where n: "inputs = given\<lparr>native := n\<rparr>" using g(2) by (auto simp: initialize_service_inputs_def ebind_eq_Inr)
  obtain s fs where s: "token_session (bi_process b) token_root (bi_creation b) (bi_nodes b) = (Inr s, fs)"
    "l = \<lparr>ln_session = s, ln_nodes = fs, ln_command = child_command inputs, ln_env = child_environment (bi_env b) s\<rparr>"
    using l by (auto simp: launch_service_def ebind_eq_Inr split: if_splits prod.splits sum.splits)
  have env: "child_environment (bi_env b) s ''AOS_SECRET'' = None" "child_environment (bi_env b) s ''KUKSA_TOKEN_FILE'' = Some (ts_file s)"
    by (simp_all add: child_environment_def)
  have "service_prepare (ln_command l) (ln_env l) (bi_release b) files (ln_nodes l) (bi_process b) =
      ebind (files (metadata_file inputs)) (\<lambda>bytes. ebind (runtime_metadata inputs bytes) (\<lambda>m. Inr (inputs, m)))" for files
    using child_command_parsed [OF g(1), of n] g(2) session_accepted [OF s(1)] env
    by (simp add: service_prepare_def s(2) n child_inputs)
  then show ?thesis using mode env(1) by (simp add: s(2))
qed

text \<open>A start in which the inputs are there at the first look and every call succeeds.\<close>

definition demo_release :: string where
  "demo_release = ''{\"schemaVersion\":1,\"serviceVersion\":\"1.2.0\"}''"

definition demo_environment :: environment where
  "demo_environment = map_of
     [(''AOS_ITEM_ID'', ''tire''), (''AOS_SUBJECT_ID'', ''car''), (''AOS_INSTANCE_INDEX'', ''3''), (''AOS_INSTANCE_ID'', ''i-3''),
      (''AOS_SECRET'', ''s'')]"

definition demo_nodes :: nodes where
  "demo_nodes = (\<lambda>path. if length path \<le> 4 then Some \<lparr>node_directory = True, node_uid = 0, node_gid = 0, node_mode = 1023\<rparr> else None)"

definition demo_boot :: boot_input where
  "demo_boot =
     \<lparr>bi_args = [''--metadata-file'', ''/m'', ''--ca-file'', ''/c''], bi_env = demo_environment, bi_release = Inr demo_release,
      bi_files = (\<lambda>_. Inr demo_public), bi_unset = True, bi_polls = [(False, \<lambda>_ _. Inr (Some demo_public))], bi_late = False,
      bi_process = \<lparr>proc_uid = 7, proc_gid = 7\<rparr>, bi_nodes = demo_nodes,
      bi_creation = \<lparr>cr_locked = True, cr_listing = Some [],
        cr_made = Some (''session-abc123'', \<lparr>node_directory = True, node_uid = 7, node_gid = 7, node_mode = 448\<rparr>)\<rparr>,
      bi_set_file = True, bi_set_resolver = True, bi_forked = True\<rparr>"

lemma demo_native:
  "initialize_service_inputs demo_environment (Inr demo_release) given = Inr (given\<lparr>native := native demo_inputs\<rparr>)"
proof -
  have "ebind (gather_environment demo_environment native_variables []) (parse_service_inputs demo_release) = Inr (the (native demo_inputs))"
    by code_simp
  moreover have "native demo_inputs = Some (the (native demo_inputs))" by (simp add: demo_inputs_def)
  ultimately show ?thesis by (auto simp: initialize_service_inputs_def ebind_eq_Inr)
qed

lemma demo_given: "parse_arguments [''--metadata-file'', ''/m'', ''--ca-file'', ''/c''] = Inr (demo_inputs\<lparr>native := None\<rparr>)"
  by (simp add: parse_arguments_def is_absolute_def byte_def demo_inputs_def)

lemma demo_secret: "\<exists>q. credential_request ''s'' = Inr q"
proof -
  have "quote_json ''s'' = Inr (chr 34 # ''s'' @ [chr 34])" by code_simp
  then show ?thesis by (simp add: credential_request_def Let_def)
qed

lemma demo_token_session: "\<exists>s fs. token_session (bi_process demo_boot) token_root (bi_creation demo_boot) (bi_nodes demo_boot) = (Inr s, fs)"
proof -
  have name: "session_name ''session-abc123''" by code_simp
  note c = session_components [OF name]
  have r: "components [] token_root = [''run'', ''aosedge'', ''secrets'', ''kuksa'']" by code_simp
  moreover have "is_absolute token_root" by (simp add: is_absolute_def token_root_def byte_def)
  ultimately show ?thesis
    using name by (simp add: token_session_def open_path_def demo_boot_def demo_nodes_def c root_accepted_def count_sessions_def Let_def
        open_private_token_directory_def)
qed

lemma demo_mode:
  "choose_mode (bi_args demo_boot) (bi_env demo_boot) (bi_release demo_boot) (bi_files demo_boot) =
     emap (Serve demo_inputs) (credential_request ''s'')"
proof -
  have "demo_environment ''AOS_SECRET'' = Some ''s''" by (simp add: demo_environment_def)
  then show ?thesis by (simp add: choose_mode_def demo_flag_def demo_boot_def Let_def demo_given demo_native)
qed

lemma demo_launched: "\<exists>l q. bootstrap_start demo_boot = Inr (Running l q)"
proof -
  obtain q where q: "credential_request ''s'' = Inr q" using demo_secret by blast
  obtain s fs where s: "token_session (bi_process demo_boot) token_root (bi_creation demo_boot) (bi_nodes demo_boot) = (Inr s, fs)"
    using demo_token_session by blast
  have "native demo_inputs \<noteq> None" by (simp add: demo_inputs_def)
  then have "initial_runtime_metadata (\<lambda>_ _. Inr (Some demo_public)) demo_inputs = Inr (Some sample_metadata)"
    by (auto simp: initial_runtime_metadata_def demo_public_metadata)
  moreover have "bi_unset demo_boot" "bi_set_file demo_boot" "bi_set_resolver demo_boot" "bi_forked demo_boot" "\<not> bi_late demo_boot"
    "bi_polls demo_boot = [(False, \<lambda>_ _. Inr (Some demo_public))]"
    by (simp_all add: demo_boot_def)
  ultimately have "\<exists>l. launch_service demo_boot demo_inputs = Inr (Some l)" by (simp add: launch_service_def s)
  then show ?thesis by (auto simp: bootstrap_start_def demo_mode q)
qed

theorem service_accepts_launch_witness:
  "\<exists>(l :: launch) inputs m. service_prepare (ln_command l) (ln_env l) (bi_release demo_boot) (\<lambda>_. Inr demo_public) (ln_nodes l) (bi_process demo_boot) = Inr (inputs, m) \<and>
     ln_env l ''AOS_SECRET'' = None"
proof -
  obtain l q where l: "bootstrap_start demo_boot = Inr (Running l q)" using demo_launched by blast
  obtain inputs where i: "ln_env l ''AOS_SECRET'' = None"
    "choose_mode (bi_args demo_boot) (bi_env demo_boot) (bi_release demo_boot) (bi_files demo_boot) = Inr (Serve inputs q)"
    "service_prepare (ln_command l) (ln_env l) (bi_release demo_boot) (\<lambda>_. Inr demo_public) (ln_nodes l) (bi_process demo_boot) =
       ebind (Inr demo_public) (\<lambda>bytes. ebind (runtime_metadata inputs bytes) (\<lambda>m. Inr (inputs, m)))"
    using service_accepts_launch [OF l] by blast
  have "inputs = demo_inputs"
    using i(2) by (auto simp: demo_mode emap_eq_Inr)
  then show ?thesis using i(1,3) by (intro exI [of _ l] exI [of _ inputs] exI [of _ sample_metadata]) (simp add: demo_public_metadata)
qed

end
