(* ===== verification/Http.thy ===== *)
theory Http
  imports Canonical Protocol
begin

text \<open>
  The HTTP client of \<^verbatim>\<open>src/runtime/posix.cpp\<close>: the exchange over a non-blocking socket, the requests to the
  backend and the parser of its responses.
\<close>

definition TRANSPORT_UNAVAILABLE :: exn where
  "TRANSPORT_UNAVAILABLE = RuntimeError ''TRANSPORT_UNAVAILABLE''"

abbreviation transport_failed :: "'a result" where
  "transport_failed \<equiv> Inl TRANSPORT_UNAVAILABLE"

section \<open>Exchanging bytes\<close>

text \<open>
  What the calls on the socket report, in order. Each round of a loop first waits: \<open>Expired\<close> is a wait that ends
  by the deadline, by \<^verbatim>\<open>stop\<close> or by an error of \<^verbatim>\<open>poll\<close>; otherwise the descriptor is ready and the
  event is the outcome of \<^verbatim>\<open>send\<close> or \<^verbatim>\<open>recv\<close>. When no event is left the deadline has passed.
\<close>

datatype socket_event = Expired | Again | Broken | Moved nat | Received string

fun send_loop :: "string \<Rightarrow> socket_event list \<Rightarrow> (string \<times> socket_event list) result" where
  "send_loop rest es =
     (if rest = [] then Inr ([], es)
      else case es of
        [] \<Rightarrow> transport_failed
      | e # es' \<Rightarrow>
          (case e of
             Again \<Rightarrow> send_loop rest es'
           | Moved n \<Rightarrow> if n = 0 then transport_failed
                          else emap (\<lambda>(sent, r). (take n rest @ sent, r)) (send_loop (drop n rest) es')
           | _ \<Rightarrow> transport_failed))"

declare send_loop.simps [simp del]

fun recv_loop :: "nat \<Rightarrow> string \<Rightarrow> socket_event list \<Rightarrow> string result" where
  "recv_loop maximum out [] = transport_failed"
| "recv_loop maximum out (e # es) =
     (case e of
        Again \<Rightarrow> recv_loop maximum out es
      | Received bytes \<Rightarrow>
          if bytes = [] then Inr out
          else if length out + length bytes > maximum then transport_failed
          else recv_loop maximum (out @ bytes) es
      | _ \<Rightarrow> transport_failed)"

text \<open>\<open>online\<close>: the socket was created and online within the deadline. The first component is what was sent.\<close>

definition exchange :: "bool \<Rightarrow> string \<Rightarrow> nat \<Rightarrow> socket_event list \<Rightarrow> (string \<times> string) result" where
  "exchange online request maximum es =
     (if \<not> online then transport_failed
      else ebind (send_loop request es) (\<lambda>(sent, es'). emap (\<lambda>r. (sent, r)) (recv_loop maximum [] es')))"

text \<open>
  A wait for the descriptor: each element tells whether \<^verbatim>\<open>stop\<close> was set or the deadline passed before the call of \<^verbatim>\<open>poll\<close>, and
  what that call returned. The loops above see the outcome as an event.
\<close>

datatype poll_result = PollInterrupted | PollFailed | PollTimeout | PollReady | PollError

fun wait_ready :: "(bool \<times> poll_result) list \<Rightarrow> unit result" where
  "wait_ready [] = transport_failed"
| "wait_ready ((over, p) # ps) =
     (if over then transport_failed
      else case p of PollReady \<Rightarrow> Inr () | PollInterrupted \<Rightarrow> wait_ready ps | PollTimeout \<Rightarrow> wait_ready ps | _ \<Rightarrow> transport_failed)"

text \<open>The exchange with the credential service, over a local socket.\<close>

definition exchange_credential :: "bool \<Rightarrow> string \<Rightarrow> socket_event list \<Rightarrow> string result" where
  "exchange_credential online request es = emap snd (exchange online request 32768 es)"

section \<open>Text of headers\<close>

fun find_text :: "string \<Rightarrow> string \<Rightarrow> nat option" where
  "find_text pat [] = (if pat = [] then Some 0 else None)"
| "find_text pat (c # s) = (if take (length pat) (c # s) = pat then Some 0 else map_option Suc (find_text pat s))"

abbreviation CRLF :: string where
  "CRLF \<equiv> [chr 13, chr 10]"

text \<open>Repeated \<^verbatim>\<open>std::getline\<close>: what follows the last newline is a line only if it is not empty.\<close>

fun lines_loop :: "string \<Rightarrow> string \<Rightarrow> string list" where
  "lines_loop line [] = (if line = [] then [] else [line])"
| "lines_loop line (c # s) = (if byte c = 10 then line # lines_loop [] s else lines_loop (line @ [c]) s)"

definition text_lines :: "string \<Rightarrow> string list" where
  "text_lines s = lines_loop [] s"

definition digit_of :: "char \<Rightarrow> nat option" where
  "digit_of c =
     (if is_digit c then Some (byte c - 48)
      else if 97 \<le> byte c \<and> byte c \<le> 122 then Some (byte c - 87)
      else if 65 \<le> byte c \<and> byte c \<le> 90 then Some (byte c - 55)
      else None)"

fun number_value :: "nat \<Rightarrow> nat \<Rightarrow> string \<Rightarrow> nat option" where
  "number_value base n [] = Some n"
| "number_value base n (c # s) =
     (case digit_of c of
        Some d \<Rightarrow> if d < base then number_value base (n * base + d) s else None
      | None \<Rightarrow> None)"

text \<open>\<^verbatim>\<open>std::from_chars\<close> into \<^verbatim>\<open>std::size_t\<close>, all of the text.\<close>

definition number :: "string \<Rightarrow> nat \<Rightarrow> nat result" where
  "number s base =
     (case number_value base 0 s of
        Some n \<Rightarrow> if s = [] \<or> n \<ge> 2 ^ 64 then transport_failed else Inr n
      | None \<Rightarrow> transport_failed)"

definition to_lower :: "char \<Rightarrow> char" where
  "to_lower c = (if is_upper c then chr (byte c + 32) else c)"

definition pop_cr :: "string \<Rightarrow> string" where
  "pop_cr line = (if line \<noteq> [] \<and> last line = chr 13 then butlast line else line)"

fun header_fields :: "(string, string) dict \<Rightarrow> string list \<Rightarrow> (string, string) dict result" where
  "header_fields headers [] = Inr headers"
| "header_fields headers (raw # ls) =
     (let line = pop_cr raw
      in case find_text '':'' line of
           None \<Rightarrow> transport_failed
         | Some colon \<Rightarrow>
             let name = map to_lower (take colon line);
                 field = dropWhile (\<lambda>c. c = CHR '' '') (drop (colon + 1) line)
             in if dict_has headers name then transport_failed
                else header_fields (dict_emplace name field headers) ls)"

section \<open>The body\<close>

lemma find_text_bound: "find_text pat s = Some n \<Longrightarrow> n + length pat \<le> length s"
proof (induction pat s arbitrary: n rule: find_text.induct)
  case (2 pat c s)
  show ?case
  proof (cases "take (length pat) (c # s) = pat")
    case True
    then have "length pat \<le> length (c # s)" by (metis nat_le_linear take_all_iff length_take min.absorb1)
    then show ?thesis using 2 True by auto
  next
    case False
    with 2 show ?thesis by fastforce
  qed
qed (auto split: if_splits)

function chunks :: "string \<Rightarrow> string \<Rightarrow> string result" where
  "chunks out body =
     (case find_text CRLF body of
        None \<Rightarrow> transport_failed
      | Some e \<Rightarrow>
          (case number (take e body) 16 of
             Inl x \<Rightarrow> Inl x
           | Inr n \<Rightarrow>
               let b = drop (e + 2) body
               in if n > 8192 \<or> n > length b \<or> length b - n < 2 \<or> take 2 (drop n b) \<noteq> CRLF then transport_failed
                  else if n = 0 then (if b \<noteq> CRLF then transport_failed else Inr out)
                  else if length (out @ take n b) > 8192 then transport_failed
                  else chunks (out @ take n b) (drop (n + 2) b)))"
  by pat_completeness auto
termination
  by (relation "measure (\<lambda>(out, body). length body)") (auto dest: find_text_bound)

declare chunks.simps [simp del]

definition response_body :: "(string, string) dict \<Rightarrow> string \<Rightarrow> string result" where
  "response_body headers body =
     (if dict_has headers ''content-length'' \<and> dict_has headers ''transfer-encoding'' then transport_failed
      else case dict_get headers ''transfer-encoding'' of
        Some t \<Rightarrow> if t \<noteq> ''chunked'' then transport_failed else chunks [] body
      | None \<Rightarrow>
          (case dict_get headers ''content-length'' of
             Some t \<Rightarrow> ebind (number t 10) (\<lambda>n. if n \<noteq> length body then transport_failed else Inr body)
           | None \<Rightarrow> Inr body))"

definition retry_after_field :: "(string, string) dict \<Rightarrow> int result" where
  "retry_after_field headers =
     (case dict_get headers ''retry-after'' of
        None \<Rightarrow> Inr 0
      | Some t \<Rightarrow> ebind (number t 10) (\<lambda>n. if n > 86400 then transport_failed else Inr (int n)))"

definition status_line :: "string list \<Rightarrow> int result" where
  "status_line ls =
     (let line = (case ls of [] \<Rightarrow> [] | l # _ \<Rightarrow> l)
      in if length line < 13 \<or> take 9 line \<noteq> ''HTTP/1.1 '' \<or> line ! 12 \<noteq> CHR '' '' then transport_failed
         else emap int (number (take 3 (drop 9 line)) 10))"

definition parse_http_response :: "string \<Rightarrow> HttpResponse result" where
  "parse_http_response bytes =
     (if length bytes > 24576 then transport_failed
      else case find_text (CRLF @ CRLF) bytes of
        None \<Rightarrow> transport_failed
      | Some split \<Rightarrow>
          if split > 16384 then transport_failed
          else let ls = text_lines (take split bytes)
               in ebind (status_line ls) (\<lambda>status.
                  ebind (header_fields [] (tl ls)) (\<lambda>headers.
                  ebind (response_body headers (drop (split + 4) bytes)) (\<lambda>body.
                    if length body > 8192 then transport_failed
                    else ebind (retry_after_field headers) (\<lambda>retry.
                      Inr \<lparr>http_status = status, http_body = body, http_retry_after = retry\<rparr>)))))"

section \<open>Requests\<close>

definition http_post :: "string \<Rightarrow> string \<Rightarrow> string \<Rightarrow> string" where
  "http_post path marker bytes =
     ''POST '' @ path @ '' HTTP/1.1'' @ CRLF @ ''Host: 10.0.0.1:18092'' @ CRLF @
     ''Content-Type: application/json'' @ CRLF @ marker @ ''Connection: close'' @ CRLF @
     ''Content-Length: '' @ show_nat (length bytes) @ CRLF @ CRLF @ bytes"

definition post_backend :: "string \<Rightarrow> bool \<Rightarrow> bool \<Rightarrow> socket_event list \<Rightarrow> HttpResponse result" where
  "post_backend bytes demo_mock online es =
     (if bytes = [] \<or> length bytes > 16384 then Inl (InvalidArgument ''MESSAGE_SIZE_INVALID'')
      else ebind (exchange online
                    (http_post (if demo_mock then ''/api/v1/tire/demo-mock/messages'' else ''/api/v1/tire/messages'')
                       (if demo_mock then ''X-Aos-Demo-Source: MOCK'' @ CRLF else []) bytes) 24576 es)
             (\<lambda>(sent, reply). parse_http_response reply))"

definition post_demo_control :: "string \<Rightarrow> bool \<Rightarrow> bool \<Rightarrow> socket_event list \<Rightarrow> HttpResponse result" where
  "post_demo_control bytes acknowledgement online es =
     (if bytes = [] \<or> length bytes > 4096 then Inl (InvalidArgument ''MESSAGE_SIZE_INVALID'')
      else ebind (exchange online
                    (http_post (if acknowledgement then ''/api/v1/tire/demo-control/ack'' else ''/api/v1/tire/demo-control/poll'')
                       [] bytes) 24576 es)
             (\<lambda>(sent, reply). parse_http_response reply))"


section \<open>What an exchange returns\<close>

lemma send_loop_all: "send_loop rest es = Inr (sent, es') \<Longrightarrow> sent = rest"
proof (induction rest es arbitrary: sent es' rule: send_loop.induct)
  case (1 rest es)
  show ?case
  proof (cases "rest = [] \<or> es = []")
    case True
    with "1.prems" show ?thesis by (auto simp: send_loop.simps split: if_splits)
  next
    case False
    then obtain e es1 where es: "es = e # es1" "rest \<noteq> []" by (cases es) auto
    show ?thesis
    proof (cases e)
      case Again
      with "1.prems" es "1.IH"(1) [OF es(2,1) Again] show ?thesis by (simp add: send_loop.simps [of rest])
    next
      case (Moved n)
      show ?thesis
      proof (cases "n = 0")
        case True
        with "1.prems" es Moved show ?thesis by (simp add: send_loop.simps [of rest])
      next
        case False
        with "1.prems" es Moved obtain s' where "send_loop (drop n rest) es1 = Inr (s', es')" "sent = take n rest @ s'"
          by (auto simp: send_loop.simps [of rest] result_simps)
        with "1.IH"(2) [OF es(2,1) Moved False] show ?thesis by simp
      qed
    qed (use "1.prems" es in \<open>simp_all add: send_loop.simps [of rest]\<close>)
  qed
qed

lemma recv_loop_bounded: "recv_loop maximum out es = Inr r \<Longrightarrow> length out \<le> maximum \<Longrightarrow> length r \<le> maximum"
  by (induction maximum out es rule: recv_loop.induct) (auto split: socket_event.splits if_splits)

text \<open>The stream the peer sent, up to its end.\<close>

fun stream :: "socket_event list \<Rightarrow> string" where
  "stream [] = []"
| "stream (e # es) = (case e of Received bytes \<Rightarrow> if bytes = [] then [] else bytes @ stream es | _ \<Rightarrow> stream es)"

lemma recv_loop_stream: "recv_loop maximum out es = Inr r \<Longrightarrow> r = out @ stream es"
  by (induction maximum out es rule: recv_loop.induct) (auto split: socket_event.splits if_splits)

section \<open>Errors and bounds of the parser\<close>

lemma number_error: "number s b = Inl e \<Longrightarrow> e = TRANSPORT_UNAVAILABLE"
  by (auto simp: number_def split: option.splits if_splits)

lemma chunks_error: "chunks out body = Inl e \<Longrightarrow> e = TRANSPORT_UNAVAILABLE"
  by (induction out body rule: chunks.induct)
     (subst (asm) chunks.simps, auto simp: Let_def dest: number_error split: option.splits sum.splits if_splits)

lemma header_fields_error: "header_fields headers ls = Inl e \<Longrightarrow> e = TRANSPORT_UNAVAILABLE"
  by (induction headers ls rule: header_fields.induct) (auto simp: Let_def split: option.splits if_splits)

lemma emap_eq_Inl: "emap f m = Inl e \<longleftrightarrow> m = Inl e"
  by (cases m) auto

lemma parse_http_error: "parse_http_response bytes = Inl e \<Longrightarrow> e = TRANSPORT_UNAVAILABLE"
  by (auto simp: parse_http_response_def status_line_def response_body_def retry_after_field_def Let_def result_simps emap_eq_Inl
      dest: number_error chunks_error header_fields_error split: option.splits if_splits)

lemma number_value_bound: "number_value b n s = Some k \<Longrightarrow> k < (n + 1) * b ^ length s"
proof (induction b n s rule: number_value.induct)
  case (2 b n c s)
  then obtain d where d: "digit_of c = Some d" "d < b" "number_value b (n * b + d) s = Some k"
    by (auto split: option.splits if_splits)
  with 2 have "k < (n * b + d + 1) * b ^ length s" by simp
  also have "\<dots> \<le> ((n + 1) * b) * b ^ length s" using d(2) by (intro mult_right_mono) (auto simp: algebra_simps)
  finally show ?case by (simp add: algebra_simps)
qed auto

lemma status_range: "status_line ls = Inr n \<Longrightarrow> 0 \<le> n \<and> n \<le> 999"
proof -
  assume "status_line ls = Inr n"
  then obtain line k where "number (take 3 (drop 9 line)) 10 = Inr k" "n = int k"
    by (auto simp: status_line_def Let_def result_simps split: if_splits)
  moreover from this have "k < (0 + 1) * 10 ^ length (take 3 (drop 9 line))"
    by (intro number_value_bound) (auto simp: number_def split: option.splits if_splits)
  moreover have "(10 :: nat) ^ length (take 3 (drop 9 line)) \<le> 10 ^ 3" by (intro power_increasing) auto
  ultimately show ?thesis by simp
qed


section \<open>Responses of a well-behaved peer\<close>

fun show_hex :: "nat \<Rightarrow> string" where
  "show_hex n = (if n < 16 then [hex_digit n] else show_hex (n div 16) @ [hex_digit (n mod 16)])"

declare show_hex.simps [simp del]

definition chunked :: "string list \<Rightarrow> string" where
  "chunked cs = concat (map (\<lambda>c. show_hex (length c) @ CRLF @ c @ CRLF) cs) @ ''0'' @ CRLF @ CRLF"

definition reply :: "nat \<Rightarrow> string \<Rightarrow> string \<Rightarrow> string \<Rightarrow> string" where
  "reply status reason header body =
     ''HTTP/1.1 '' @ show_nat status @ '' '' @ reason @ CRLF @ header @ CRLF @ CRLF @ body"

lemma number_value_append: "number_value b n (s @ t) = (case number_value b n s of None \<Rightarrow> None | Some k \<Rightarrow> number_value b k t)"
  by (induction s arbitrary: n) (auto split: option.splits)

lemma digit_of_digit [simp]: "n < 16 \<Longrightarrow> digit_of (hex_digit n) = Some n"
  by (auto simp: digit_of_def byte_hex_digit is_digit_def)

lemma number_value_hex: "number_value 16 0 (show_hex n) = Some n"
proof (induction n rule: show_hex.induct)
  case (1 n)
  show ?case
  proof (cases "n < 16")
    case True
    then show ?thesis by (simp add: show_hex.simps [of n])
  next
    case False
    with 1 show ?thesis by (simp add: show_hex.simps [of n] number_value_append)
  qed
qed

lemma show_hex_chars: "c \<in> set (show_hex n) \<Longrightarrow> is_lower_hex c"
  by (induction n rule: show_hex.induct) (subst (asm) show_hex.simps, auto split: if_splits)

lemma show_hex_nonempty: "show_hex n \<noteq> []"
  by (subst show_hex.simps) simp

lemma number_hex: "n < 2 ^ 64 \<Longrightarrow> number (show_hex n) 16 = Inr n"
  by (simp add: number_def number_value_hex show_hex_nonempty)

lemma number_value_decimal: "number_value 10 0 (show_nat n) = Some n"
proof (induction n rule: show_nat.induct)
  case (1 n)
  have digit: "digit_of (chr (48 + k)) = Some k" if "k < 10" for k
    using that by (simp add: digit_of_def is_digit_def)
  show ?case
  proof (cases "n < 10")
    case True
    then show ?thesis using digit [of n] by (simp add: show_nat.simps [of n])
  next
    case False
    with 1 digit [of "n mod 10"] show ?thesis by (simp add: show_nat.simps [of n] number_value_append)
  qed
qed

lemma length_show_nat_le: "n < 10000 \<Longrightarrow> length (show_nat n) \<le> 4"
proof -
  assume "n < 10000"
  then have "n div 10 div 10 div 10 < 10" by linarith
  then show ?thesis
    by (subst show_nat.simps, subst show_nat.simps, subst show_nat.simps, subst show_nat.simps) simp
qed

lemma number_decimal: "n < 2 ^ 64 \<Longrightarrow> number (show_nat n) 10 = Inr n"
  by (simp add: number_def number_value_decimal)

lemma find_text_skip:
  assumes "\<forall>c\<in>set l. c \<noteq> a"
  shows "find_text (a # p) (l @ s) = map_option ((+) (length l)) (find_text (a # p) s)"
  using assms by (induction l) (auto simp: option.map_comp comp_def map_option_case split: option.splits)

lemma find_text_here [simp]: "find_text (a # p) (a # p @ r) = Some 0"
  by simp

definition no_cr :: "string \<Rightarrow> bool" where
  "no_cr s \<longleftrightarrow> (\<forall>c\<in>set s. byte c \<noteq> 13 \<and> byte c \<noteq> 10)"

lemma no_crD: "no_cr s \<Longrightarrow> \<forall>c\<in>set s. c \<noteq> chr 13"
  by (auto simp: no_cr_def)

lemma find_crlf: "no_cr l \<Longrightarrow> find_text CRLF (l @ CRLF @ r) = Some (length l)"
  by (simp add: find_text_skip [OF no_crD])

lemma chr_neq: "chr 10 \<noteq> chr 13" "chr 13 \<noteq> chr 10"
  by (simp_all add: chr_def)

lemma find_header_end:
  assumes "no_cr a" "no_cr b" "b \<noteq> []"
  shows "find_text (CRLF @ CRLF) (a @ CRLF @ b @ CRLF @ CRLF @ r) = Some (length a + length b + 2)"
proof -
  obtain c b' where b: "b = c # b'" using assms(3) by (cases b) auto
  have c: "c \<noteq> chr 13" using assms(2) b no_crD by auto
  have "find_text (CRLF @ CRLF) (b @ CRLF @ CRLF @ r) = Some (length b)"
    using find_text_skip [OF no_crD [OF assms(2)], of "[chr 10, chr 13, chr 10]" "CRLF @ CRLF @ r"] by simp
  then have "find_text (CRLF @ CRLF) (CRLF @ b @ CRLF @ CRLF @ r) = Some (length b + 2)"
    using b c chr_neq by simp
  then show ?thesis
    using find_text_skip [OF no_crD [OF assms(1)], of "[chr 10, chr 13, chr 10]" "CRLF @ b @ CRLF @ CRLF @ r"]
    by simp
qed

lemma chunks_chunked:
  assumes "\<forall>c\<in>set cs. c \<noteq> []" "length (out @ concat cs) \<le> 8192"
  shows "chunks out (chunked cs) = Inr (out @ concat cs)"
  using assms
proof (induction cs arbitrary: out)
  case Nil
  have "find_text CRLF (''0'' @ CRLF @ CRLF) = Some 1" using find_crlf [of "''0''" CRLF] by (simp add: no_cr_def byte_def)
  moreover have "number ''0'' 16 = Inr 0" by (simp add: number_def digit_of_def is_digit_def byte_def)
  ultimately show ?case by (subst chunks.simps) (simp add: chunked_def Let_def)
next
  case (Cons c cs)
  let ?h = "show_hex (length c)" and ?r = "chunked cs"
  have eq: "chunked (c # cs) = ?h @ CRLF @ c @ CRLF @ ?r" by (simp add: chunked_def)
  have "no_cr ?h"
    unfolding no_cr_def using show_hex_chars by (force simp: is_lower_hex_def is_digit_def)
  then have f: "find_text CRLF (?h @ CRLF @ c @ CRLF @ ?r) = Some (length ?h)" by (rule find_crlf)
  have n: "number ?h 16 = Inr (length c)" using Cons.prems by (intro number_hex) simp
  have "chunks (out @ c) ?r = Inr ((out @ c) @ concat cs)" using Cons by (intro Cons.IH) auto
  with f n Cons.prems show ?case
    unfolding eq by (subst chunks.simps) (simp add: Let_def)
qed


lemma lines_loop_line: "\<forall>c\<in>set l. byte c \<noteq> 10 \<Longrightarrow> lines_loop out (l @ chr 10 # r) = (out @ l) # lines_loop [] r"
  by (induction l arbitrary: out) auto

lemma lines_loop_last: "\<forall>c\<in>set l. byte c \<noteq> 10 \<Longrightarrow> out @ l \<noteq> [] \<Longrightarrow> lines_loop out l = [out @ l]"
proof (induction l arbitrary: out)
  case (Cons c l)
  then show ?case using Cons.IH [of "out @ [c]"] by simp
qed simp

lemma text_lines_two:
  assumes "no_cr a" "no_cr b" "b \<noteq> []"
  shows "text_lines (a @ CRLF @ b) = [a @ [chr 13], b]"
proof -
  have "\<forall>c\<in>set (a @ [chr 13]). byte c \<noteq> 10" "\<forall>c\<in>set b. byte c \<noteq> 10"
    using assms by (auto simp: no_cr_def)
  then show ?thesis
    using lines_loop_line [of "a @ [chr 13]" "[]" b] lines_loop_last [of b "[]"] assms(3) by (simp add: text_lines_def)
qed

lemma show_nat_three: "100 \<le> n \<Longrightarrow> n \<le> 999 \<Longrightarrow> length (show_nat n) = 3"
proof -
  assume n: "100 \<le> n" "n \<le> 999"
  then have "n div 10 div 10 < 10" "\<not> n < 10" "\<not> n div 10 < 10" by linarith+
  then show ?thesis by (simp add: show_nat.simps [of n] show_nat.simps [of "n div 10"] show_nat.simps [of "n div 10 div 10"])
qed

lemma status_line_reply:
  assumes "100 \<le> status" "status \<le> 999"
  shows "status_line ((''HTTP/1.1 '' @ show_nat status @ '' '' @ reason) # ls) = Inr (int status)"
proof -
  obtain a b c where d: "show_nat status = [a, b, c]"
    using show_nat_three [OF assms] by (auto simp: numeral_3_eq_3 length_Suc_conv)
  have "number (show_nat status) 10 = Inr status" using assms by (intro number_decimal) simp
  then show ?thesis unfolding d by (simp add: status_line_def)
qed

definition header_line :: "string \<Rightarrow> string \<Rightarrow> string" where
  "header_line name v = name @ '': '' @ v"

lemma header_fields_line:
  assumes name: "CHR '':'' \<notin> set name" and v: "no_cr v" "v \<noteq> []" "hd v \<noteq> CHR '' ''"
  shows "header_fields [] [header_line name v] = Inr [(map to_lower name, v)]"
proof -
  have "last (header_line name v) \<noteq> chr 13"
    using v no_crD by (auto simp: header_line_def)
  then have cr: "pop_cr (header_line name v) = header_line name v" by (simp add: pop_cr_def)
  have f: "find_text '':'' (header_line name v) = Some (length name)"
    using find_text_skip [of name "CHR '':''" "[]" "'': '' @ v"] name by (auto simp: header_line_def)
  have "dropWhile (\<lambda>c. c = CHR '' '') v = v" using v by (cases v) auto
  then show ?thesis
    by (simp add: cr f Let_def dict_has_def dict_emplace_def) (simp add: header_line_def)
qed

lemma header_split:
  "take (length a + length h + 2) (a @ CRLF @ h @ CRLF @ CRLF @ b) = a @ CRLF @ h"
  "drop (length a + length h + 2 + 4) (a @ CRLF @ h @ CRLF @ CRLF @ b) = b"
proof -
  let ?x = "a @ CRLF @ h @ CRLF @ CRLF"
  have "length a + length h + 2 + 4 = length ?x" "a @ CRLF @ h @ CRLF @ CRLF @ b = ?x @ b" by simp_all
  then show "drop (length a + length h + 2 + 4) (a @ CRLF @ h @ CRLF @ CRLF @ b) = b"
    by (metis append_eq_conv_conj)
qed simp

lemma parse_reply:
  assumes status: "100 \<le> status" "status \<le> 999" and reason: "no_cr reason"
    and name: "CHR '':'' \<notin> set name" "no_cr name" "name \<noteq> []" and v: "no_cr v" "v \<noteq> []" "hd v \<noteq> CHR '' ''"
    and size: "length reason + length name + length v \<le> 16000"
      "length (reply status reason (header_line name v) body) \<le> 24576"
    and body: "response_body [(map to_lower name, v)] body = Inr b" "length b \<le> 8192"
    and retry: "map to_lower name \<noteq> ''retry-after''"
  shows "parse_http_response (reply status reason (header_line name v) body) =
    Inr \<lparr>http_status = int status, http_body = b, http_retry_after = 0\<rparr>"
proof -
  let ?a = "''HTTP/1.1 '' @ show_nat status @ '' '' @ reason" and ?h = "header_line name v"
  have len: "length (show_nat status) = 3" by (rule show_nat_three [OF status])
  have "\<forall>c\<in>set (show_nat status). is_digit c" using show_nat_digits by (auto simp: list_all_iff)
  then have a: "no_cr ?a"
    using reason by (auto simp: no_cr_def is_digit_def) (auto simp: byte_def)
  have h: "no_cr ?h" "?h \<noteq> []"
    using name v by (auto simp: no_cr_def header_line_def) (auto simp: byte_def)
  have r: "reply status reason ?h body = ?a @ CRLF @ ?h @ CRLF @ CRLF @ body" by (simp add: reply_def)
  define k where "k = length ?a + length ?h + 2"
  have f: "find_text (CRLF @ CRLF) (reply status reason ?h body) = Some k"
    unfolding r k_def by (rule find_header_end [OF a h])
  have t: "take k (reply status reason ?h body) = ?a @ CRLF @ ?h" "drop (k + 4) (reply status reason ?h body) = body"
    unfolding r k_def by (rule header_split)+
  have ls: "text_lines (?a @ CRLF @ ?h) = [?a @ [chr 13], ?h]" by (rule text_lines_two [OF a h])
  have st: "status_line [?a @ [chr 13], ?h] = Inr (int status)"
    using status_line_reply [OF status, of "reason @ [chr 13]"] by simp
  have ra: "retry_after_field [(map to_lower name, v)] = Inr 0" using retry by (simp add: retry_after_field_def)
  have "\<not> 16384 < k" using size(1) len by (simp add: header_line_def k_def)
  then show ?thesis
    using size(2) body(2)
    unfolding parse_http_response_def f option.case t ls st Let_def list.sel header_fields_line [OF name(1) v] ebind_Inr body(1) ra
    by simp
qed


text \<open>A wait succeeds only with a descriptor that is ready before the deadline.\<close>

lemma wait_ready_iff:
  "wait_ready ps = Inr () \<longleftrightarrow>
     (\<exists>ks rest. ps = ks @ (False, PollReady) # rest \<and> (\<forall>k\<in>set ks. k = (False, PollInterrupted) \<or> k = (False, PollTimeout)))"
proof
  show "wait_ready ps = Inr () \<Longrightarrow>
      \<exists>ks rest. ps = ks @ (False, PollReady) # rest \<and> (\<forall>k\<in>set ks. k = (False, PollInterrupted) \<or> k = (False, PollTimeout))"
  proof (induction ps)
    case (Cons x ps)
    obtain over p where x: "x = (over, p)" by fastforce
    show ?case
    proof (cases "p = PollReady")
      case True
      then show ?thesis using Cons.prems x by (intro exI [of _ "[]"] exI [of _ ps]) (simp split: if_splits)
    next
      case False
      then have o: "\<not> over" "p = PollInterrupted \<or> p = PollTimeout" "wait_ready ps = Inr ()"
        using Cons.prems x by (auto split: if_splits poll_result.splits)
      then obtain ks rest where "ps = ks @ (False, PollReady) # rest" "\<forall>k\<in>set ks. k = (False, PollInterrupted) \<or> k = (False, PollTimeout)"
        using Cons.IH [OF o(3)] by (elim exE conjE)
      then show ?thesis using o x by (intro exI [of _ "x # ks"] exI [of _ rest]) simp
    qed
  qed simp
next
  have "(\<forall>k\<in>set ks. k = (False, PollInterrupted) \<or> k = (False, PollTimeout)) \<Longrightarrow> wait_ready (ks @ (False, PollReady) # rest) = Inr ()" for ks rest
    by (induction ks) auto
  then show "\<exists>ks rest. ps = ks @ (False, PollReady) # rest \<and> (\<forall>k\<in>set ks. k = (False, PollInterrupted) \<or> k = (False, PollTimeout)) \<Longrightarrow>
      wait_ready ps = Inr ()" by blast
qed

section \<open>Properties\<close>

text \<open>An exchange returns only after the whole request was sent in order, and returns exactly the stream the
  peer sent up to its end, within the limit; every other course of events is \<^verbatim>\<open>TRANSPORT_UNAVAILABLE\<close>.\<close>

theorem exchange_complete:
  assumes "exchange online request maximum es = Inr (sent, r)"
  shows "online \<and> sent = request \<and> length r \<le> maximum \<and>
    (\<exists>es'. send_loop request es = Inr (request, es') \<and> r = stream es')"
  using assms by (auto simp: exchange_def result_simps dest: send_loop_all recv_loop_bounded recv_loop_stream split: if_splits)

theorem exchange_complete_witness:
  "length ''ok'' \<le> (5 :: nat) \<and>
   (\<exists>es'. send_loop ''GET'' [Moved 2, Again, Moved 1, Received ''ok'', Received []] = Inr (''GET'', es') \<and> ''ok'' = stream es')"
proof -
  have "exchange True ''GET'' 5 [Moved 2, Again, Moved 1, Received ''ok'', Received []] = Inr (''GET'', ''ok'')" by code_simp
  from exchange_complete [OF this] show ?thesis by blast
qed

text \<open>C35: A parsed response has a status of at most three digits, a body of at most 8192 bytes and a retry delay of
  at most a day; whatever the bytes are, parsing ends, and its only error is \<^verbatim>\<open>TRANSPORT_UNAVAILABLE\<close>.\<close>

theorem http_response_bounds:
  "case parse_http_response bytes of
     Inl e \<Rightarrow> e = TRANSPORT_UNAVAILABLE
   | Inr r \<Rightarrow> 0 \<le> http_status r \<and> http_status r \<le> 999 \<and> length (http_body r) \<le> 8192 \<and>
       0 \<le> http_retry_after r \<and> http_retry_after r \<le> 86400"
proof (cases "parse_http_response bytes")
  case (Inl e)
  then show ?thesis using parse_http_error by simp
next
  case (Inr r)
  then show ?thesis
    using status_range
    by (auto simp: parse_http_response_def Let_def result_simps retry_after_field_def split: option.splits if_splits)
qed

text \<open>C34: Reading inverts writing, and the two framings are equivalent: a response with its length declared and one
  whose body is sent in chunks are parsed to the same status and body.\<close>

theorem http_framings_equivalent:
  assumes "100 \<le> status" "status \<le> 999" "no_cr reason" "length reason \<le> 1000"
    and "\<forall>c\<in>set cs. c \<noteq> []" "length (concat cs) \<le> 8192" "length (chunked cs) \<le> 20000"
  shows "parse_http_response (reply status reason (header_line ''Transfer-Encoding'' ''chunked'') (chunked cs)) =
         parse_http_response (reply status reason (header_line ''Content-Length'' (show_nat (length (concat cs)))) (concat cs)) \<and>
    parse_http_response (reply status reason (header_line ''Content-Length'' (show_nat (length (concat cs)))) (concat cs)) =
         Inr \<lparr>http_status = int status, http_body = concat cs, http_retry_after = 0\<rparr>"
proof -
  let ?n = "show_nat (length (concat cs))"
  have names: "map to_lower ''Content-Length'' = ''content-length''" "map to_lower ''Transfer-Encoding'' = ''transfer-encoding''"
    "no_cr ''Content-Length''" "no_cr ''Transfer-Encoding''" "no_cr ''chunked''"
    unfolding no_cr_def by (code_simp, code_simp, code_simp, code_simp, code_simp)
  have digits: "\<forall>c\<in>set ?n. is_digit c" using show_nat_digits by (auto simp: list_all_iff)
  moreover have "\<not> is_digit (CHR '' '')" by code_simp
  then have "hd ?n \<noteq> CHR '' ''" using show_nat_hd_digit by metis
  ultimately have n: "no_cr ?n" "hd ?n \<noteq> CHR '' ''"
    by (auto simp: no_cr_def is_digit_def)
  have len: "length ?n \<le> 4" using assms(6) by (intro length_show_nat_le) simp
  have three: "length (show_nat status) = 3" by (rule show_nat_three [OF assms(1,2)])
  have "response_body [(map to_lower ''Content-Length'', ?n)] (concat cs) = Inr (concat cs)"
    using assms(6) by (simp add: names response_body_def dict_has_def number_decimal)
  then have plain: "parse_http_response (reply status reason (header_line ''Content-Length'' ?n) (concat cs)) =
      Inr \<lparr>http_status = int status, http_body = concat cs, http_retry_after = 0\<rparr>"
    using assms n len three by (intro parse_reply) (simp_all add: names, simp_all add: reply_def header_line_def)
  have "response_body [(map to_lower ''Transfer-Encoding'', ''chunked'')] (chunked cs) = Inr (concat cs)"
    using chunks_chunked [of cs "[]"] assms(5,6) unfolding names by (simp add: response_body_def dict_has_def)
  then have "parse_http_response (reply status reason (header_line ''Transfer-Encoding'' ''chunked'') (chunked cs)) =
      Inr \<lparr>http_status = int status, http_body = concat cs, http_retry_after = 0\<rparr>"
    using assms three by (intro parse_reply) (simp_all add: names, simp_all add: reply_def header_line_def)
  with plain show ?thesis by simp
qed

theorem http_framings_equivalent_witness:
  "parse_http_response (reply 201 ''Created'' (header_line ''Transfer-Encoding'' ''chunked'') (chunked [''ab'', ''c''])) =
     Inr \<lparr>http_status = 201, http_body = ''abc'', http_retry_after = 0\<rparr>"
proof -
  have "no_cr ''Created''" "length (chunked [''ab'', ''c'']) \<le> 20000"
    unfolding no_cr_def by (code_simp, simp add: chunked_def show_hex.simps)
  then show ?thesis using http_framings_equivalent [of 201 "''Created''" "[''ab'', ''c'']"] by simp
qed

end
