(* ===== verification/Spec2Isabelle.thy ===== *)
theory Spec2Isabelle
  imports Resets Handover Startup Http
begin

text \<open>
  Verification of the Tire Health service: a service in a vehicle that reads tire telemetry, assesses the condition of
  the tires after each exercise, keeps the assessment in files that survive a stop at any point, delivers messages to a
  backend and asks a gateway to show or clear an advisory. The code is under \<^verbatim>\<open>src/\<close> (C++).

  \<^bold>\<open>The parts and their theories.\<close>

  \<^item> \<^verbatim>\<open>Prelude\<close>: exceptions as the left of a sum (\<open>ebind\<close>, \<open>emap\<close>, \<open>ethrow_if\<close> with the order of evaluation of
    \<^verbatim>\<open>||\<close> and \<^verbatim>\<open>&&\<close> as \<open>eany\<close> and \<open>eall\<close>) and \<^verbatim>\<open>std::map\<close> as a sorted association list (\<open>dict\<close>).
  \<^item> \<^verbatim>\<open>Binary64\<close>: the fragment of IEEE doubles that the model and the parser use, as exact rationals with rounding.
  \<^item> \<^verbatim>\<open>Json\<close>, \<^verbatim>\<open>Canonical\<close> (\<^verbatim>\<open>runtime/json.cpp\<close>, \<^verbatim>\<open>canonical\<close> of \<^verbatim>\<open>protocol.cpp\<close>): values, accessors, parser and
    serializer. The parser throws one exception only and never exhausts its recursion bound; reading a canonical text
    gives the value back.
  \<^item> \<^verbatim>\<open>Digest\<close> (\<^verbatim>\<open>sha256.cpp\<close>, \<^verbatim>\<open>uuid.cpp\<close>): SHA-256, SHA-1, their texts, name-based identifiers. \<^verbatim>\<open>Timestamps\<close> and
    \<^verbatim>\<open>Protocol\<close> (\<^verbatim>\<open>protocol.cpp\<close>): RFC 3339 times, credentials, retry delays, message keys, acknowledgements and the
    assembly of telemetry frames.
  \<^item> \<^verbatim>\<open>Identity\<close> (\<^verbatim>\<open>application.cpp\<close>, \<^verbatim>\<open>service_identity.hpp\<close>): identity, metadata and its persisted binding, leases.
  \<^item> \<^verbatim>\<open>Model\<close>, \<^verbatim>\<open>Messages\<close> (\<^verbatim>\<open>model.cpp\<close>): features, assessment with hysteresis, the episode engine, and the messages
    built from an assessment or an answer of the gateway.
  \<^item> \<^verbatim>\<open>Files\<close>, \<^verbatim>\<open>Store\<close> (\<^verbatim>\<open>state.cpp\<close>): directories as maps from names to files. Every system call that changes a
    directory takes one element of a script, which lets it succeed, fail or stop the program before or after it, so a
    theorem over all scripts is a theorem over all failures and crashes. \<^verbatim>\<open>Journal\<close>, \<^verbatim>\<open>Recovery\<close>, \<^verbatim>\<open>Atomicity\<close> and
    \<^verbatim>\<open>Delivery\<close> show that a commit is atomic under every script, that an interrupted recovery may be repeated, and
    that a message leaves the outbox only by a matching acknowledgement.
  \<^item> \<^verbatim>\<open>Observation\<close>, \<^verbatim>\<open>Ledger\<close>, \<^verbatim>\<open>Numbering\<close>, \<^verbatim>\<open>Handover\<close> (\<^verbatim>\<open>aosedge/function_observation.hpp\<close>): the facts the service reports of
    itself, whose snapshot always passes the checks of a message, and the ledger of observations that wait for
    delivery, whose numbers never name two messages over any life of its directory.
  \<^item> \<^verbatim>\<open>Effects\<close>: methods of objects with members and files, and contracts for them. \<^verbatim>\<open>Runtime\<close> (\<^verbatim>\<open>runtime.cpp\<close>): the
    object that composes model, store, messages and facts; every message that is built for the backend meets the contract of the outbox.
    \<^verbatim>\<open>Transitions\<close>: the persisted document as an abstract state
    machine, \<open>state_step\<close>. \<^verbatim>\<open>Advisories\<close>: every method refines a step of it, and advisory requests are numbered in order
    without reuse. \<^verbatim>\<open>Resets\<close>: the protocol of a demonstration reset and the exercises that were consumed.
  \<^item> \<^verbatim>\<open>Session\<close> (\<^verbatim>\<open>session_reconnect.hpp\<close>, \<^verbatim>\<open>readiness_publication.hpp\<close>): the interruption cause raised by concurrent
    threads with compare-and-swap, as an interleaving of steps; the pacing of readiness publications.
  \<^item> \<^verbatim>\<open>Http\<close> (\<^verbatim>\<open>posix.cpp\<close>): the socket exchange as a script of events, requests, and the response parser.
  \<^item> \<^verbatim>\<open>Bootstrap\<close> (\<^verbatim>\<open>token_session.cpp\<close>, \<^verbatim>\<open>atomic_private_file\<close> of \<^verbatim>\<open>posix.cpp\<close>, \<^verbatim>\<open>bootstrap_main.cpp\<close>): the process
    that obtains the credential. A round of its loop takes the two clocks, the state of the child and the answer of the
    credential service as inputs; a clock that cannot be read ends the loop with an exception. The token file is there
    only while its lease runs, and the loop removes it before each of its own ends.
  \<^item> \<^verbatim>\<open>Kuksa\<close>, \<^verbatim>\<open>Service\<close>, \<^verbatim>\<open>Contexts\<close>, \<^verbatim>\<open>Subscribe\<close> (\<^verbatim>\<open>grpc_main.cpp\<close>): the service process. \<^verbatim>\<open>Kuksa\<close> has the messages of the server, the
    check of its description, the clocks, the log and the transport; a reading of a clock may fail, and the log, which reads both clocks and
    formats the time, may throw. \<^verbatim>\<open>Service\<close> has the handlers of the threads as methods on
    the shared objects, with every call on the runtime, the ledger, the transport, the server, the clocks and the log, inside and outside of the
    handlers as in the code: an exception leaves a round of the delivery thread only by a clock that fails. A life of the service is any
    sequence of them, with any failures, and keeps the order of the advisory requests. \<^verbatim>\<open>Contexts\<close> is the interleaving
    of the watcher with the threads that make contexts: after a change of the inputs no context stays uncancelled. \<^verbatim>\<open>Subscribe\<close> is one
    session from its start to its end and the main thread: the transport outlives a session only for a planned renewal.
  \<^item> \<^verbatim>\<open>Demonstration\<close> (\<^verbatim>\<open>demo_mock.hpp\<close>, \<^verbatim>\<open>demo_no_telemetry.hpp\<close>): the modes for validation units. \<^verbatim>\<open>Startup\<close> (\<^verbatim>\<open>bootstrap_main.cpp\<close>,
    \<^verbatim>\<open>grpc_main.cpp\<close>, \<^verbatim>\<open>application.cpp\<close>): the start of both processes, the wait for the inputs, the launch of the service and
    how it is stopped; what the bootstrap process hands over passes the checks of the service.

  \<^bold>\<open>How the parts interact.\<close> The locales state what one part relies on in another, and each is interpreted on the
  definitions that model the code: \<open>ordered_map\<close> (\<^verbatim>\<open>Prelude\<close>) on the dictionary of a JSON object, \<open>codec\<close> (\<^verbatim>\<open>Canonical\<close>)
  on the serializer and the parser, and the contracts of \<^verbatim>\<open>Runs\<close>: \<open>confirmed_queue\<close> on the outbox (\<^verbatim>\<open>Delivery\<close>),
  \<open>step_invariant\<close> and \<open>step_progress\<close> on the threads that raise the interruption cause (\<^verbatim>\<open>Session\<close>) and on those that make and cancel
  contexts (\<^verbatim>\<open>Contexts\<close>), \<open>run_invariant\<close> on
  the methods of \<^verbatim>\<open>Runtime\<close> (\<^verbatim>\<open>Advisories\<close>) and \<open>simulation\<close> on the service process over that object (\<^verbatim>\<open>Service\<close>).
  \<open>Runtime\<close> reaches the store through \<open>commit\<close>, \<open>pending\<close> and \<open>acknowledge\<close> only.

  \<^bold>\<open>Bounds and fuel.\<close> Recursion over text is bounded by the length of the text (\<open>json_fuel\<close>), which is shown to be
  enough. Loops over a file or a socket recurse on the script, whose end means that every later call succeeds. The readings of the clocks are a
  stream, and \<open>pause\<close> recurses on its looks for a stop, of which the end of the list is one. Integers
  are unbounded where the code checks their range before it uses them, and words where they wrap (SHA, UTF-8 masks).

  \<^bold>\<open>Not modelled.\<close> The gRPC library: its calls are given by their outcomes, its contexts by names, and its messages by
  their fields. The time that \<^verbatim>\<open>sleep_for\<close> takes and the installation of signal handlers; that a signal
  came is an input of the rounds. The process image after \<^verbatim>\<open>exec\<close> is given by its command line and environment. The destructors that
  close descriptors. The public methods of an object that holds a mutex are atomic in the model, as the lock makes them; the rest of the
  files under \<^verbatim>\<open>src/\<close> that no definition covers is declarations in headers.
\<close>

end
